(* ===== verification/Dawn_Prelude.thy ===== *)
theory Dawn_Prelude
  imports
    Main
    "HOL-Library.Word"
    "HOL-Library.Multiset"
    "HOL-Library.Char_ord"
    "HOL-Library.List_Lexorder"
    "HOL-Library.Product_Lexorder"
begin

text \<open>
  What every component of the firmware model shares: the names of the fixed-width integer
  types, exactness lemmas for signed 64-bit arithmetic, decimal rendering (the model of
  \<open>std::to_string\<close>), and a few facts about lists that the component proofs use.

  A C++ \<open>std::uint64_t\<close> and a C++ \<open>std::int64_t\<close> are both a \<open>64 word\<close>: the unsigned type
  is compared with the order of the word type, the signed one through \<open>sint\<close>. Signed
  overflow is undefined behaviour in C++, so each place where the code adds or subtracts
  signed values comes with a lemma that \<open>sint\<close> of the result is the mathematical result.
  A \<open>std::string\<close> is a list of 8-bit characters ordered lexicographically by unsigned
  character value, a \<open>std::byte\<close> is an \<open>8 word\<close>.
\<close>

unbundle bit_operations_syntax

type_synonym u8 = "8 word"
type_synonym u16 = "16 word"
type_synonym u32 = "32 word"
type_synonym u64 = "64 word"
type_synonym i64 = "64 word"
type_synonym bytes = "8 word list"

named_theorems component_defs \<open>the operations of a component, to be unfolded in its proofs\<close>
named_theorems invariant_intros \<open>introduction rules for the invariants of the components\<close>

abbreviation i64_max :: int where
  "i64_max \<equiv> 9223372036854775807"

abbreviation i64_min :: int where
  "i64_min \<equiv> - 9223372036854775808"

section \<open>Signed 64-bit arithmetic\<close>

lemma sint_i64_ge: "i64_min \<le> sint (x :: i64)"
  using sint_ge [of x] by simp

lemma sint_i64_le: "sint (x :: i64) \<le> i64_max"
  using sint_lt [of x] by simp

lemma sint_add_exact:
  fixes a b :: i64
  assumes "i64_min \<le> sint a + sint b" and "sint a + sint b \<le> i64_max"
  shows "sint (a + b) = sint a + sint b"
  using assms by (simp add: sint_word_ariths signed_take_bit_int_eq_self)

lemma sint_diff_exact:
  fixes a b :: i64
  assumes "i64_min \<le> sint a - sint b" and "sint a - sint b \<le> i64_max"
  shows "sint (a - b) = sint a - sint b"
  using assms by (simp add: sint_word_ariths signed_take_bit_int_eq_self)

lemma sint_i64_of_int:
  assumes "i64_min \<le> n" and "n \<le> i64_max"
  shows "sint (word_of_int n :: i64) = n"
  using assms by (simp add: signed_take_bit_int_eq_self sint_sbintrunc')

section \<open>Decimal rendering\<close>

text \<open>\<open>std::to_string\<close> of an unsigned and of a signed 64-bit integer.\<close>

fun decimal :: "nat \<Rightarrow> string" where
  "decimal n =
     (if n < 10 then [char_of (48 + n)]
      else decimal (n div 10) @ [char_of (48 + n mod 10)])"

declare decimal.simps [simp del]

definition to_string_u64 :: "u64 \<Rightarrow> string" where
  "to_string_u64 n = decimal (unat n)"

definition to_string_i64 :: "i64 \<Rightarrow> string" where
  "to_string_i64 n =
     (if sint n < 0 then CHR ''-'' # decimal (nat (- sint n)) else decimal (nat (sint n)))"

lemma of_char_digit: "n < 10 \<Longrightarrow> of_char (char_of (48 + n :: nat) :: char) = (48 + n :: nat)"
  by simp

lemma decimal_nonempty [simp]: "decimal n \<noteq> []"
  by (subst decimal.simps) simp

lemma decimal_chars: "c \<in> set (decimal n) \<Longrightarrow> 48 \<le> (of_char c :: nat) \<and> (of_char c :: nat) \<le> 57"
proof (induction n rule: decimal.induct)
  case (1 n)
  show ?case
  proof (cases "n < 10")
    case True
    with "1.prems" show ?thesis by (simp add: decimal.simps [of n] of_char_digit)
  next
    case False
    with "1.prems" have "c \<in> set (decimal (n div 10)) \<or> c = char_of (48 + n mod 10)"
      by (auto simp: decimal.simps [of n])
    then show ?thesis
    proof
      assume "c \<in> set (decimal (n div 10))"
      with False "1.IH" show ?thesis by simp
    next
      assume "c = char_of (48 + n mod 10)"
      then show ?thesis by (simp add: of_char_digit)
    qed
  qed
qed

lemma decimal_no_char:
  assumes "(of_char c :: nat) < 48 \<or> 57 < (of_char c :: nat)"
  shows "c \<notin> set (decimal n)"
  using decimal_chars [of c n] assms by auto

lemma digit_char_inject:
  assumes "m < 10" and "n < 10" and "(char_of (48 + m :: nat) :: char) = char_of (48 + n)"
  shows "m = (n :: nat)"
proof -
  have "(of_char (char_of (48 + m :: nat) :: char) :: nat) = of_char (char_of (48 + n) :: char)"
    using assms(3) by simp
  then show ?thesis using assms(1,2) by (simp only: of_char_digit)
qed

lemma decimal_inject: "decimal m = decimal n \<Longrightarrow> m = n"
proof (induction m arbitrary: n rule: decimal.induct)
  case (1 m)
  show ?case
  proof (cases "m < 10"; cases "n < 10")
    assume "m < 10" "n < 10"
    with "1.prems" show ?thesis
      by (auto simp: decimal.simps [of m] decimal.simps [of n] dest: digit_char_inject)
  next
    assume "m < 10" "\<not> n < 10"
    with "1.prems" have "[] = decimal (n div 10)"
      by (simp add: decimal.simps [of m] decimal.simps [of n])
    then show ?thesis by (metis decimal_nonempty)
  next
    assume "\<not> m < 10" "n < 10"
    with "1.prems" show ?thesis
      by (simp add: decimal.simps [of m] decimal.simps [of n])
  next
    assume big: "\<not> m < 10" "\<not> n < 10"
    with "1.prems" have "decimal (m div 10) = decimal (n div 10)"
      and last: "(char_of (48 + m mod 10) :: char) = char_of (48 + n mod 10)"
      by (simp_all add: decimal.simps [of m] decimal.simps [of n])
    with big "1.IH" have "m div 10 = n div 10" by simp
    moreover have "m mod 10 = n mod 10"
      using digit_char_inject [OF _ _ last] by simp
    ultimately show ?thesis by (metis div_mult_mod_eq)
  qed
qed

lemma length_decimal: "n < 10 ^ Suc k \<Longrightarrow> length (decimal n) \<le> Suc k"
proof (induction k arbitrary: n)
  case 0
  then show ?case by (simp add: decimal.simps)
next
  case (Suc k)
  show ?case
  proof (cases "n < 10")
    case True
    then show ?thesis by (simp add: decimal.simps)
  next
    case False
    have "n div 10 < 10 ^ Suc k" using Suc.prems by (simp add: less_mult_imp_div_less)
    then have "length (decimal (n div 10)) \<le> Suc k" by (rule Suc.IH)
    with False show ?thesis by (simp add: decimal.simps [of n])
  qed
qed

lemma to_string_u64_inject: "to_string_u64 m = to_string_u64 n \<Longrightarrow> m = n"
  by (auto simp: to_string_u64_def intro: unsigned_word_eqI dest: decimal_inject)

lemma to_string_i64_inject:
  assumes "to_string_i64 m = to_string_i64 n"
  shows "m = n"
proof -
  have minus: "CHR ''-'' \<notin> set (decimal k)" for k
    by (rule decimal_no_char) simp
  have "sint m = sint n"
  proof (cases "sint m < 0"; cases "sint n < 0")
    assume neg: "sint m < 0" "sint n < 0"
    with assms have "nat (- sint m) = nat (- sint n)"
      by (auto simp: to_string_i64_def dest: decimal_inject)
    with neg show ?thesis by simp
  next
    assume "sint m < 0" "\<not> sint n < 0"
    with assms have "CHR ''-'' \<in> set (decimal (nat (sint n)))"
      by (auto simp: to_string_i64_def dest: sym)
    with minus show ?thesis by blast
  next
    assume "\<not> sint m < 0" "sint n < 0"
    with assms have "CHR ''-'' \<in> set (decimal (nat (sint m)))"
      by (auto simp: to_string_i64_def)
    with minus show ?thesis by blast
  next
    assume nonneg: "\<not> sint m < 0" "\<not> sint n < 0"
    with assms have "nat (sint m) = nat (sint n)"
      by (auto simp: to_string_i64_def dest: decimal_inject)
    with nonneg show ?thesis by simp
  qed
  then show ?thesis by (rule signed_word_eqI)
qed

lemma to_string_u64_chars:
  "c \<in> set (to_string_u64 n) \<Longrightarrow> 48 \<le> (of_char c :: nat) \<and> (of_char c :: nat) \<le> 57"
  unfolding to_string_u64_def by (rule decimal_chars)

lemma to_string_i64_chars:
  "c \<in> set (to_string_i64 n) \<Longrightarrow> 45 \<le> (of_char c :: nat) \<and> (of_char c :: nat) \<le> 57"
  by (auto simp: to_string_i64_def split: if_splits dest!: decimal_chars)

lemma length_to_string_u64: "length (to_string_u64 n) \<le> 20"
proof -
  have "unat n < 2 ^ 64" using unsigned_less [of n] by simp
  then have "unat n < 10 ^ Suc 19" by simp
  then show ?thesis unfolding to_string_u64_def using length_decimal [of "unat n" 19] by simp
qed

lemma length_to_string_i64: "length (to_string_i64 n) \<le> 20"
proof -
  have "nat \<bar>sint n\<bar> \<le> 9223372036854775808"
    using sint_i64_ge [of n] sint_i64_le [of n] by linarith
  then have "nat \<bar>sint n\<bar> < 10 ^ Suc 18" by simp
  then have "length (decimal (nat \<bar>sint n\<bar>)) \<le> Suc 18" by (rule length_decimal)
  then show ?thesis by (simp add: to_string_i64_def abs_if split: if_splits)
qed

section \<open>Lists\<close>

lemma append_sep_inject:
  assumes "c \<notin> set xs" and "c \<notin> set ys" and "us @ c # xs = vs @ c # ys"
  shows "us = vs \<and> xs = ys"
  using assms by (auto simp: append_eq_append_conv2 Cons_eq_append_conv append_eq_Cons_conv)

lemma distinct_map_drop: "distinct (map f xs) \<Longrightarrow> distinct (map f (drop n xs))"
  by (simp add: drop_map [symmetric])

lemma length_filter_le_one:
  assumes "\<And>x y. x \<in> set xs \<Longrightarrow> P x \<Longrightarrow> False"
  shows "filter P xs = []"
  using assms by (auto simp: filter_empty_conv)

text \<open>
  Two lists with the same elements that are both strictly ordered by an injective key are
  the same list: what makes the result of \<open>std::sort\<close>, which is not stable, unique.
\<close>

lemma sort_key_unique:
  fixes f :: "'a \<Rightarrow> 'b :: linorder"
  assumes "mset xs = mset ys" and "sorted (map f xs)" and "distinct (map f xs)"
  shows "xs = sort_key f ys"
proof (rule map_sorted_distinct_set_unique)
  have same: "set (sort_key f ys) = set xs" using assms(1) by (metis set_mset_mset set_sort)
  then show "set xs = set (sort_key f ys)" by simp
  show "inj_on f (set xs \<union> set (sort_key f ys))"
    using assms(3) same by (simp add: distinct_map)
  have "mset (map f (sort_key f ys)) = mset (map f xs)" using assms(1) by simp
  then show "distinct (map f (sort_key f ys))"
    using assms(3) by (metis mset_eq_imp_distinct_iff)
  show "sorted (map f (sort_key f ys))" by simp
qed (use assms in simp_all)

end
