(* ===== verification/Alarm_Engine.thy ===== *)
theory Alarm_Engine
  imports Dawn_Prelude
begin

text \<open>
  The alarm engine, \<open>firmware/components/alarm_core/alarm_engine.cpp\<close> with its header
  \<open>include/dawn/alarm_engine.hpp\<close>: the occurrence lifecycle (due, ring, snooze, dismiss,
  time-out, reboot recovery) over the persistent journal. A C++ operation that updates the
  journal through a reference and returns an \<open>EvaluationResult\<close> is a function that returns
  the result and the new journal. Field names carry the initials of their struct.
\<close>

section \<open>Constants, enumerations and structs\<close>

abbreviation kLateGraceSeconds :: int where "kLateGraceSeconds \<equiv> 600"
abbreviation kDefaultSnoozeSeconds :: int where "kDefaultSnoozeSeconds \<equiv> 540"
abbreviation kMinimumSnoozeSeconds :: int where "kMinimumSnoozeSeconds \<equiv> 60"
abbreviation kMaximumSnoozeSeconds :: int where "kMaximumSnoozeSeconds \<equiv> 1800"
abbreviation kOccurrenceLifetimeSeconds :: int where "kOccurrenceLifetimeSeconds \<equiv> 3600"
abbreviation kMaximumSnoozes :: u8 where "kMaximumSnoozes \<equiv> 6"
abbreviation kRecentTerminalRetention :: nat where "kRecentTerminalRetention \<equiv> 32"
abbreviation kTerminalHighWatermarkCapacity :: nat where "kTerminalHighWatermarkCapacity \<equiv> 32"

datatype evaluation_status =
    ES_disabled
  | ES_armed
  | ES_ringing
  | ES_snoozed
  | ES_dismissed
  | ES_timed_out
  | ES_missed
  | ES_invalid_time
  | ES_duplicate
  | ES_conflict
  | ES_invalid_request
  | ES_snooze_limit_reached

datatype terminal_reason =
    TR_dismissed
  | TR_alarm_disabled
  | TR_timed_out
  | TR_forward_jump
  | TR_invalid_time
  | TR_prolonged_power_off

text \<open>Enumerators compare by their position, as \<open>validate_snapshot\<close> and the codec use them.\<close>

fun reason_code :: "terminal_reason \<Rightarrow> nat" where
  "reason_code TR_dismissed = 0"
| "reason_code TR_alarm_disabled = 1"
| "reason_code TR_timed_out = 2"
| "reason_code TR_forward_jump = 3"
| "reason_code TR_invalid_time = 4"
| "reason_code TR_prolonged_power_off = 5"

lemma reason_code_inject [simp]: "reason_code r = reason_code s \<longleftrightarrow> r = s"
  by (cases r; cases s) simp_all

instantiation terminal_reason :: linorder
begin

definition less_eq_terminal_reason :: "terminal_reason \<Rightarrow> terminal_reason \<Rightarrow> bool" where
  "less_eq_terminal_reason r s \<longleftrightarrow> reason_code r \<le> reason_code s"

definition less_terminal_reason :: "terminal_reason \<Rightarrow> terminal_reason \<Rightarrow> bool" where
  "less_terminal_reason r s \<longleftrightarrow> reason_code r < reason_code s"

instance
  by standard (auto simp: less_eq_terminal_reason_def less_terminal_reason_def)

end

lemma reason_in_range [simp]: "\<not> TR_prolonged_power_off < r"
  by (cases r) (simp_all add: less_terminal_reason_def)

record alarm_definition =
  ad_id :: string
  ad_schedule_revision :: u64
  ad_enabled :: bool
  ad_scheduled_utc_seconds :: i64

record active_occurrence =
  ao_alarm_id :: string
  ao_occurrence_id :: string
  ao_scheduled_utc_seconds :: i64
  ao_first_ring_utc_seconds :: i64
  ao_first_ring_monotonic_seconds :: i64
  ao_snooze_deadline_monotonic_seconds :: "i64 option"
  ao_snooze_count :: u8
  ao_recovered_after_reboot :: bool
  ao_last_recovery_boot_id :: string

record terminal_occurrence =
  to_occurrence_id :: string
  to_reason :: terminal_reason

record terminal_high_watermark =
  hw_alarm_id :: string
  hw_scheduled_utc_seconds :: i64

record persistent_alarm_state =
  ps_active :: "active_occurrence option"
  ps_terminal :: "terminal_occurrence list"
  ps_watermarks :: "terminal_high_watermark list"

record evaluation_result =
  er_status :: evaluation_status
  er_occurrence_id :: string
  er_start_alert :: bool
  er_stop_alert :: bool
  er_persist_before_effects :: bool
  er_late :: bool
  er_lateness_seconds :: i64
  er_recovered_after_reboot :: bool

text \<open>The default member initialisers of \<open>EvaluationResult\<close>.\<close>

definition default_result :: evaluation_result where
  "default_result =
     \<lparr>er_status = ES_armed, er_occurrence_id = [], er_start_alert = False,
      er_stop_alert = False, er_persist_before_effects = False, er_late = False,
      er_lateness_seconds = 0, er_recovered_after_reboot = False\<rparr>"

section \<open>Helpers of the anonymous namespace\<close>

text \<open>The overflow guards are evaluated as the code writes them, on the signed readings.\<close>

definition checked_add :: "i64 \<Rightarrow> i64 \<Rightarrow> i64 option" where
  "checked_add left right =
     (if (0 < sint right \<and> i64_max - sint right < sint left) \<or>
         (sint right < 0 \<and> sint left < i64_min - sint right)
      then None else Some (left + right))"

definition checked_elapsed :: "i64 \<Rightarrow> i64 \<Rightarrow> i64 option" where
  "checked_elapsed now start =
     (if sint now < sint start \<or> (sint start < 0 \<and> i64_max + sint start < sint now)
      then None else Some (now - start))"

definition invalid_time_result :: "string \<Rightarrow> evaluation_result" where
  "invalid_time_result occurrence_id =
     default_result\<lparr>er_status := ES_invalid_time, er_occurrence_id := occurrence_id\<rparr>"

definition find_high_watermark ::
    "persistent_alarm_state \<Rightarrow> string \<Rightarrow> terminal_high_watermark option" where
  "find_high_watermark st alarm_id =
     find (\<lambda>w. hw_alarm_id w = alarm_id) (ps_watermarks st)"

definition can_track_terminal :: "persistent_alarm_state \<Rightarrow> string \<Rightarrow> bool" where
  "can_track_terminal st alarm_id \<longleftrightarrow>
     list_ex (\<lambda>w. hw_alarm_id w = alarm_id) (ps_watermarks st) \<or>
     length (ps_watermarks st) < kTerminalHighWatermarkCapacity"

text \<open>
  \<open>raise_watermark\<close> is the in-place update through the iterator that \<open>find_if\<close> returns:
  the first entry of the alarm is raised, an alarm without an entry is pushed at the end.
\<close>

fun raise_watermark ::
    "string \<Rightarrow> i64 \<Rightarrow> terminal_high_watermark list \<Rightarrow> terminal_high_watermark list" where
  "raise_watermark alarm_id scheduled [] =
     [\<lparr>hw_alarm_id = alarm_id, hw_scheduled_utc_seconds = scheduled\<rparr>]"
| "raise_watermark alarm_id scheduled (w # ws) =
     (if hw_alarm_id w = alarm_id
      then (if sint (hw_scheduled_utc_seconds w) < sint scheduled
            then w\<lparr>hw_scheduled_utc_seconds := scheduled\<rparr> else w) # ws
      else w # raise_watermark alarm_id scheduled ws)"

definition record_terminal_high_watermark ::
    "persistent_alarm_state \<Rightarrow> string \<Rightarrow> i64 \<Rightarrow> persistent_alarm_state" where
  "record_terminal_high_watermark st alarm_id scheduled =
     st\<lparr>ps_watermarks := raise_watermark alarm_id scheduled (ps_watermarks st)\<rparr>"

definition append_terminal ::
    "persistent_alarm_state \<Rightarrow> terminal_occurrence \<Rightarrow> persistent_alarm_state" where
  "append_terminal st occurrence =
     (if list_ex (\<lambda>t. to_occurrence_id t = to_occurrence_id occurrence) (ps_terminal st)
      then st
      else let pushed = ps_terminal st @ [occurrence]
           in st\<lparr>ps_terminal :=
                (if kRecentTerminalRetention < length pushed
                 then drop (length pushed - kRecentTerminalRetention) pushed else pushed)\<rparr>)"

definition make_occurrence_id :: "alarm_definition \<Rightarrow> string" where
  "make_occurrence_id alarm =
     ad_id alarm @ '':'' @ to_string_u64 (ad_schedule_revision alarm) @ '':'' @
     to_string_i64 (ad_scheduled_utc_seconds alarm)"

section \<open>Operations\<close>

definition evaluate_due ::
    "alarm_definition \<Rightarrow> persistent_alarm_state \<Rightarrow> i64 \<Rightarrow> i64 \<Rightarrow> bool \<Rightarrow>
     evaluation_result \<times> persistent_alarm_state" where
  "evaluate_due alarm st wall_utc_seconds monotonic_seconds time_valid =
    (if \<not> ad_enabled alarm then (default_result\<lparr>er_status := ES_disabled\<rparr>, st)
     else if \<not> time_valid then (default_result\<lparr>er_status := ES_invalid_time\<rparr>, st)
     else if sint wall_utc_seconds < sint (ad_scheduled_utc_seconds alarm) then (default_result, st)
     else
      let occurrence_id = make_occurrence_id alarm;
          conflicting =
            (case ps_active st of None \<Rightarrow> False
             | Some a \<Rightarrow> ao_occurrence_id a \<noteq> occurrence_id)
      in if conflicting
         then (default_result\<lparr>er_status := ES_conflict, er_occurrence_id := occurrence_id\<rparr>, st)
         else
          let already_active =
                (case ps_active st of None \<Rightarrow> False
                 | Some a \<Rightarrow> ao_occurrence_id a = occurrence_id);
              at_or_below_terminal_high_watermark =
                (case find_high_watermark st (ad_id alarm) of None \<Rightarrow> False
                 | Some w \<Rightarrow> sint (ad_scheduled_utc_seconds alarm) \<le> sint (hw_scheduled_utc_seconds w));
              already_terminal =
                list_ex (\<lambda>t. to_occurrence_id t = occurrence_id) (ps_terminal st)
          in if already_active \<or> already_terminal \<or> at_or_below_terminal_high_watermark
             then (default_result\<lparr>er_status := ES_duplicate, er_occurrence_id := occurrence_id\<rparr>, st)
             else if \<not> can_track_terminal st (ad_id alarm)
             then (default_result\<lparr>er_status := ES_conflict, er_occurrence_id := occurrence_id\<rparr>, st)
             else case checked_elapsed wall_utc_seconds (ad_scheduled_utc_seconds alarm) of
                None \<Rightarrow> (invalid_time_result occurrence_id, st)
              | Some lateness \<Rightarrow>
                 if kLateGraceSeconds < sint lateness
                 then (default_result\<lparr>er_status := ES_missed, er_occurrence_id := occurrence_id,
                         er_persist_before_effects := True, er_lateness_seconds := lateness\<rparr>,
                       append_terminal
                         (record_terminal_high_watermark st (ad_id alarm)
                            (ad_scheduled_utc_seconds alarm))
                         \<lparr>to_occurrence_id = occurrence_id, to_reason = TR_forward_jump\<rparr>)
                 else (default_result\<lparr>er_status := ES_ringing, er_occurrence_id := occurrence_id,
                         er_start_alert := True, er_persist_before_effects := True,
                         er_late := 0 < sint lateness, er_lateness_seconds := lateness\<rparr>,
                       st\<lparr>ps_active := Some
                         \<lparr>ao_alarm_id = ad_id alarm, ao_occurrence_id = occurrence_id,
                          ao_scheduled_utc_seconds = ad_scheduled_utc_seconds alarm,
                          ao_first_ring_utc_seconds = wall_utc_seconds,
                          ao_first_ring_monotonic_seconds = monotonic_seconds,
                          ao_snooze_deadline_monotonic_seconds = None, ao_snooze_count = 0,
                          ao_recovered_after_reboot = False, ao_last_recovery_boot_id = []\<rparr>\<rparr>))"

definition request_snooze ::
    "persistent_alarm_state \<Rightarrow> string \<Rightarrow> i64 \<Rightarrow> i64 \<Rightarrow>
     evaluation_result \<times> persistent_alarm_state" where
  "request_snooze st occurrence_id monotonic_seconds duration_seconds =
    (let result = default_result\<lparr>er_occurrence_id := occurrence_id\<rparr> in
     case ps_active st of
       None \<Rightarrow> (result\<lparr>er_status := ES_conflict\<rparr>, st)
     | Some a \<Rightarrow>
        if ao_occurrence_id a \<noteq> occurrence_id then (result\<lparr>er_status := ES_conflict\<rparr>, st)
        else if ao_snooze_deadline_monotonic_seconds a \<noteq> None
        then (result\<lparr>er_status := ES_conflict\<rparr>, st)
        else if sint duration_seconds < kMinimumSnoozeSeconds \<or>
                kMaximumSnoozeSeconds < sint duration_seconds
        then (result\<lparr>er_status := ES_invalid_request\<rparr>, st)
        else if kMaximumSnoozes \<le> ao_snooze_count a
        then (result\<lparr>er_status := ES_snooze_limit_reached\<rparr>, st)
        else if sint monotonic_seconds < sint (ao_first_ring_monotonic_seconds a)
        then (invalid_time_result occurrence_id, st)
        else case checked_add monotonic_seconds duration_seconds of
           None \<Rightarrow> (invalid_time_result occurrence_id, st)
         | Some deadline \<Rightarrow>
            (result\<lparr>er_status := ES_snoozed, er_stop_alert := True,
                    er_persist_before_effects := True\<rparr>,
             st\<lparr>ps_active := Some (a\<lparr>ao_snooze_count := ao_snooze_count a + 1,
                  ao_snooze_deadline_monotonic_seconds := Some deadline\<rparr>)\<rparr>))"

definition advance_active ::
    "persistent_alarm_state \<Rightarrow> i64 \<Rightarrow> evaluation_result \<times> persistent_alarm_state" where
  "advance_active st monotonic_seconds =
    (case ps_active st of
       None \<Rightarrow> (default_result, st)
     | Some a \<Rightarrow>
        let result = default_result\<lparr>er_occurrence_id := ao_occurrence_id a\<rparr> in
        case checked_elapsed monotonic_seconds (ao_first_ring_monotonic_seconds a) of
          None \<Rightarrow> (invalid_time_result (ao_occurrence_id a), st)
        | Some elapsed \<Rightarrow>
           if kOccurrenceLifetimeSeconds \<le> sint elapsed
           then (result\<lparr>er_status := ES_timed_out, er_stop_alert := True,
                        er_persist_before_effects := True\<rparr>,
                 (append_terminal
                    (record_terminal_high_watermark st (ao_alarm_id a) (ao_scheduled_utc_seconds a))
                    \<lparr>to_occurrence_id = ao_occurrence_id a, to_reason = TR_timed_out\<rparr>)
                 \<lparr>ps_active := None\<rparr>)
           else case ao_snooze_deadline_monotonic_seconds a of
              None \<Rightarrow> (result\<lparr>er_status := ES_ringing\<rparr>, st)
            | Some deadline \<Rightarrow>
               if sint monotonic_seconds < sint deadline
               then (result\<lparr>er_status := ES_snoozed\<rparr>, st)
               else (result\<lparr>er_status := ES_ringing, er_start_alert := True,
                            er_persist_before_effects := True\<rparr>,
                     st\<lparr>ps_active := Some (a\<lparr>ao_snooze_deadline_monotonic_seconds := None\<rparr>)\<rparr>))"

definition dismiss_active ::
    "persistent_alarm_state \<Rightarrow> string \<Rightarrow> bool \<Rightarrow> evaluation_result \<times> persistent_alarm_state" where
  "dismiss_active st occurrence_id alarm_disabled =
    (let result = default_result\<lparr>er_occurrence_id := occurrence_id\<rparr> in
     case ps_active st of
       None \<Rightarrow> (result\<lparr>er_status := ES_conflict\<rparr>, st)
     | Some a \<Rightarrow>
        if ao_occurrence_id a \<noteq> occurrence_id then (result\<lparr>er_status := ES_conflict\<rparr>, st)
        else (result\<lparr>er_status := ES_dismissed, er_stop_alert := True,
                     er_persist_before_effects := True\<rparr>,
              (append_terminal
                 (record_terminal_high_watermark st (ao_alarm_id a) (ao_scheduled_utc_seconds a))
                 \<lparr>to_occurrence_id = occurrence_id,
                  to_reason = (if alarm_disabled then TR_alarm_disabled else TR_dismissed)\<rparr>)
              \<lparr>ps_active := None\<rparr>))"

definition recover_after_reboot ::
    "persistent_alarm_state \<Rightarrow> i64 \<Rightarrow> string \<Rightarrow> evaluation_result \<times> persistent_alarm_state" where
  "recover_after_reboot st wall_utc_seconds boot_id =
    (case ps_active st of
       None \<Rightarrow> (default_result, st)
     | Some a \<Rightarrow>
        let result = default_result\<lparr>er_occurrence_id := ao_occurrence_id a\<rparr> in
        if ao_last_recovery_boot_id a = boot_id
        then (result\<lparr>er_status := ES_duplicate\<rparr>, st)
        else case checked_elapsed wall_utc_seconds (ao_first_ring_utc_seconds a) of
          None \<Rightarrow> (invalid_time_result (ao_occurrence_id a), st)
        | Some elapsed \<Rightarrow>
           if kOccurrenceLifetimeSeconds \<le> sint elapsed
           then (result\<lparr>er_status := ES_missed, er_persist_before_effects := True\<rparr>,
                 (append_terminal
                    (record_terminal_high_watermark st (ao_alarm_id a) (ao_scheduled_utc_seconds a))
                    \<lparr>to_occurrence_id = ao_occurrence_id a, to_reason = TR_prolonged_power_off\<rparr>)
                 \<lparr>ps_active := None\<rparr>)
           else (result\<lparr>er_status := ES_ringing, er_start_alert := True,
                        er_persist_before_effects := True, er_recovered_after_reboot := True\<rparr>,
                 st\<lparr>ps_active := Some (a\<lparr>ao_snooze_deadline_monotonic_seconds := None,
                      ao_recovered_after_reboot := True, ao_last_recovery_boot_id := boot_id\<rparr>)\<rparr>))"

definition journal_can_accept :: "persistent_alarm_state \<Rightarrow> string \<Rightarrow> bool" where
  "journal_can_accept st alarm_id = can_track_terminal st alarm_id"

definition journal_terminal ::
    "persistent_alarm_state \<Rightarrow> string \<Rightarrow> string \<Rightarrow> i64 \<Rightarrow> terminal_reason \<Rightarrow>
     bool \<times> persistent_alarm_state" where
  "journal_terminal st alarm_id occurrence_id scheduled reason =
    (if \<not> can_track_terminal st alarm_id then (False, st)
     else (True,
           append_terminal (record_terminal_high_watermark st alarm_id scheduled)
             \<lparr>to_occurrence_id = occurrence_id, to_reason = reason\<rparr>))"

definition begin_recovered_ring ::
    "persistent_alarm_state \<Rightarrow> string \<Rightarrow> string \<Rightarrow> i64 \<Rightarrow> i64 \<Rightarrow> i64 \<Rightarrow>
     bool \<times> persistent_alarm_state" where
  "begin_recovered_ring st alarm_id occurrence_id scheduled wall_utc_seconds monotonic_seconds =
    (if ps_active st \<noteq> None then (False, st)
     else if \<not> can_track_terminal st alarm_id then (False, st)
     else (True,
           st\<lparr>ps_active := Some
             \<lparr>ao_alarm_id = alarm_id, ao_occurrence_id = occurrence_id,
              ao_scheduled_utc_seconds = scheduled,
              ao_first_ring_utc_seconds = wall_utc_seconds,
              ao_first_ring_monotonic_seconds = monotonic_seconds,
              ao_snooze_deadline_monotonic_seconds = None, ao_snooze_count = 0,
              ao_recovered_after_reboot = False, ao_last_recovery_boot_id = []\<rparr>\<rparr>))"

end
