(* ===== verification/Alarm_Lifecycle.thy ===== *)
theory Alarm_Lifecycle
  imports Alarm_Engine
begin

text \<open>
  The correctness of the alarm engine: exactness of its clock arithmetic, the abstract reading
  of the journal (a map from alarm IDs to the greatest settled instant), the journal invariant
  and its preservation, the step relation of the engine with its reachable journals, the
  lifecycle of \<open>docs/alarm-semantics.md\<close> as an abstract state machine that the engine refines,
  and the duplicate suppression that the journal buys.
\<close>

section \<open>Clock arithmetic\<close>

lemma checked_elapsed_SomeD:
  assumes "checked_elapsed now start = Some e"
  shows "sint e = sint now - sint start" and "0 \<le> sint e"
proof -
  from assms have ge: "\<not> sint now < sint start"
    and guard: "\<not> (sint start < 0 \<and> i64_max + sint start < sint now)" and e: "e = now - start"
    by (auto simp: checked_elapsed_def split: if_splits)
  have "sint now - sint start \<le> i64_max"
  proof (cases "sint start < 0")
    case True
    with guard show ?thesis by linarith
  next
    case False
    then show ?thesis using sint_i64_le [of now] by linarith
  qed
  with ge show "sint e = sint now - sint start"
    unfolding e by (intro sint_diff_exact) simp_all
  with ge show "0 \<le> sint e" by simp
qed

lemma checked_elapsed_eq:
  "checked_elapsed now start =
     (if 0 \<le> sint now - sint start \<and> sint now - sint start \<le> i64_max
      then Some (now - start) else None)"
  using sint_i64_le [of now] by (auto simp: checked_elapsed_def)

lemma checked_add_SomeD:
  assumes "checked_add left right = Some s"
  shows "sint s = sint left + sint right"
  using assms sint_i64_ge [of left] sint_i64_le [of left]
  by (auto simp: checked_add_def intro!: sint_add_exact split: if_splits)

lemma checked_add_ge:
  "checked_add left right = Some s \<Longrightarrow> \<not> sint right < kMinimumSnoozeSeconds \<Longrightarrow>
     \<not> sint left < x \<Longrightarrow> x \<le> sint s"
  by (drule checked_add_SomeD) simp

text \<open>
  C1: the two overflow guards of the engine are exact. \<open>checked_elapsed\<close> fails precisely when
  the elapsed time is negative or does not fit a signed 64-bit integer, \<open>checked_add\<close>
  precisely when the sum does not fit, and a returned value is the mathematical one: no
  signed overflow can happen behind either guard.
\<close>

theorem clock_guards_exact:
  "(checked_elapsed now start = None \<longleftrightarrow>
      sint now - sint start < 0 \<or> i64_max < sint now - sint start) \<and>
   (checked_elapsed now start \<noteq> None \<longleftrightarrow>
      (\<exists>e. checked_elapsed now start = Some e \<and> sint e = sint now - sint start)) \<and>
   (checked_add left right = None \<longleftrightarrow>
      sint left + sint right < i64_min \<or> i64_max < sint left + sint right) \<and>
   (checked_add left right \<noteq> None \<longleftrightarrow>
      (\<exists>s. checked_add left right = Some s \<and> sint s = sint left + sint right))"
proof (intro conjI)
  show "checked_elapsed now start = None \<longleftrightarrow>
     sint now - sint start < 0 \<or> i64_max < sint now - sint start"
    by (auto simp: checked_elapsed_eq)
  show "checked_elapsed now start \<noteq> None \<longleftrightarrow>
     (\<exists>e. checked_elapsed now start = Some e \<and> sint e = sint now - sint start)"
    by (auto dest: checked_elapsed_SomeD)
  show "checked_add left right = None \<longleftrightarrow>
     sint left + sint right < i64_min \<or> i64_max < sint left + sint right"
    using sint_i64_ge [of left] sint_i64_le [of left] by (auto simp: checked_add_def)
  show "checked_add left right \<noteq> None \<longleftrightarrow>
     (\<exists>s. checked_add left right = Some s \<and> sint s = sint left + sint right)"
    by (auto dest: checked_add_SomeD)
qed

section \<open>Occurrence identifiers\<close>

lemma make_occurrence_id_eqD:
  assumes eq: "make_occurrence_id a = make_occurrence_id b"
  shows "ad_id a = ad_id b \<and> ad_schedule_revision a = ad_schedule_revision b \<and>
    ad_scheduled_utc_seconds a = ad_scheduled_utc_seconds b"
proof -
  have colon: "(of_char CHR '':'' :: nat) = 58" by simp
  have i: "CHR '':'' \<notin> set (to_string_i64 n)" for n
    using to_string_i64_chars [of "CHR '':''" n] colon by auto
  have u: "CHR '':'' \<notin> set (to_string_u64 n)" for n
    using to_string_u64_chars [of "CHR '':''" n] colon by auto
  let ?pre = "\<lambda>x. ad_id x @ CHR '':'' # to_string_u64 (ad_schedule_revision x)"
  from eq have "?pre a @ CHR '':'' # to_string_i64 (ad_scheduled_utc_seconds a) =
                ?pre b @ CHR '':'' # to_string_i64 (ad_scheduled_utc_seconds b)"
    by (simp add: make_occurrence_id_def)
  from append_sep_inject [OF i i this]
  have "?pre a = ?pre b" and sched: "ad_scheduled_utc_seconds a = ad_scheduled_utc_seconds b"
    by (auto dest: to_string_i64_inject)
  from append_sep_inject [OF u u this(1)] sched show ?thesis
    by (auto dest: to_string_u64_inject)
qed

text \<open>
  An occurrence identifier determines the alarm ID, the revision and the scheduled
  instant it was made from, even for alarm IDs that contain colons.
\<close>

theorem make_occurrence_id_inject:
  "make_occurrence_id a = make_occurrence_id b \<longleftrightarrow>
     ad_id a = ad_id b \<and> ad_schedule_revision a = ad_schedule_revision b \<and>
     ad_scheduled_utc_seconds a = ad_scheduled_utc_seconds b"
  using make_occurrence_id_eqD [of a b] by (auto simp: make_occurrence_id_def)

lemma length_make_occurrence_id: "length (make_occurrence_id a) \<le> length (ad_id a) + 42"
  using length_to_string_u64 [of "ad_schedule_revision a"]
    length_to_string_i64 [of "ad_scheduled_utc_seconds a"]
  by (simp add: make_occurrence_id_def)

lemmas result_defs = default_result_def invalid_time_result_def

section \<open>The journal read as a map\<close>

text \<open>The abstract view of the watermark table: alarm ID to the greatest settled instant.\<close>

definition watermark_map :: "terminal_high_watermark list \<Rightarrow> string \<rightharpoonup> int" where
  "watermark_map ws = map_of (map (\<lambda>w. (hw_alarm_id w, sint (hw_scheduled_utc_seconds w))) ws)"

definition settled :: "persistent_alarm_state \<Rightarrow> string \<Rightarrow> int \<Rightarrow> bool" where
  "settled st alarm_id t \<longleftrightarrow>
     (case watermark_map (ps_watermarks st) alarm_id of None \<Rightarrow> False | Some m \<Rightarrow> t \<le> m)"

lemma watermark_map_simps [simp]:
  "watermark_map [] a = None"
  "watermark_map (w # ws) a =
     (if hw_alarm_id w = a then Some (sint (hw_scheduled_utc_seconds w)) else watermark_map ws a)"
  by (auto simp: watermark_map_def)

lemma dom_watermark_map: "dom (watermark_map ws) = hw_alarm_id ` set ws"
  by (auto simp: watermark_map_def dom_map_of_conv_image_fst image_image)

lemma find_high_watermark_map:
  "map_option (\<lambda>w. sint (hw_scheduled_utc_seconds w)) (find_high_watermark st a) =
     watermark_map (ps_watermarks st) a"
proof -
  have "map_option (\<lambda>w. sint (hw_scheduled_utc_seconds w)) (find (\<lambda>w. hw_alarm_id w = a) ws) =
      watermark_map ws a" for ws
    by (induction ws) auto
  then show ?thesis by (simp add: find_high_watermark_def)
qed

lemma list_ex_find: "list_ex P xs \<longleftrightarrow> find P xs \<noteq> None"
  by (auto simp: list_ex_iff find_None_iff)

lemma list_ex_terminal:
  "list_ex (\<lambda>t. to_occurrence_id t = i) ts \<longleftrightarrow> i \<in> to_occurrence_id ` set ts"
  by (auto simp: list_ex_iff)

lemma raise_watermark_map:
  "watermark_map (raise_watermark a t ws) =
     (watermark_map ws)(a \<mapsto> (case watermark_map ws a of None \<Rightarrow> sint t | Some m \<Rightarrow> max m (sint t)))"
  by (rule ext) (induction a t ws rule: raise_watermark.induct, auto)

lemma raise_watermark_ids:
  "map hw_alarm_id (raise_watermark a t ws) =
     (if a \<in> hw_alarm_id ` set ws then map hw_alarm_id ws else map hw_alarm_id ws @ [a])"
  by (induction a t ws rule: raise_watermark.induct) auto

lemma raise_watermark_length:
  "length (raise_watermark a t ws) = (if a \<in> hw_alarm_id ` set ws then length ws else Suc (length ws))"
  using arg_cong [OF raise_watermark_ids, of length a t ws] by (simp split: if_splits)

lemma can_track_terminal_iff:
  "can_track_terminal st a \<longleftrightarrow>
     a \<in> hw_alarm_id ` set (ps_watermarks st) \<or> length (ps_watermarks st) < 32"
  by (auto simp: can_track_terminal_def list_ex_iff)

lemma record_simps [simp]:
  "ps_active (record_terminal_high_watermark st a t) = ps_active st"
  "ps_terminal (record_terminal_high_watermark st a t) = ps_terminal st"
  "ps_watermarks (record_terminal_high_watermark st a t) = raise_watermark a t (ps_watermarks st)"
  by (simp_all add: record_terminal_high_watermark_def)

lemma append_terminal_simps [simp]:
  "ps_active (append_terminal st x) = ps_active st"
  "ps_watermarks (append_terminal st x) = ps_watermarks st"
  by (simp_all add: append_terminal_def Let_def)

lemma settled_cong: "ps_watermarks st = ps_watermarks st' \<Longrightarrow> settled st a t = settled st' a t"
  by (simp add: settled_def)

lemma settled_record [simp]:
  "settled (append_terminal (record_terminal_high_watermark st a t) x) b u \<longleftrightarrow>
     settled st b u \<or> (b = a \<and> u \<le> sint t)"
  by (auto simp: settled_def raise_watermark_map split: option.splits)

lemma settled_active [simp]: "settled (st\<lparr>ps_active := x\<rparr>) = settled st"
  by (intro ext) (simp add: settled_def)

lemma settled_find:
  "settled st a t \<longleftrightarrow>
     (case find_high_watermark st a of None \<Rightarrow> False
      | Some w \<Rightarrow> t \<le> sint (hw_scheduled_utc_seconds w))"
  using find_high_watermark_map [of st a]
  by (auto simp: settled_def split: option.splits)

lemma append_terminal_ids:
  "to_occurrence_id ` set (ps_terminal (append_terminal st x)) \<subseteq>
     insert (to_occurrence_id x) (to_occurrence_id ` set (ps_terminal st))"
  by (auto simp: append_terminal_def Let_def dest: in_set_dropD split: if_splits)

lemma append_terminal_length:
  "length (ps_terminal st) \<le> 32 \<Longrightarrow> length (ps_terminal (append_terminal st x)) \<le> 32"
  by (auto simp: append_terminal_def Let_def)

lemma append_terminal_distinct:
  assumes "distinct (map to_occurrence_id (ps_terminal st))"
  shows "distinct (map to_occurrence_id (ps_terminal (append_terminal st x)))"
proof (cases "list_ex (\<lambda>t. to_occurrence_id t = to_occurrence_id x) (ps_terminal st)")
  case True
  with assms show ?thesis by (simp add: append_terminal_def)
next
  case False
  then have "to_occurrence_id x \<notin> to_occurrence_id ` set (ps_terminal st)"
    by (auto simp: list_ex_iff)
  with assms have d: "distinct (map to_occurrence_id (ps_terminal st @ [x]))" by auto
  show ?thesis
    using False d distinct_map_drop [OF d, of "length (ps_terminal st @ [x]) - 32"]
    by (simp add: append_terminal_def Let_def)
qed

text \<open>The freshly journaled record is always retained: compaction drops the oldest ones.\<close>

lemma append_terminal_mem:
  "to_occurrence_id x \<in> to_occurrence_id ` set (ps_terminal (append_terminal st x))"
proof (cases "list_ex (\<lambda>t. to_occurrence_id t = to_occurrence_id x) (ps_terminal st)")
  case True
  then obtain t where "t \<in> set (ps_terminal st)" and "to_occurrence_id t = to_occurrence_id x"
    by (auto simp: list_ex_iff)
  with True show ?thesis by (auto simp: append_terminal_def image_iff intro: bexI [of _ t])
next
  case False
  then show ?thesis by (auto simp: append_terminal_def Let_def)
qed

section \<open>The journal invariant\<close>

definition active_ok :: "persistent_alarm_state \<Rightarrow> active_occurrence \<Rightarrow> bool" where
  "active_ok st a \<longleftrightarrow>
     ao_occurrence_id a \<notin> to_occurrence_id ` set (ps_terminal st) \<and>
     can_track_terminal st (ao_alarm_id a) \<and>
     ao_snooze_count a \<le> kMaximumSnoozes \<and>
     (case ao_snooze_deadline_monotonic_seconds a of None \<Rightarrow> True
      | Some d \<Rightarrow> sint (ao_first_ring_monotonic_seconds a) \<le> sint d)"

definition journal_ok :: "persistent_alarm_state \<Rightarrow> bool" where
  "journal_ok st \<longleftrightarrow>
     length (ps_terminal st) \<le> kRecentTerminalRetention \<and>
     distinct (map to_occurrence_id (ps_terminal st)) \<and>
     length (ps_watermarks st) \<le> kTerminalHighWatermarkCapacity \<and>
     distinct (map hw_alarm_id (ps_watermarks st)) \<and>
     (case ps_active st of None \<Rightarrow> True | Some a \<Rightarrow> active_ok st a)"

definition empty_journal :: persistent_alarm_state where
  "empty_journal = \<lparr>ps_active = None, ps_terminal = [], ps_watermarks = []\<rparr>"

lemma journal_ok_empty [invariant_intros]: "journal_ok empty_journal"
  by (simp add: journal_ok_def empty_journal_def)

text \<open>Journaling one terminal outcome, the block that every ending operation shares.\<close>

abbreviation settle_terminal ::
    "persistent_alarm_state \<Rightarrow> string \<Rightarrow> string \<Rightarrow> i64 \<Rightarrow> terminal_reason \<Rightarrow> persistent_alarm_state" where
  "settle_terminal st alarm_id occurrence_id scheduled reason \<equiv>
     append_terminal (record_terminal_high_watermark st alarm_id scheduled)
       \<lparr>to_occurrence_id = occurrence_id, to_reason = reason\<rparr>"

lemma journal_ok_settle [invariant_intros]:
  assumes "journal_ok st" and "can_track_terminal st a"
  shows "journal_ok ((settle_terminal st a occ t r)\<lparr>ps_active := None\<rparr>)"
  using assms
  by (auto simp: journal_ok_def raise_watermark_length raise_watermark_ids can_track_terminal_iff
      intro!: append_terminal_length append_terminal_distinct)

lemma journal_ok_settle_inactive [invariant_intros]:
  assumes "journal_ok st" and "can_track_terminal st a" and "ps_active st = None"
  shows "journal_ok (settle_terminal st a occ t r)"
proof -
  have "(settle_terminal st a occ t r)\<lparr>ps_active := None\<rparr> = settle_terminal st a occ t r"
    using assms(3) by (simp add: persistent_alarm_state.equality)
  with journal_ok_settle [OF assms(1,2)] show ?thesis by metis
qed

lemma journal_ok_active [invariant_intros]:
  assumes "journal_ok st" and "active_ok st a"
  shows "journal_ok (st\<lparr>ps_active := Some a\<rparr>)"
  using assms by (simp add: journal_ok_def active_ok_def can_track_terminal_iff)

lemma journal_ok_activeD:
  "journal_ok st \<Longrightarrow> ps_active st = Some a \<Longrightarrow> active_ok st a"
  by (simp add: journal_ok_def)

lemma evaluate_due_ok:
  assumes "journal_ok st"
  shows "journal_ok (snd (evaluate_due alarm st wall mt valid))"
  using assms
  by (auto simp: evaluate_due_def Let_def active_ok_def list_ex_terminal
      intro!: invariant_intros split: option.splits)

lemma snooze_count_step:
  fixes n :: u8
  assumes "\<not> 6 \<le> n"
  shows "n + 1 \<le> 6"
  using assms by (simp add: inc_le not_le)

lemma request_snooze_ok:
  assumes "journal_ok st"
  shows "journal_ok (snd (request_snooze st occ mt dur))"
proof (cases "ps_active st")
  case None
  with assms show ?thesis by (simp add: request_snooze_def Let_def)
next
  case (Some a)
  with assms have "active_ok st a" by (rule journal_ok_activeD)
  with assms Some show ?thesis
    by (auto simp: request_snooze_def Let_def active_ok_def
        intro!: invariant_intros snooze_count_step intro: checked_add_ge split: option.splits)
qed

lemma advance_active_ok:
  assumes "journal_ok st"
  shows "journal_ok (snd (advance_active st mt))"
proof (cases "ps_active st")
  case None
  with assms show ?thesis by (simp add: advance_active_def Let_def)
next
  case (Some a)
  with assms have "active_ok st a" by (rule journal_ok_activeD)
  with assms Some show ?thesis
    by (auto simp: advance_active_def Let_def active_ok_def
        intro!: invariant_intros split: option.splits)
qed

lemma dismiss_active_ok:
  assumes "journal_ok st"
  shows "journal_ok (snd (dismiss_active st occ disabled))"
proof (cases "ps_active st")
  case None
  with assms show ?thesis by (simp add: dismiss_active_def Let_def)
next
  case (Some a)
  with assms have "active_ok st a" by (rule journal_ok_activeD)
  with assms Some show ?thesis
    by (auto simp: dismiss_active_def Let_def active_ok_def
        intro!: invariant_intros split: option.splits)
qed

lemma recover_after_reboot_ok:
  assumes "journal_ok st"
  shows "journal_ok (snd (recover_after_reboot st wall boot))"
proof (cases "ps_active st")
  case None
  with assms show ?thesis by (simp add: recover_after_reboot_def Let_def)
next
  case (Some a)
  with assms have "active_ok st a" by (rule journal_ok_activeD)
  with assms Some show ?thesis
    by (auto simp: recover_after_reboot_def Let_def active_ok_def
        intro!: invariant_intros split: option.splits)
qed

lemma journal_terminal_ok:
  assumes "journal_ok st" and "ps_active st = None"
  shows "journal_ok (snd (journal_terminal st a occ t r))"
  using assms by (auto simp: journal_terminal_def intro!: invariant_intros)

lemma begin_recovered_ring_ok:
  assumes "journal_ok st" and "occ \<notin> to_occurrence_id ` set (ps_terminal st)"
  shows "journal_ok (snd (begin_recovered_ring st a occ t wall mt))"
  using assms by (auto simp: begin_recovered_ring_def active_ok_def intro!: invariant_intros)

lemmas engine_ops_ok =
  evaluate_due_ok request_snooze_ok advance_active_ok dismiss_active_ok recover_after_reboot_ok
  journal_terminal_ok begin_recovered_ring_ok

section \<open>Steps of the engine and reachable journals\<close>

datatype engine_op =
    Op_due alarm_definition i64 i64 bool
  | Op_snooze string i64 i64
  | Op_advance i64
  | Op_dismiss string bool
  | Op_recover i64 string

fun engine_apply ::
    "engine_op \<Rightarrow> persistent_alarm_state \<Rightarrow> evaluation_result \<times> persistent_alarm_state" where
  "engine_apply (Op_due alarm wall mt valid) st = evaluate_due alarm st wall mt valid"
| "engine_apply (Op_snooze occ mt dur) st = request_snooze st occ mt dur"
| "engine_apply (Op_advance mt) st = advance_active st mt"
| "engine_apply (Op_dismiss occ disabled) st = dismiss_active st occ disabled"
| "engine_apply (Op_recover wall boot) st = recover_after_reboot st wall boot"

text \<open>
  A journal changes by one of the five evaluating operations, by the two batch operations that
  the invalid-interval reconciliation uses while no occurrence is active, or by the coordinator
  moving the monotonic anchor of an occurrence that it has just resumed.
\<close>

inductive engine_step :: "persistent_alarm_state \<Rightarrow> persistent_alarm_state \<Rightarrow> bool" where
  evaluate: "engine_apply op st = (r, st') \<Longrightarrow> engine_step st st'"
| catch_up: "ps_active st = None \<Longrightarrow> journal_terminal st a occ t reason = (ok, st') \<Longrightarrow>
     engine_step st st'"
| late_ring: "occ \<notin> to_occurrence_id ` set (ps_terminal st) \<Longrightarrow>
     begin_recovered_ring st a occ t wall mt = (ok, st') \<Longrightarrow> engine_step st st'"
| reanchor: "ps_active st = Some a \<Longrightarrow> ao_snooze_deadline_monotonic_seconds a = None \<Longrightarrow>
     engine_step st (st\<lparr>ps_active := Some (a\<lparr>ao_first_ring_monotonic_seconds := mt\<rparr>)\<rparr>)"

inductive_cases engine_stepE: "engine_step st st'"

inductive journal_reachable :: "persistent_alarm_state \<Rightarrow> bool" where
  fresh: "journal_reachable empty_journal"
| step: "journal_reachable st \<Longrightarrow> engine_step st st' \<Longrightarrow> journal_reachable st'"

lemma engine_apply_ok: "journal_ok st \<Longrightarrow> journal_ok (snd (engine_apply op st))"
  by (cases op) (auto intro: engine_ops_ok)

lemma reanchor_ok:
  assumes "journal_ok st" and "ps_active st = Some a"
    and "ao_snooze_deadline_monotonic_seconds a = None"
  shows "journal_ok (st\<lparr>ps_active := Some (a\<lparr>ao_first_ring_monotonic_seconds := mt\<rparr>)\<rparr>)"
  using assms journal_ok_activeD [OF assms(1,2)]
  by (auto simp: active_ok_def intro!: invariant_intros)

lemma engine_step_ok: "engine_step st st' \<Longrightarrow> journal_ok st \<Longrightarrow> journal_ok st'"
proof (induction rule: engine_step.induct)
  case (evaluate op st r st')
  then show ?case using engine_apply_ok [of st op] by simp
next
  case (catch_up st a occ t reason ok st')
  then show ?case using journal_terminal_ok [of st a occ t reason] by simp
next
  case (late_ring occ st a t wall mt ok st')
  then show ?case using begin_recovered_ring_ok [of st occ a t wall mt] by simp
next
  case (reanchor st a mt)
  then show ?case by (simp add: reanchor_ok)
qed

text \<open>
  C1: every journal the engine can produce keeps the bounds the storage relies on (at most 32
  terminal records and 32 watermarks, all with distinct keys), never holds an occurrence as
  active and terminal at once, never counts more than six snoozes, and can always journal the
  end of the occurrence that is active.
\<close>

theorem reachable_journal_ok:
  assumes "journal_reachable st"
  shows "journal_ok st"
  using assms
proof (induction rule: journal_reachable.induct)
  case fresh
  show ?case by (rule journal_ok_empty)
next
  case (step st st')
  then show ?case by (blast intro: engine_step_ok)
qed

theorem reachable_journal_ok_witness:
  "journal_ok (snd (evaluate_due
     \<lparr>ad_id = ''wake'', ad_schedule_revision = 1, ad_enabled = True,
      ad_scheduled_utc_seconds = 1000\<rparr> empty_journal 1005 7 True))"
  by (rule reachable_journal_ok, rule journal_reachable.step [OF journal_reachable.fresh],
      rule engine_step.evaluate [where op = "Op_due _ _ _ _"], subst engine_apply.simps, rule surjective_pairing)

section \<open>Duplicate suppression\<close>

text \<open>An occurrence is held from its admission on: active first, settled in the table after.\<close>

definition held :: "persistent_alarm_state \<Rightarrow> string \<Rightarrow> int \<Rightarrow> bool" where
  "held st alarm_id t \<longleftrightarrow>
     settled st alarm_id t \<or>
     (\<exists>a. ps_active st = Some a \<and> ao_alarm_id a = alarm_id \<and> t \<le> sint (ao_scheduled_utc_seconds a))"

lemma engine_apply_held:
  "engine_apply op st = (r, st') \<Longrightarrow> held st a t \<Longrightarrow> held st' a t"
  by (cases op)
    (auto simp: held_def evaluate_due_def request_snooze_def advance_active_def dismiss_active_def
      recover_after_reboot_def Let_def split: if_splits option.splits)

lemma engine_step_held: "engine_step st st' \<Longrightarrow> held st a t \<Longrightarrow> held st' a t"
  by (elim engine_stepE)
    (auto simp: held_def journal_terminal_def begin_recovered_ring_def
      dest: engine_apply_held [unfolded held_def] split: if_splits)

lemma engine_steps_held: "engine_step\<^sup>*\<^sup>* st st' \<Longrightarrow> held st a t \<Longrightarrow> held st' a t"
  by (induction rule: rtranclp_induct) (auto intro: engine_step_held)

lemma held_due_silent:
  assumes "held st (ad_id alarm) (sint (ad_scheduled_utc_seconds alarm))"
  shows "\<not> er_start_alert (fst (evaluate_due alarm st wall mt valid)) \<and>
         snd (evaluate_due alarm st wall mt valid) = st"
  using assms
  by (auto simp: held_def settled_find evaluate_due_def Let_def default_result_def
      split: option.splits if_splits)

text \<open>
  C2: an occurrence is admitted at most once. Once \<open>evaluate_due\<close> has rung an alarm, no later
  evaluation rings the same alarm for that instant or an earlier one, under any schedule
  revision, whatever the engine did in between (snoozes, dismissal, time-out, reboots,
  reconciliation batches) and however the wall clock moved; the suppressed evaluation leaves
  the journal untouched.
\<close>

theorem rings_at_most_once:
  assumes ring: "er_start_alert (fst (evaluate_due alarm st wall mt valid))"
    and run: "engine_step\<^sup>*\<^sup>* (snd (evaluate_due alarm st wall mt valid)) st'"
    and same: "ad_id later = ad_id alarm"
    and not_newer: "sint (ad_scheduled_utc_seconds later) \<le> sint (ad_scheduled_utc_seconds alarm)"
  shows "\<not> er_start_alert (fst (evaluate_due later st' wall' mt' valid')) \<and>
         snd (evaluate_due later st' wall' mt' valid') = st'"
proof -
  have "held (snd (evaluate_due alarm st wall mt valid)) (ad_id later)
          (sint (ad_scheduled_utc_seconds later))"
    using ring same not_newer
    by (auto simp: held_def evaluate_due_def Let_def result_defs
        split: if_splits option.splits)
  from engine_steps_held [OF run this] show ?thesis by (rule held_due_silent)
qed

abbreviation sample_alarm :: "u64 \<Rightarrow> i64 \<Rightarrow> alarm_definition" where
  "sample_alarm revision scheduled \<equiv>
     \<lparr>ad_id = ''wake'', ad_schedule_revision = revision, ad_enabled = True,
      ad_scheduled_utc_seconds = scheduled\<rparr>"

abbreviation sample_rung :: persistent_alarm_state where
  "sample_rung \<equiv> snd (evaluate_due (sample_alarm 1 1000) empty_journal 1005 7 True)"

lemma sample_rung_eq:
  "evaluate_due (sample_alarm 1 1000) empty_journal 1005 7 True =
     (default_result\<lparr>er_status := ES_ringing, er_occurrence_id := ''wake:1:1000'',
        er_start_alert := True, er_persist_before_effects := True, er_late := True,
        er_lateness_seconds := 5\<rparr>,
      empty_journal\<lparr>ps_active := Some
        \<lparr>ao_alarm_id = ''wake'', ao_occurrence_id = ''wake:1:1000'',
         ao_scheduled_utc_seconds = 1000, ao_first_ring_utc_seconds = 1005,
         ao_first_ring_monotonic_seconds = 7, ao_snooze_deadline_monotonic_seconds = None,
         ao_snooze_count = 0, ao_recovered_after_reboot = False,
         ao_last_recovery_boot_id = []\<rparr>\<rparr>)"
  by code_simp

theorem rings_at_most_once_witness:
  "\<not> er_start_alert (fst (evaluate_due (sample_alarm 2 900)
        (snd (advance_active sample_rung 5000)) 1001 5001 True)) \<and>
   snd (evaluate_due (sample_alarm 2 900) (snd (advance_active sample_rung 5000)) 1001 5001 True) =
     snd (advance_active sample_rung 5000)"
proof (rule rings_at_most_once)
  show "er_start_alert (fst (evaluate_due (sample_alarm 1 1000) empty_journal 1005 7 True))"
    by (simp add: sample_rung_eq default_result_def)
  show "engine_step\<^sup>*\<^sup>* sample_rung (snd (advance_active sample_rung 5000))"
    by (rule r_into_rtranclp, rule engine_step.evaluate [where op = "Op_advance _"],
        subst engine_apply.simps, rule surjective_pairing)
qed simp_all

section \<open>Results and mutations\<close>

lemma update_active_eq [simp]: "st\<lparr>ps_active := x\<rparr> = st \<longleftrightarrow> ps_active st = x"
  by (cases st) auto

lemma active_update_eq [simp]:
  "a = a\<lparr>ao_snooze_deadline_monotonic_seconds := d\<rparr> \<longleftrightarrow>
     ao_snooze_deadline_monotonic_seconds a = d"
  "a = a\<lparr>ao_snooze_count := n, ao_snooze_deadline_monotonic_seconds := d\<rparr> \<longleftrightarrow>
     ao_snooze_count a = n \<and> ao_snooze_deadline_monotonic_seconds a = d"
  "a = a\<lparr>ao_snooze_deadline_monotonic_seconds := d, ao_recovered_after_reboot := r,
        ao_last_recovery_boot_id := i\<rparr> \<longleftrightarrow>
     ao_snooze_deadline_monotonic_seconds a = d \<and> ao_recovered_after_reboot a = r \<and>
     ao_last_recovery_boot_id a = i"
  by (cases a; auto)+

lemma settle_active_neq [simp]:
  "ps_active st = Some a \<Longrightarrow> (settle_terminal st i occ t r)\<lparr>ps_active := None\<rparr> \<noteq> st"
  by (auto dest: arg_cong [where f = ps_active])

lemma settle_neq:
  "\<not> settled st i (sint t) \<Longrightarrow> settle_terminal st i occ t r \<noteq> st"
  by (metis order_refl settled_record)

lemma evaluate_due_flag:
  "er_persist_before_effects (fst (evaluate_due alarm st wall mt valid)) \<longleftrightarrow>
     snd (evaluate_due alarm st wall mt valid) \<noteq> st"
  by (auto simp: evaluate_due_def Let_def result_defs settled_find
      dest!: settle_neq [THEN notE, rotated] split: option.splits)

text \<open>
  The flag \<open>persist_before_effects\<close> is raised exactly when the operation changed the
  journal, and an alert edge never comes without it: a caller that persists whenever the flag
  is set never loses a change and never exposes an edge of an unsaved journal.
\<close>

theorem persist_flag_exact:
  assumes "engine_apply op st = (r, st')"
  shows "(er_persist_before_effects r \<longleftrightarrow> st' \<noteq> st) \<and>
         (er_start_alert r \<or> er_stop_alert r \<longrightarrow> er_persist_before_effects r) \<and>
         \<not> (er_start_alert r \<and> er_stop_alert r)"
proof (cases op)
  case (Op_due alarm wall mt valid)
  with assms evaluate_due_flag [of alarm st wall mt valid] show ?thesis
    by (auto simp: evaluate_due_def Let_def result_defs split: if_splits option.splits)
next
  case (Op_snooze occ mt dur)
  with assms show ?thesis
    by (auto simp: request_snooze_def Let_def result_defs split: if_splits option.splits)
next
  case (Op_advance mt)
  with assms show ?thesis
    by (auto simp: advance_active_def Let_def result_defs split: if_splits option.splits)
next
  case (Op_dismiss occ disabled)
  with assms show ?thesis
    by (auto simp: dismiss_active_def Let_def result_defs split: if_splits option.splits)
next
  case (Op_recover wall boot)
  with assms show ?thesis
    by (auto simp: recover_after_reboot_def Let_def result_defs split: if_splits option.splits)
qed

theorem persist_flag_exact_witness:
  "engine_apply (Op_due (sample_alarm 1 1000) 1005 7 True) empty_journal =
     evaluate_due (sample_alarm 1 1000) empty_journal 1005 7 True \<and>
   (er_persist_before_effects (fst (evaluate_due (sample_alarm 1 1000) empty_journal 1005 7 True))
      \<longleftrightarrow> sample_rung \<noteq> empty_journal)"
  using persist_flag_exact [of "Op_due (sample_alarm 1 1000) 1005 7 True" empty_journal]
  by (metis engine_apply.simps(1) prod.collapse)

section \<open>Due, snooze, lifetime and reboot policies\<close>

lemma append_terminal_new:
  assumes "to_occurrence_id x \<notin> to_occurrence_id ` set (ps_terminal st)"
  shows "ps_terminal (append_terminal st x) \<noteq> [] \<and> last (ps_terminal (append_terminal st x)) = x"
  using assms by (simp add: append_terminal_def list_ex_terminal Let_def last_drop)

lemma settle_last:
  assumes "occ \<notin> to_occurrence_id ` set (ps_terminal st)"
  shows "last (ps_terminal (settle_terminal st a occ t r)) = \<lparr>to_occurrence_id = occ, to_reason = r\<rparr>"
  using append_terminal_new
    [of "\<lparr>to_occurrence_id = occ, to_reason = r\<rparr>" "record_terminal_high_watermark st a t"] assms
  by simp

text \<open>
  C3: what a valid clock reading does to a pending occurrence, over the whole range of the
  clock. Before the instant the alarm stays armed; up to ten minutes late it rings, marked late
  unless it is on time; later than that it is journaled as missed by a forward jump without any
  alert, and suppressed from then on; a lateness that 64 bits cannot hold is reported as
  invalid time.
\<close>

theorem due_classification:
  assumes enabled: "ad_enabled alarm" and idle: "ps_active st = None"
    and new: "make_occurrence_id alarm \<notin> to_occurrence_id ` set (ps_terminal st)"
    and unsettled: "\<not> settled st (ad_id alarm) (sint (ad_scheduled_utc_seconds alarm))"
    and room: "can_track_terminal st (ad_id alarm)"
  shows "let d = sint wall - sint (ad_scheduled_utc_seconds alarm);
             (r, st') = evaluate_due alarm st wall mt True
         in er_status r =
              (if d < 0 then ES_armed else if d \<le> 600 then ES_ringing
               else if d \<le> i64_max then ES_missed else ES_invalid_time) \<and>
            er_start_alert r = (0 \<le> d \<and> d \<le> 600) \<and>
            er_late r = (0 < d \<and> d \<le> 600) \<and>
            \<not> er_stop_alert r \<and>
            (ps_active st' \<noteq> None) = (0 \<le> d \<and> d \<le> 600) \<and>
            settled st' (ad_id alarm) (sint (ad_scheduled_utc_seconds alarm)) =
              (600 < d \<and> d \<le> i64_max) \<and>
            (ps_terminal st' \<noteq> ps_terminal st) = (600 < d \<and> d \<le> i64_max)"
proof -
  have unmarked: "(case find_high_watermark st (ad_id alarm) of None \<Rightarrow> False
      | Some w \<Rightarrow> sint (ad_scheduled_utc_seconds alarm) \<le> sint (hw_scheduled_utc_seconds w)) = False"
    using unsettled by (simp add: settled_find)
  let ?st = "record_terminal_high_watermark st (ad_id alarm) (ad_scheduled_utc_seconds alarm)"
  let ?x = "\<lparr>to_occurrence_id = make_occurrence_id alarm, to_reason = TR_forward_jump\<rparr>"
  have "last (ps_terminal (append_terminal ?st ?x)) = ?x \<and> ps_terminal (append_terminal ?st ?x) \<noteq> []"
    using append_terminal_new [of ?x ?st] new by simp
  then have changed: "ps_terminal (append_terminal ?st ?x) \<noteq> ps_terminal st"
    using new by (metis image_eqI last_in_set terminal_occurrence.select_convs(1))
  show ?thesis
    using enabled idle new room unmarked unsettled changed
    by (auto simp: evaluate_due_def list_ex_terminal result_defs checked_elapsed_eq Let_def
        sint_diff_exact sint_i64_le)
qed

theorem due_classification_witness:
  "er_status (fst (evaluate_due (sample_alarm 1 1000) empty_journal 1599 0 True)) = ES_ringing \<and>
   er_status (fst (evaluate_due (sample_alarm 1 1000) empty_journal 1600 0 True)) = ES_ringing \<and>
   er_status (fst (evaluate_due (sample_alarm 1 1000) empty_journal 1601 0 True)) = ES_missed"
proof -
  have pre: "ad_enabled (sample_alarm 1 1000)" "ps_active empty_journal = None"
    "make_occurrence_id (sample_alarm 1 1000) \<notin> to_occurrence_id ` set (ps_terminal empty_journal)"
    "\<not> settled empty_journal (ad_id (sample_alarm 1 1000)) (sint (ad_scheduled_utc_seconds (sample_alarm 1 1000)))"
    "can_track_terminal empty_journal (ad_id (sample_alarm 1 1000))"
    by (simp_all add: empty_journal_def settled_def can_track_terminal_def)
  note due_classification [OF pre, where mt = 0]
  from this [of 1599] this [of 1600] this [of 1601] show ?thesis
    by (auto simp: Let_def split: prod.splits)
qed

text \<open>When a snooze is due to be granted, and what granting it leaves of the journal.\<close>

definition may_snooze :: "persistent_alarm_state \<Rightarrow> string \<Rightarrow> i64 \<Rightarrow> i64 \<Rightarrow> active_occurrence \<Rightarrow> bool" where
  "may_snooze st occ mt dur a \<longleftrightarrow>
     ps_active st = Some a \<and> ao_occurrence_id a = occ \<and>
     ao_snooze_deadline_monotonic_seconds a = None \<and>
     60 \<le> sint dur \<and> sint dur \<le> 1800 \<and> ao_snooze_count a < 6 \<and>
     sint (ao_first_ring_monotonic_seconds a) \<le> sint mt \<and> sint mt + sint dur \<le> i64_max"

lemma request_snooze_granted:
  assumes "may_snooze st occ mt dur a"
  shows "request_snooze st occ mt dur =
    (default_result\<lparr>er_occurrence_id := occ, er_status := ES_snoozed, er_stop_alert := True,
       er_persist_before_effects := True\<rparr>,
     st\<lparr>ps_active := Some (a\<lparr>ao_snooze_count := ao_snooze_count a + 1,
       ao_snooze_deadline_monotonic_seconds := Some (mt + dur)\<rparr>)\<rparr>)"
    and "sint (mt + dur) = sint mt + sint dur"
proof -
  have "checked_add mt dur = Some (mt + dur)"
    using assms sint_i64_ge [of mt] by (auto simp: may_snooze_def checked_add_def)
  then show "request_snooze st occ mt dur =
    (default_result\<lparr>er_occurrence_id := occ, er_status := ES_snoozed, er_stop_alert := True,
       er_persist_before_effects := True\<rparr>,
     st\<lparr>ps_active := Some (a\<lparr>ao_snooze_count := ao_snooze_count a + 1,
       ao_snooze_deadline_monotonic_seconds := Some (mt + dur)\<rparr>)\<rparr>)"
    and "sint (mt + dur) = sint mt + sint dur"
    using assms by (auto simp: may_snooze_def request_snooze_def Let_def not_le not_less dest: checked_add_SomeD)
qed

lemma request_snooze_refused:
  assumes "\<And>a. \<not> may_snooze st occ mt dur a"
  shows "er_status (fst (request_snooze st occ mt dur)) \<noteq> ES_snoozed \<and>
    snd (request_snooze st occ mt dur) = st \<and>
    \<not> er_start_alert (fst (request_snooze st occ mt dur)) \<and>
    \<not> er_stop_alert (fst (request_snooze st occ mt dur)) \<and>
    \<not> er_persist_before_effects (fst (request_snooze st occ mt dur))"
proof (cases "ps_active st")
  case None
  then show ?thesis by (simp add: request_snooze_def Let_def result_defs)
next
  case (Some a)
  have "checked_add mt dur = None" if "60 \<le> sint dur" "\<not> sint mt + sint dur \<le> i64_max"
    using that by (auto simp: checked_add_def)
  with Some assms [of a] show ?thesis
    by (auto simp: may_snooze_def request_snooze_def Let_def result_defs not_le not_less split: option.splits)
qed

text \<open>
  C4: a snooze request is granted exactly when it names the ringing occurrence, that occurrence
  is not snoozed already, the duration is one to thirty minutes, fewer than six snoozes were
  granted, and the monotonic reading is neither before the ring nor too large for the deadline
  to be representable. A granted snooze silences the alert, counts once, sets the exact deadline
  and changes nothing else; a refused one changes nothing and has no effect, so the alarm keeps
  ringing.
\<close>

theorem snooze_granted_iff:
  "case request_snooze st occ mt dur of (r, st') \<Rightarrow>
     (er_status r = ES_snoozed \<longleftrightarrow>
        (\<exists>a. ps_active st = Some a \<and> ao_occurrence_id a = occ \<and>
             ao_snooze_deadline_monotonic_seconds a = None \<and>
             60 \<le> sint dur \<and> sint dur \<le> 1800 \<and> ao_snooze_count a < 6 \<and>
             sint (ao_first_ring_monotonic_seconds a) \<le> sint mt \<and> sint mt + sint dur \<le> i64_max)) \<and>
     (if er_status r = ES_snoozed
      then er_stop_alert r \<and> \<not> er_start_alert r \<and> er_persist_before_effects r \<and>
        (\<exists>a d. ps_active st = Some a \<and> sint d = sint mt + sint dur \<and>
           st' = st\<lparr>ps_active := Some (a\<lparr>ao_snooze_count := ao_snooze_count a + 1,
                                         ao_snooze_deadline_monotonic_seconds := Some d\<rparr>)\<rparr>)
      else \<not> er_stop_alert r \<and> \<not> er_start_alert r \<and> \<not> er_persist_before_effects r \<and> st' = st)"
proof (cases "\<exists>a. may_snooze st occ mt dur a")
  case True
  then obtain a where a: "may_snooze st occ mt dur a" by blast
  then have "ps_active st = Some a" by (simp add: may_snooze_def)
  with a request_snooze_granted [OF a] show ?thesis
    by (auto simp: may_snooze_def result_defs)
next
  case False
  with request_snooze_refused [of st occ mt dur] show ?thesis
    unfolding may_snooze_def [symmetric] by (simp add: case_prod_unfold)
qed

text \<open>
  C5: the sixty-minute lifetime. For an active occurrence and a representable monotonic
  reading, advancing ends the occurrence exactly when an hour has passed since it first rang,
  even if a snooze is still running; the ended occurrence is journaled as timed out and its
  instant is settled. Before the hour is over an unsnoozed or expired occurrence rings and an
  unexpired snooze stays silent.
\<close>

theorem advance_lifetime:
  assumes active: "ps_active st = Some a" and ok: "journal_ok st"
    and "0 \<le> sint mt - sint (ao_first_ring_monotonic_seconds a)"
    and "sint mt - sint (ao_first_ring_monotonic_seconds a) \<le> i64_max"
  shows "let d = sint mt - sint (ao_first_ring_monotonic_seconds a);
             (r, st') = advance_active st mt
         in (er_status r = ES_timed_out) = (3600 \<le> d) \<and>
            (ps_active st' = None) = (3600 \<le> d) \<and>
            (3600 \<le> d \<longrightarrow> er_stop_alert r \<and>
               settled st' (ao_alarm_id a) (sint (ao_scheduled_utc_seconds a)) \<and>
               last (ps_terminal st') =
                 \<lparr>to_occurrence_id = ao_occurrence_id a, to_reason = TR_timed_out\<rparr>) \<and>
            (d < 3600 \<longrightarrow>
               (case ao_snooze_deadline_monotonic_seconds a of
                  None \<Rightarrow> er_status r = ES_ringing \<and> \<not> er_start_alert r
                | Some e \<Rightarrow> if sint mt < sint e then er_status r = ES_snoozed \<and> \<not> er_start_alert r
                            else er_status r = ES_ringing \<and> er_start_alert r))"
proof -
  have "ao_occurrence_id a \<notin> to_occurrence_id ` set (ps_terminal st)"
    using journal_ok_activeD [OF ok active] by (simp add: active_ok_def)
  with assms show ?thesis
    by (auto simp: settle_last advance_active_def result_defs checked_elapsed_eq Let_def sint_diff_exact
        split: option.splits)
qed

abbreviation sample_active :: active_occurrence where
  "sample_active \<equiv>
     \<lparr>ao_alarm_id = ''wake'', ao_occurrence_id = ''wake:1:1000'',
      ao_scheduled_utc_seconds = 1000, ao_first_ring_utc_seconds = 1005,
      ao_first_ring_monotonic_seconds = 7, ao_snooze_deadline_monotonic_seconds = None,
      ao_snooze_count = 0, ao_recovered_after_reboot = False,
      ao_last_recovery_boot_id = []\<rparr>"

lemma sample_rung_active: "ps_active sample_rung = Some sample_active" "journal_ok sample_rung"
  by (simp_all only: sample_rung_eq snd_conv)
    (simp_all add: empty_journal_def journal_ok_def active_ok_def can_track_terminal_iff)

theorem advance_lifetime_witness:
  "er_status (fst (advance_active sample_rung 3606)) = ES_ringing \<and>
   er_status (fst (advance_active sample_rung 3607)) = ES_timed_out \<and>
   settled (snd (advance_active sample_rung 3607)) ''wake'' 1000"
  using advance_lifetime [OF sample_rung_active, of 3606]
    advance_lifetime [OF sample_rung_active, of 3607]
  by (auto simp: Let_def split: prod.splits)

text \<open>
  C6: recovery after a reboot. For an active occurrence, a boot that has not recovered it yet
  and a wall reading not before its first ring: within the hour it resumes ringing, its snooze
  is cancelled and it is marked as recovered, and asking again in the same boot reports a
  duplicate without any effect; after the hour it is journaled as missed by prolonged power-off,
  without any alert edge, and its instant is settled.
\<close>

theorem reboot_recovery:
  assumes active: "ps_active st = Some a" and ok: "journal_ok st"
    and boot: "ao_last_recovery_boot_id a \<noteq> boot"
    and "0 \<le> sint wall - sint (ao_first_ring_utc_seconds a)"
    and "sint wall - sint (ao_first_ring_utc_seconds a) \<le> i64_max"
  shows "let d = sint wall - sint (ao_first_ring_utc_seconds a);
             (r, st') = recover_after_reboot st wall boot
         in \<not> er_stop_alert r \<and>
            (if d < 3600
             then er_status r = ES_ringing \<and> er_start_alert r \<and> er_recovered_after_reboot r \<and>
                  (\<exists>a'. ps_active st' = Some a' \<and> ao_occurrence_id a' = ao_occurrence_id a \<and>
                        ao_snooze_count a' = ao_snooze_count a \<and>
                        ao_snooze_deadline_monotonic_seconds a' = None \<and>
                        ao_recovered_after_reboot a') \<and>
                  (let (r2, st2) = recover_after_reboot st' again boot
                   in er_status r2 = ES_duplicate \<and> \<not> er_start_alert r2 \<and> st2 = st')
             else er_status r = ES_missed \<and> \<not> er_start_alert r \<and> ps_active st' = None \<and>
                  settled st' (ao_alarm_id a) (sint (ao_scheduled_utc_seconds a)) \<and>
                  last (ps_terminal st') =
                    \<lparr>to_occurrence_id = ao_occurrence_id a, to_reason = TR_prolonged_power_off\<rparr>)"
proof -
  have "ao_occurrence_id a \<notin> to_occurrence_id ` set (ps_terminal st)"
    using journal_ok_activeD [OF ok active] by (simp add: active_ok_def)
  with assms show ?thesis
    by (auto simp: settle_last recover_after_reboot_def result_defs checked_elapsed_eq Let_def sint_diff_exact)
qed

theorem reboot_recovery_witness:
  "er_start_alert (fst (recover_after_reboot sample_rung 4604 ''boot-2'')) \<and>
   er_status (fst (recover_after_reboot sample_rung 4605 ''boot-2'')) = ES_missed"
proof -
  have "ao_last_recovery_boot_id sample_active \<noteq> ''boot-2''" by simp
  note reboot_recovery [OF sample_rung_active this]
  from this [where wall = 4604 and again = 0] this [where wall = 4605 and again = 0]
  show ?thesis by (auto simp: Let_def split: prod.splits)
qed

section \<open>Refinement of the documented lifecycle\<close>

text \<open>
  The state diagram of \<open>docs/alarm-semantics.md\<close>, for the one slot the device has: idle (the
  alarms are armed), ringing or snoozed for an occurrence. Labels say what happened, with the
  durable terminal reason where an occurrence ends.
\<close>

datatype lifecycle = L_idle | L_ringing string | L_snoozed string

datatype lifecycle_label =
    LL_none
  | LL_admit string
  | LL_snooze string
  | LL_resume string
  | LL_recover string
  | LL_end string terminal_reason
  | LL_miss string

inductive lifecycle_step :: "lifecycle \<Rightarrow> lifecycle_label \<Rightarrow> lifecycle \<Rightarrow> bool" where
  stay: "lifecycle_step l LL_none l"
| admit: "lifecycle_step L_idle (LL_admit i) (L_ringing i)"
| snooze: "lifecycle_step (L_ringing i) (LL_snooze i) (L_snoozed i)"
| resume: "lifecycle_step (L_snoozed i) (LL_resume i) (L_ringing i)"
| recover_ringing: "lifecycle_step (L_ringing i) (LL_recover i) (L_ringing i)"
| recover_snoozed: "lifecycle_step (L_snoozed i) (LL_recover i) (L_ringing i)"
| end_ringing: "r \<in> {TR_dismissed, TR_alarm_disabled, TR_timed_out, TR_prolonged_power_off} \<Longrightarrow>
     lifecycle_step (L_ringing i) (LL_end i r) L_idle"
| end_snoozed: "r \<in> {TR_dismissed, TR_alarm_disabled, TR_timed_out, TR_prolonged_power_off} \<Longrightarrow>
     lifecycle_step (L_snoozed i) (LL_end i r) L_idle"
| miss: "lifecycle_step L_idle (LL_miss i) L_idle"

inductive_simps lifecycle_step_simps [simp]:
  "lifecycle_step l LL_none l'"
  "lifecycle_step l (LL_admit i) l'"
  "lifecycle_step l (LL_snooze i) l'"
  "lifecycle_step l (LL_resume i) l'"
  "lifecycle_step l (LL_recover i) l'"
  "lifecycle_step l (LL_end i r) l'"
  "lifecycle_step l (LL_miss i) l'"

definition lifecycle_of :: "persistent_alarm_state \<Rightarrow> lifecycle" where
  "lifecycle_of st =
     (case ps_active st of None \<Rightarrow> L_idle
      | Some a \<Rightarrow> (if ao_snooze_deadline_monotonic_seconds a = None
                  then L_ringing (ao_occurrence_id a) else L_snoozed (ao_occurrence_id a)))"

fun lifecycle_label_of :: "engine_op \<Rightarrow> evaluation_result \<Rightarrow> lifecycle_label" where
  "lifecycle_label_of (Op_due _ _ _ _) r =
     (if er_status r = ES_ringing then LL_admit (er_occurrence_id r)
      else if er_status r = ES_missed then LL_miss (er_occurrence_id r) else LL_none)"
| "lifecycle_label_of (Op_snooze _ _ _) r =
     (if er_status r = ES_snoozed then LL_snooze (er_occurrence_id r) else LL_none)"
| "lifecycle_label_of (Op_advance _) r =
     (if er_status r = ES_timed_out then LL_end (er_occurrence_id r) TR_timed_out
      else if er_start_alert r then LL_resume (er_occurrence_id r) else LL_none)"
| "lifecycle_label_of (Op_dismiss _ disabled) r =
     (if er_status r = ES_dismissed
      then LL_end (er_occurrence_id r) (if disabled then TR_alarm_disabled else TR_dismissed)
      else LL_none)"
| "lifecycle_label_of (Op_recover _ _) r =
     (if er_status r = ES_missed then LL_end (er_occurrence_id r) TR_prolonged_power_off
      else if er_start_alert r then LL_recover (er_occurrence_id r) else LL_none)"

text \<open>The durable record that a label promises.\<close>

fun label_recorded :: "lifecycle_label \<Rightarrow> persistent_alarm_state \<Rightarrow> bool" where
  "label_recorded (LL_end i r) st \<longleftrightarrow>
     last (ps_terminal st) = \<lparr>to_occurrence_id = i, to_reason = r\<rparr>"
| "label_recorded (LL_miss i) st \<longleftrightarrow>
     last (ps_terminal st) = \<lparr>to_occurrence_id = i, to_reason = TR_forward_jump\<rparr>"
| "label_recorded _ st \<longleftrightarrow> True"

text \<open>
  C7: the engine refines the documented state machine. Every operation, on every journal that
  satisfies the invariant, is a transition of the diagram under the abstraction, and every
  transition that ends an occurrence or misses it leaves the matching durable record as the
  newest entry of the journal.
\<close>

theorem engine_refines_lifecycle:
  assumes "journal_ok st" and "engine_apply op st = (r, st')"
  shows "lifecycle_step (lifecycle_of st) (lifecycle_label_of op r) (lifecycle_of st') \<and>
         label_recorded (lifecycle_label_of op r) st'"
proof (cases "ps_active st")
  case None
  show ?thesis
    using assms(2) None
    by (cases op)
      (auto simp: lifecycle_of_def evaluate_due_def request_snooze_def advance_active_def
        dismiss_active_def recover_after_reboot_def list_ex_terminal Let_def result_defs settle_last
        split: if_splits option.splits)
next
  case (Some a)
  with assms(1) have "ao_occurrence_id a \<notin> to_occurrence_id ` set (ps_terminal st)"
    using journal_ok_activeD by (fastforce simp: active_ok_def)
  with assms(2) Some show ?thesis
    by (cases op)
      (auto simp: lifecycle_of_def evaluate_due_def request_snooze_def advance_active_def
        dismiss_active_def recover_after_reboot_def Let_def result_defs settle_last
        split: if_splits option.splits)
qed

theorem engine_refines_lifecycle_witness:
  "lifecycle_step (lifecycle_of sample_rung) (LL_end ''wake:1:1000'' TR_timed_out)
     (lifecycle_of (snd (advance_active sample_rung 3607)))"
proof -
  obtain r st' where run: "advance_active sample_rung 3607 = (r, st')" by force
  then have "engine_apply (Op_advance 3607) sample_rung = (r, st')" by simp
  from engine_refines_lifecycle [OF sample_rung_active(2) this] advance_lifetime_witness
    advance_lifetime [OF sample_rung_active, of 3607] run
  show ?thesis
    by (auto simp: Let_def)
qed

end
