(* ===== verification/Storage_Crc.thy ===== *)
theory Storage_Crc
  imports Dawn_Prelude
begin

text \<open>
  The CRC-32 of the storage records (\<open>update_crc32\<close>, \<open>crc32\<close> and \<open>current_record_crc\<close> in
  \<open>schedule_store.cpp\<close>), and what it detects: the bit step is a linear bijection of the 32-bit
  register, so an error burst of at most four consecutive bytes always changes the checksum.
\<close>

section \<open>The checksum\<close>

text \<open>
  One round of the inner loop. The mask is all ones when the low bit is set: the code negates
  the bit as a signed integer and casts back, which on words is the two's complement negation.
\<close>

definition crc_bit_step :: "u32 \<Rightarrow> u32" where
  "crc_bit_step crc =
     (let mask = - (crc AND 1) in drop_bit 1 crc XOR (0xedb88320 AND mask))"

definition crc_byte_step :: "u32 \<Rightarrow> u8 \<Rightarrow> u32" where
  "crc_byte_step crc byte = (crc_bit_step ^^ 8) (crc XOR ucast byte)"

definition update_crc32 :: "u32 \<Rightarrow> bytes \<Rightarrow> u32" where
  "update_crc32 crc bs = foldl crc_byte_step crc bs"

definition crc32 :: "bytes \<Rightarrow> u32" where
  "crc32 bs = NOT (update_crc32 0xffffffff bs)"

text \<open>The subspans: 16 protected header bytes after the magic, then the payload.\<close>

definition current_record_crc :: "bytes \<Rightarrow> u32" where
  "current_record_crc bs =
     NOT (update_crc32 (update_crc32 0xffffffff (take 16 (drop 4 bs))) (drop 24 bs))"

lemma update_crc32_simps [simp]:
  "update_crc32 crc [] = crc"
  "update_crc32 crc (b # bs) = update_crc32 (crc_byte_step crc b) bs"
  "update_crc32 crc (us @ vs) = update_crc32 (update_crc32 crc us) vs"
  by (simp_all add: update_crc32_def)

section \<open>The bit step is linear and injective\<close>

lemma bit_mask: "bit (- (crc AND 1) :: u32) n \<longleftrightarrow> bit crc 0 \<and> n < 32"
proof (cases "bit crc 0")
  case True
  then have "crc AND 1 = 1" by (simp add: and_one_eq bit_0 odd_iff_mod_2_eq_one)
  with True show ?thesis by simp
next
  case False
  then have "crc AND 1 = 0" by (simp add: and_one_eq bit_0 even_iff_mod_2_eq_zero)
  with False show ?thesis by simp
qed

lemma bit_crc_bit_step:
  "bit (crc_bit_step crc) n \<longleftrightarrow> (bit crc (Suc n) \<noteq> (bit (0xedb88320 :: u32) n \<and> bit crc 0))"
  using bit_imp_le_length [of "0xedb88320 :: u32" n]
  by (auto simp: crc_bit_step_def Let_def bit_xor_iff bit_and_iff bit_mask bit_drop_bit_eq)

lemma poly_top_bit: "bit (0xedb88320 :: u32) 31"
  by simp

lemma crc_bit_step_inject: "crc_bit_step c = crc_bit_step d \<longleftrightarrow> c = d"
proof
  assume eq: "crc_bit_step c = crc_bit_step d"
  have "bit (crc_bit_step x) 31 \<longleftrightarrow> bit x 0" for x
    using bit_imp_le_length [of x 32] by (auto simp: bit_crc_bit_step)
  with eq have low: "bit c 0 \<longleftrightarrow> bit d 0" by metis
  have "bit c (Suc n) \<longleftrightarrow> bit d (Suc n)" for n
    using arg_cong [OF eq, of "\<lambda>x. bit x n"] low by (auto simp: bit_crc_bit_step)
  with low have "bit c n \<longleftrightarrow> bit d n" for n
    by (cases n) auto
  then show "c = d" by (rule bit_eqI)
qed simp

lemma crc_bit_step_xor: "crc_bit_step (x XOR y) = crc_bit_step x XOR crc_bit_step y"
  by (rule bit_eqI) (auto simp: bit_crc_bit_step bit_xor_iff)

lemma crc_steps_inject: "(crc_bit_step ^^ k) c = (crc_bit_step ^^ k) d \<longleftrightarrow> c = d"
  by (induction k) (simp_all add: crc_bit_step_inject)

lemma crc_steps_xor: "(crc_bit_step ^^ k) (x XOR y) = (crc_bit_step ^^ k) x XOR (crc_bit_step ^^ k) y"
  by (induction k) (simp_all add: crc_bit_step_xor)

lemma xor_right_inject: "x XOR a = y XOR a \<longleftrightarrow> x = (y :: u32)"
proof
  assume "x XOR a = y XOR a"
  then have "(x XOR a) XOR a = (y XOR a) XOR a" by (rule arg_cong)
  then show "x = y" by (simp add: xor.assoc)
qed simp

lemma crc_step_shift: "\<not> bit x 0 \<Longrightarrow> crc_bit_step x = drop_bit 1 x"
  by (rule bit_eqI) (simp add: bit_crc_bit_step bit_drop_bit_eq)

lemma crc_steps_shift: "(\<And>i. i < k \<Longrightarrow> \<not> bit x i) \<Longrightarrow> (crc_bit_step ^^ k) x = drop_bit k x"
proof (induction k)
  case 0
  then show ?case by simp
next
  case (Suc k)
  have "\<not> bit (drop_bit k x) 0" using Suc.prems [of k] by (simp add: bit_drop_bit_eq)
  with Suc show ?case by (simp add: crc_step_shift)
qed

lemma update_crc32_inject: "update_crc32 c bs = update_crc32 d bs \<longleftrightarrow> c = d"
proof (induction bs arbitrary: c d)
  case Nil
  show ?case by simp
next
  case (Cons b bs)
  then show ?case by (simp add: crc_byte_step_def crc_steps_inject xor_right_inject)
qed

section \<open>Bursts\<close>

text \<open>A burst of at most four bytes, read as the little-endian word it is xored into.\<close>

fun pack :: "bytes \<Rightarrow> u32" where
  "pack [] = 0"
| "pack (b # bs) = ucast b XOR push_bit 8 (pack bs)"

lemma bit_pack:
  "bit (pack bs) n \<longleftrightarrow> n < 32 \<and> n div 8 < length bs \<and> bit (bs ! (n div 8)) (n mod 8)"
proof (induction bs arbitrary: n)
  case Nil
  show ?case by simp
next
  case (Cons b bs)
  show ?case
  proof (cases "n < 8")
    case True
    then show ?thesis by (auto simp: bit_xor_iff bit_push_bit_iff bit_ucast_iff)
  next
    case False
    then have "n div 8 = Suc ((n - 8) div 8)" and "(n - 8) mod 8 = n mod 8"
      by (simp_all add: le_div_geq le_mod_geq)
    with False Cons.IH [of "n - 8"] bit_imp_le_length [of b n] show ?thesis
      by (auto simp: bit_xor_iff bit_push_bit_iff bit_ucast_iff)
  qed
qed

lemma pack_inject:
  assumes "length us = length vs" and "length us \<le> 4" and "pack us = pack vs"
  shows "us = vs"
proof (rule nth_equalityI)
  show "length us = length vs" by (rule assms(1))
next
  fix i assume i: "i < length us"
  show "us ! i = vs ! i"
  proof (rule bit_word_eqI)
    fix k assume "k < LENGTH(8)"
    then have k: "k < 8" by simp
    have "bit (pack us) (8 * i + k) \<longleftrightarrow> bit (pack vs) (8 * i + k)" using assms(3) by simp
    with i k assms(1,2) show "bit (us ! i) k \<longleftrightarrow> bit (vs ! i) k" by (simp add: bit_pack)
  qed
qed

lemma update_crc32_pack:
  "length bs \<le> 4 \<Longrightarrow> update_crc32 c bs = (crc_bit_step ^^ (8 * length bs)) (c XOR pack bs)"
proof (induction bs arbitrary: c)
  case Nil
  show ?case by simp
next
  case (Cons b bs)
  have "(crc_bit_step ^^ 8) (push_bit 8 (pack bs)) = drop_bit 8 (push_bit 8 (pack bs))"
    by (rule crc_steps_shift) (simp add: bit_push_bit_iff)
  also have "\<dots> = pack bs"
    using Cons.prems by (intro bit_eqI) (auto simp: bit_drop_bit_eq bit_push_bit_iff bit_pack)
  finally have shift: "(crc_bit_step ^^ 8) (push_bit 8 (pack bs)) = pack bs" .
  have "update_crc32 c (b # bs) =
      (crc_bit_step ^^ (8 * length bs)) ((crc_bit_step ^^ 8) (c XOR ucast b) XOR pack bs)"
    using Cons by (simp add: crc_byte_step_def)
  also have "\<dots> = (crc_bit_step ^^ (8 * length bs))
      ((crc_bit_step ^^ 8) (c XOR ucast b XOR push_bit 8 (pack bs)))"
    by (simp add: crc_steps_xor shift xor.assoc)
  also have "\<dots> = (crc_bit_step ^^ (8 * length bs + 8)) (c XOR pack (b # bs))"
    by (simp add: funpow_add xor.assoc del: funpow.simps)
  also have "8 * length bs + 8 = 8 * length (b # bs)" by simp
  finally show ?case .
qed

text \<open>
  The checksum detects every error burst of at most four consecutive bytes, from any
  register value, however long the data before and after the burst.
\<close>

lemma crc_detects_bursts:
  assumes "length burst = length burst'" and "length burst \<le> 4" and "burst \<noteq> burst'"
  shows "update_crc32 crc (before @ burst @ after) \<noteq> update_crc32 crc (before @ burst' @ after)"
proof -
  let ?c = "update_crc32 crc before"
  have "pack burst \<noteq> pack burst'" using assms pack_inject by blast
  then have "?c XOR pack burst \<noteq> ?c XOR pack burst'"
    by (simp add: xor_right_inject xor.commute [of ?c])
  then have "update_crc32 ?c burst \<noteq> update_crc32 ?c burst'"
    using assms(1,2) by (simp add: update_crc32_pack crc_steps_inject)
  then show ?thesis by (simp add: update_crc32_inject)
qed

end
