(* ===== verification/Wire_Format.thy ===== *)
theory Wire_Format
  imports Dawn_Prelude "HOL-Library.Monad_Syntax"
begin

text \<open>
  The byte-level \<open>Writer\<close> and \<open>Reader\<close> of \<open>schedule_store.cpp\<close>. A writer operation is the
  bytes it appends, \<open>None\<close> where the C++ returns false; a reader operation takes the unread
  suffix and returns the value with the new suffix, \<open>None\<close> where the C++ returns false. The
  locale \<open>wire_format\<close> is the contract between the two sides that the record codec relies on:
  they are strict inverses of each other, so reading back what was written gives the value and
  consumes exactly those bytes, and every accepted input is one the writer produces.
\<close>

section \<open>Integers\<close>

definition write_integer :: "'a :: len word \<Rightarrow> bytes" where
  "write_integer v = map (\<lambda>i. ucast (drop_bit (8 * i) v AND 255)) [0..<LENGTH('a) div 8]"

definition read_integer :: "bytes \<Rightarrow> ('a :: len word \<times> bytes) option" where
  "read_integer bs =
     (if length bs < LENGTH('a) div 8 then None
      else Some (foldl (\<lambda>decoded i. decoded OR push_bit (8 * i) (ucast (bs ! i))) 0
                   [0..<LENGTH('a) div 8],
                 drop (LENGTH('a) div 8) bs))"

lemma length_write_integer [simp]: "length (write_integer (v :: 'a :: len word)) = LENGTH('a) div 8"
  by (simp add: write_integer_def)

lemma bit_write_integer:
  assumes "i < LENGTH('a) div 8"
  shows "bit (write_integer (v :: 'a :: len word) ! i) j \<longleftrightarrow> j < 8 \<and> bit v (8 * i + j)"
proof -
  have "bit (255 :: 'a word) j" if "j < 8" "j < LENGTH('a)"
    using that bit_mask_iff [of 8 j, where 'a = "'a word"] by (simp add: mask_eq_exp_minus_1)
  moreover have "j < LENGTH('a)" if "bit v (8 * i + j)"
    using bit_imp_le_length [OF that] by simp
  ultimately show ?thesis
    using assms by (auto simp: write_integer_def bit_ucast_iff bit_and_iff bit_drop_bit_eq)
qed

lemma bit_foldl_or:
  "bit (foldl (\<lambda>d i. d OR f i) (a :: 'a :: len word) is) k \<longleftrightarrow> bit a k \<or> (\<exists>i \<in> set is. bit (f i) k)"
  by (induction "is" arbitrary: a) (auto simp: bit_or_iff)

lemma read_integer_SomeD:
  assumes "read_integer bs = Some (v :: 'a :: len word, rest)"
  shows "LENGTH('a) div 8 \<le> length bs" and "rest = drop (LENGTH('a) div 8) bs"
    and "bit v k \<longleftrightarrow> k < LENGTH('a) \<and> k div 8 < LENGTH('a) div 8 \<and> bit (bs ! (k div 8)) (k mod 8)"
proof -
  show "LENGTH('a) div 8 \<le> length bs" and "rest = drop (LENGTH('a) div 8) bs"
    using assms by (auto simp: read_integer_def split: if_splits)
  have one: "bit (push_bit (8 * i) (ucast (bs ! i)) :: 'a word) k \<longleftrightarrow>
      k < LENGTH('a) \<and> i = k div 8 \<and> bit (bs ! i) (k mod 8)" for i
  proof -
    have "8 * i \<le> k \<and> bit (bs ! i) (k - 8 * i) \<longleftrightarrow> i = k div 8 \<and> bit (bs ! i) (k mod 8)"
    proof
      assume h: "8 * i \<le> k \<and> bit (bs ! i) (k - 8 * i)"
      then have "k - 8 * i < 8" using bit_imp_le_length [of "bs ! i" "k - 8 * i"] by simp
      with h have "i = k div 8" by (intro div_nat_eqI [symmetric]) simp_all
      with h show "i = k div 8 \<and> bit (bs ! i) (k mod 8)" by (simp add: minus_mult_div_eq_mod)
    next
      assume "i = k div 8 \<and> bit (bs ! i) (k mod 8)"
      then show "8 * i \<le> k \<and> bit (bs ! i) (k - 8 * i)" by (auto simp: minus_mult_div_eq_mod)
    qed
    then show ?thesis using bit_imp_le_length [of "bs ! i"]
      by (auto simp: bit_push_bit_iff bit_ucast_iff)
  qed
  from assms have "v = foldl (\<lambda>d i. d OR push_bit (8 * i) (ucast (bs ! i))) 0 [0..<LENGTH('a) div 8]"
    by (auto simp: read_integer_def split: if_splits)
  then show "bit v k \<longleftrightarrow>
      k < LENGTH('a) \<and> k div 8 < LENGTH('a) div 8 \<and> bit (bs ! (k div 8)) (k mod 8)"
    by (auto simp: bit_foldl_or one)
qed

lemma read_write_integer:
  assumes "8 dvd LENGTH('a)"
  shows "read_integer (write_integer v @ rest) = Some (v :: 'a :: len word, rest)"
proof -
  let ?bs = "write_integer v @ rest"
  obtain u where u: "read_integer ?bs = Some (u :: 'a word, drop (LENGTH('a) div 8) ?bs)"
    by (simp add: read_integer_def)
  have "u = v"
  proof (rule bit_word_eqI)
    fix k assume k: "k < LENGTH('a)"
    obtain m where "LENGTH('a) = m * 8" using assms by (metis dvd_def mult.commute)
    with k have lt: "k div 8 < LENGTH('a) div 8" by (simp add: less_mult_imp_div_less)
    have "bit u k \<longleftrightarrow> bit (write_integer v ! (k div 8)) (k mod 8)"
      using read_integer_SomeD(3) [OF u, of k] k lt by (simp add: nth_append)
    also have "\<dots> \<longleftrightarrow> bit v (8 * (k div 8) + k mod 8)"
      using lt by (simp add: bit_write_integer)
    finally show "bit u k \<longleftrightarrow> bit v k" by simp
  qed
  with u show ?thesis by simp
qed

lemma write_read_integer:
  assumes "8 dvd LENGTH('a)" and "read_integer bs = Some (v :: 'a :: len word, rest)"
  shows "bs = write_integer v @ rest"
proof -
  note r = read_integer_SomeD [OF assms(2)]
  have "write_integer v = take (LENGTH('a) div 8) bs"
  proof (rule nth_equalityI)
    show "length (write_integer v) = length (take (LENGTH('a) div 8) bs)" using r(1) by simp
  next
    fix i assume "i < length (write_integer v)"
    then have i: "i < LENGTH('a) div 8" by simp
    have "write_integer v ! i = bs ! i"
    proof (rule bit_word_eqI)
      fix k assume "k < LENGTH(8)"
      then have k: "k < 8" by simp
      with i assms(1) have "8 * i + k < LENGTH('a)" by (auto elim!: dvdE)
      then show "bit (write_integer v ! i) k \<longleftrightarrow> bit (bs ! i) k"
        using i k r(3) [of "8 * i + k"] by (simp add: bit_write_integer)
    qed
    with i show "write_integer v ! i = take (LENGTH('a) div 8) bs ! i" by simp
  qed
  with r(2) show ?thesis by simp
qed

section \<open>Strings and booleans\<close>

definition byte_of_char :: "char \<Rightarrow> u8" where
  "byte_of_char c = word_of_nat (of_char c)"

definition char_of_byte :: "u8 \<Rightarrow> char" where
  "char_of_byte b = char_of (unat b)"

lemma char_byte [simp]: "char_of_byte (byte_of_char c) = c"
proof -
  have "(of_char c :: nat) < 256" by simp
  then have "unat (word_of_nat (of_char c) :: u8) = of_char c" by (simp add: unat_of_nat)
  then show ?thesis by (simp add: char_of_byte_def byte_of_char_def)
qed

lemma byte_char [simp]: "byte_of_char (char_of_byte b) = b"
proof -
  have "unat b < 256" using unsigned_less [of b] by simp
  then show ?thesis by (simp add: char_of_byte_def byte_of_char_def)
qed

text \<open>\<open>static_cast<std::uint16_t>(value.size())\<close> behind the size guard.\<close>

definition write_string :: "string \<Rightarrow> bytes option" where
  "write_string s =
     (if 65535 < length s then None
      else Some (write_integer (word_of_nat (length s) :: u16) @ map byte_of_char s))"

definition read_string :: "bytes \<Rightarrow> (string \<times> bytes) option" where
  "read_string bs = do {
     (len, r) \<leftarrow> read_integer bs;
     if length r < unat (len :: u16) then None
     else Some (map char_of_byte (take (unat len) r), drop (unat len) r) }"

definition write_boolean :: "bool \<Rightarrow> bytes" where
  "write_boolean b = write_integer (if b then 1 else 0 :: u8)"

definition read_boolean :: "bytes \<Rightarrow> (bool \<times> bytes) option" where
  "read_boolean bs = do {
     (encoded, r) \<leftarrow> read_integer bs;
     if 1 < (encoded :: u8) then None else Some (encoded = 1, r) }"

section \<open>The contract\<close>

text \<open>The loops over a vector: writing stops at the first failure, reading takes a count.\<close>

fun put_all :: "('x \<Rightarrow> bytes option) \<Rightarrow> 'x list \<Rightarrow> bytes option" where
  "put_all put [] = Some []"
| "put_all put (x # xs) = do { bs \<leftarrow> put x; cs \<leftarrow> put_all put xs; Some (bs @ cs) }"

primrec get_all :: "(bytes \<Rightarrow> ('x \<times> bytes) option) \<Rightarrow> nat \<Rightarrow> bytes \<Rightarrow> ('x list \<times> bytes) option" where
  "get_all get 0 bs = Some ([], bs)"
| "get_all get (Suc n) bs = do { (x, r) \<leftarrow> get bs; (xs, r') \<leftarrow> get_all get n r; Some (x # xs, r') }"

text \<open>
  The two container layouts of the record: a 16-bit count (the cast truncates) followed by
  the elements, which the reader refuses above the capacity of the vector, and a presence
  byte followed by the value.
\<close>

definition put_counted :: "('x \<Rightarrow> bytes option) \<Rightarrow> 'x list \<Rightarrow> bytes option" where
  "put_counted put xs = do {
     bs \<leftarrow> put_all put xs;
     Some (write_integer (word_of_nat (length xs) :: u16) @ bs) }"

definition get_counted ::
    "nat \<Rightarrow> (bytes \<Rightarrow> ('x \<times> bytes) option) \<Rightarrow> bytes \<Rightarrow> ('x list \<times> bytes) option" where
  "get_counted capacity get bs = do {
     (count, r) \<leftarrow> read_integer bs;
     if capacity < unat (count :: u16) then None else get_all get (unat count) r }"

definition put_optional :: "('x \<Rightarrow> bytes option) \<Rightarrow> 'x option \<Rightarrow> bytes option" where
  "put_optional put v =
     (case v of
        None \<Rightarrow> Some (write_boolean False)
      | Some x \<Rightarrow> do { bs \<leftarrow> put x; Some (write_boolean True @ bs) })"

definition get_optional ::
    "(bytes \<Rightarrow> ('x \<times> bytes) option) \<Rightarrow> bytes \<Rightarrow> ('x option \<times> bytes) option" where
  "get_optional get bs = do {
     (present, r) \<leftarrow> read_boolean bs;
     if present then do { (x, r') \<leftarrow> get r; Some (Some x, r') } else Some (None, r) }"

locale wire_format =
  fixes put :: "'x \<Rightarrow> bytes option" and get :: "bytes \<Rightarrow> ('x \<times> bytes) option"
  assumes get_put: "put x = Some bs \<Longrightarrow> get (bs @ rest) = Some (x, rest)"
    and put_get: "get bs = Some (x, rest) \<Longrightarrow> \<exists>us. put x = Some us \<and> bs = us @ rest"
begin

lemma get_all_put_all:
  "put_all put xs = Some bs \<Longrightarrow> get_all get (length xs) (bs @ rest) = Some (xs, rest)"
proof (induction xs arbitrary: bs)
  case Nil
  then show ?case by simp
next
  case (Cons x xs)
  then obtain us vs where "put x = Some us" and "put_all put xs = Some vs" and "bs = us @ vs"
    by (auto simp: bind_eq_Some_conv)
  with Cons.IH show ?case by (simp add: get_put)
qed

lemma put_all_get_all:
  "get_all get n bs = Some (xs, rest) \<Longrightarrow>
     length xs = n \<and> (\<exists>us. put_all put xs = Some us \<and> bs = us @ rest)"
proof (induction n arbitrary: bs xs)
  case 0
  then show ?case by simp
next
  case (Suc n)
  then obtain x r ys where "get bs = Some (x, r)" and rest: "get_all get n r = Some (ys, rest)"
    and xs: "xs = x # ys"
    by (auto simp: bind_eq_Some_conv)
  then obtain us where "put x = Some us" and "bs = us @ r"
    by (blast dest: put_get)
  with Suc.IH [OF rest] xs show ?case by auto
qed

lemma put_inject: "put x = Some bs \<Longrightarrow> put y = Some bs \<Longrightarrow> x = y"
  by (metis append_Nil2 get_put option.inject prod.inject)

end

lemma wire_integer:
  "8 dvd LENGTH('a) \<Longrightarrow> wire_format (\<lambda>v. Some (write_integer (v :: 'a :: len word))) read_integer"
  by unfold_locales (auto simp: read_write_integer dest: write_read_integer)

interpretation wire_u8: wire_format "\<lambda>v. Some (write_integer (v :: u8))" read_integer
  by (rule wire_integer) simp

interpretation wire_u16: wire_format "\<lambda>v. Some (write_integer (v :: u16))" read_integer
  by (rule wire_integer) simp

interpretation wire_u32: wire_format "\<lambda>v. Some (write_integer (v :: u32))" read_integer
  by (rule wire_integer) simp

interpretation wire_u64: wire_format "\<lambda>v. Some (write_integer (v :: u64))" read_integer
  by (rule wire_integer) simp

lemma word_le_one: "(v :: u8) \<le> 1 \<Longrightarrow> v \<noteq> 0 \<Longrightarrow> v = 1"
  by (metis antisym word_le_nat_alt unat_1 unat_gt_0 Suc_leI One_nat_def unsigned_word_eqI)

interpretation wire_bool: wire_format "\<lambda>b. Some (write_boolean b)" read_boolean
proof
  fix b bs rest
  assume "Some (write_boolean b) = Some bs"
  then show "read_boolean (bs @ rest) = Some (b, rest)"
    by (auto simp: write_boolean_def read_boolean_def wire_u8.get_put)
next
  fix bs b rest
  assume "read_boolean bs = Some (b, rest)"
  then obtain v :: u8 where v: "read_integer bs = Some (v, rest)" "\<not> 1 < v" "b = (v = 1)"
    by (auto simp: read_boolean_def bind_eq_Some_conv split: if_splits)
  then have "v = (if b then 1 else 0)"
    by (cases "v = 0") (auto simp: not_less dest: word_le_one)
  with v(1) show "\<exists>us. Some (write_boolean b) = Some us \<and> bs = us @ rest"
    by (auto simp: write_boolean_def dest: wire_u8.put_get)
qed

interpretation wire_string: wire_format write_string read_string
proof
  fix s bs rest
  assume "write_string s = Some bs"
  then have "length s \<le> 65535" and bs: "bs = write_integer (word_of_nat (length s) :: u16) @ map byte_of_char s"
    by (auto simp: write_string_def split: if_splits)
  then have "unat (word_of_nat (length s) :: u16) = length s" by (simp add: unat_of_nat)
  with bs show "read_string (bs @ rest) = Some (s, rest)"
    using wire_u16.get_put [of "word_of_nat (length s)", OF refl, of "map byte_of_char s @ rest"]
    by (simp add: read_string_def comp_def)
next
  fix bs s rest
  assume "read_string bs = Some (s, rest)"
  then obtain n :: u16 and r where n: "read_integer bs = Some (n, r)" "unat n \<le> length r"
    and s: "s = map char_of_byte (take (unat n) r)" "rest = drop (unat n) r"
    by (auto simp: read_string_def bind_eq_Some_conv split: if_splits)
  have len: "length s = unat n" using n s by simp
  moreover have "unat n < 2 ^ 16" using unsigned_less [of n] by simp
  ultimately have "write_string s = Some (write_integer n @ take (unat n) r)"
    using s by (simp add: write_string_def comp_def)
  moreover have "bs = (write_integer n @ take (unat n) r) @ rest"
    using wire_u16.put_get [OF n(1)] s by simp
  ultimately show "\<exists>us. write_string s = Some us \<and> bs = us @ rest" by blast
qed

context wire_format
begin

lemma get_counted_put_counted:
  assumes "put_counted put xs = Some bs" and "length xs \<le> capacity" and "capacity \<le> 65535"
  shows "get_counted capacity get (bs @ rest) = Some (xs, rest)"
proof -
  obtain us where us: "put_all put xs = Some us"
    and bs: "bs = write_integer (word_of_nat (length xs) :: u16) @ us"
    using assms(1) by (auto simp: put_counted_def bind_eq_Some_conv)
  have "unat (word_of_nat (length xs) :: u16) = length xs"
    using assms(2,3) by (simp add: unat_of_nat)
  with bs assms(2) show ?thesis
    by (simp add: get_counted_def wire_u16.get_put [OF refl] get_all_put_all [OF us])
qed

lemma put_counted_get_counted:
  assumes "get_counted capacity get bs = Some (xs, rest)"
  shows "length xs \<le> capacity" and "\<exists>us. put_counted put xs = Some us \<and> bs = us @ rest"
proof -
  obtain n :: u16 and r where n: "read_integer bs = Some (n, r)" "unat n \<le> capacity"
    and g: "get_all get (unat n) r = Some (xs, rest)"
    using assms by (auto simp: get_counted_def bind_eq_Some_conv split: if_splits)
  from put_all_get_all [OF g] obtain us where len: "length xs = unat n"
    and us: "put_all put xs = Some us" "r = us @ rest"
    by blast
  show "length xs \<le> capacity" using len n(2) by simp
  have "put_counted put xs = Some (write_integer n @ us)"
    using us len by (simp add: put_counted_def)
  moreover have "bs = (write_integer n @ us) @ rest" using wire_u16.put_get [OF n(1)] us by simp
  ultimately show "\<exists>us. put_counted put xs = Some us \<and> bs = us @ rest" by blast
qed

lemma optional: "wire_format (put_optional put) (get_optional get)"
proof
  fix v bs rest
  assume "put_optional put v = Some bs"
  show "get_optional get (bs @ rest) = Some (v, rest)"
  proof (cases v)
    case None
    with \<open>put_optional put v = Some bs\<close> show ?thesis
      by (auto simp: put_optional_def get_optional_def wire_bool.get_put [OF refl])
  next
    case (Some x)
    with \<open>put_optional put v = Some bs\<close> obtain us
      where us: "put x = Some us" "bs = write_boolean True @ us"
      by (auto simp: put_optional_def bind_eq_Some_conv)
    with Some show ?thesis
      by (simp add: get_optional_def wire_bool.get_put [OF refl] get_put [OF us(1)])
  qed
next
  fix bs v rest
  assume "get_optional get bs = Some (v, rest)"
  then obtain p r where p: "read_boolean bs = Some (p, r)"
    and v: "(if p then do { (x, r') \<leftarrow> get r; Some (Some x, r') } else Some (None, r)) = Some (v, rest)"
    by (auto simp: get_optional_def bind_eq_Some_conv)
  have bs: "bs = write_boolean p @ r" using wire_bool.put_get [OF p] by simp
  show "\<exists>us. put_optional put v = Some us \<and> bs = us @ rest"
  proof (cases p)
    case True
    with v obtain x where x: "get r = Some (x, rest)" "v = Some x"
      by (auto simp: bind_eq_Some_conv)
    obtain us where "put x = Some us" "r = us @ rest" using put_get [OF x(1)] by blast
    with bs x True show ?thesis by (simp add: put_optional_def)
  next
    case False
    with v bs show ?thesis by (simp add: put_optional_def)
  qed
qed

end

text \<open>The laws in the form in which the proofs about whole records use them.\<close>

lemmas read_write [simp] =
  wire_u8.get_put [OF refl] wire_u16.get_put [OF refl] wire_u32.get_put [OF refl]
  wire_u64.get_put [OF refl] wire_bool.get_put [OF refl]

lemma length_write_boolean [simp]: "length (write_boolean b) = 1"
  by (simp add: write_boolean_def)

lemma length_write_string: "write_string s = Some bs \<Longrightarrow> length bs = 2 + length s"
  by (auto simp: write_string_def split: if_splits)

lemma write_string_defined: "length s \<le> 65535 \<Longrightarrow> \<exists>bs. write_string s = Some bs"
  by (simp add: write_string_def)

lemma put_all_defined:
  "(\<And>x. x \<in> set xs \<Longrightarrow> \<exists>bs. put x = Some bs) \<Longrightarrow> \<exists>bs. put_all put xs = Some bs"
proof (induction xs)
  case Nil
  then show ?case by simp
next
  case (Cons x xs)
  then obtain us vs where "put x = Some us" and "put_all put xs = Some vs" by fastforce
  then show ?case by simp
qed

lemma length_put_all:
  assumes "\<And>x bs. x \<in> set xs \<Longrightarrow> put x = Some bs \<Longrightarrow> length bs \<le> k" and "put_all put xs = Some bs"
  shows "length bs \<le> length xs * k"
  using assms
proof (induction xs arbitrary: bs)
  case Nil
  then show ?case by simp
next
  case (Cons x xs)
  then obtain us vs where "put x = Some us" and vs: "put_all put xs = Some vs"
    and bs: "bs = us @ vs"
    by (auto simp: bind_eq_Some_conv)
  then have "length us \<le> k" using Cons.prems(1) [of x us] by simp
  moreover have "length vs \<le> length xs * k" by (rule Cons.IH [OF _ vs]) (rule Cons.prems(1), simp_all)
  ultimately show ?case using bs by simp
qed

end
