(* ===== verification/Schedule_Record.thy ===== *)
theory Schedule_Record
  imports Alarm_Lifecycle Storage_Crc Wire_Format
begin

text \<open>
  The storage record of \<open>schedule_store.cpp\<close>: the schedule snapshot, its validation, the
  versioned byte encoding with its checksum, and the decoder with its legacy and
  future-schema branches. The encoder and the decoder are shown to be inverse to each other
  on exactly the valid snapshots, and a damaged record to be refused.
\<close>

section \<open>Structs and limits\<close>

abbreviation kCurrentStorageSchemaVersion :: u16 where "kCurrentStorageSchemaVersion \<equiv> 2"
abbreviation kMaximumStoredAlarms :: nat where "kMaximumStoredAlarms \<equiv> 32"
abbreviation kMaximumAlarmIdBytes :: nat where "kMaximumAlarmIdBytes \<equiv> 64"
abbreviation kMaximumOccurrenceIdBytes :: nat where "kMaximumOccurrenceIdBytes \<equiv> 160"
abbreviation kMaximumBootIdBytes :: nat where "kMaximumBootIdBytes \<equiv> 64"
abbreviation kMaximumTimezoneVersionBytes :: nat where "kMaximumTimezoneVersionBytes \<equiv> 64"
abbreviation kMaximumStorageRecordBytes :: nat where "kMaximumStorageRecordBytes \<equiv> 65536"
abbreviation kHeaderSize :: nat where "kHeaderSize \<equiv> 24"

definition kMagic :: bytes where
  "kMagic = map byte_of_char ''DDST''"

record stored_alarm_definition =
  sa_id :: string
  sa_schedule_revision :: u64
  sa_enabled :: bool
  sa_scheduled_utc_seconds :: i64

record schedule_snapshot =
  ss_revision :: u64
  ss_timezone_rules_version :: string
  ss_alarms :: "stored_alarm_definition list"
  ss_occurrence_state :: persistent_alarm_state

record decoded_record =
  dr_snapshot :: schedule_snapshot
  dr_generation :: u64
  dr_migrated :: bool

section \<open>Validation\<close>

definition valid_string :: "string \<Rightarrow> nat \<Rightarrow> bool" where
  "valid_string value maximum \<longleftrightarrow>
     value \<noteq> [] \<and> length value \<le> maximum \<and>
     \<not> list_ex (\<lambda>c. let byte = byte_of_char c in byte = 0 \<or> byte < 0x20) value"

definition valid_optional_string :: "string \<Rightarrow> nat \<Rightarrow> bool" where
  "valid_optional_string value maximum \<longleftrightarrow> value = [] \<or> valid_string value maximum"

text \<open>
  Each loop of \<open>validate_snapshot\<close> inserts the identifiers into a hash set and fails on the
  first repetition: the identifiers must be \<open>distinct\<close>.
\<close>

definition valid_alarms :: "schedule_snapshot \<Rightarrow> bool" where
  "valid_alarms s \<longleftrightarrow>
     list_all (\<lambda>a. valid_string (sa_id a) kMaximumAlarmIdBytes \<and> sa_schedule_revision a \<noteq> 0 \<and>
                   \<not> ss_revision s < sa_schedule_revision a) (ss_alarms s) \<and>
     distinct (map sa_id (ss_alarms s))"

definition valid_active :: "active_occurrence \<Rightarrow> bool" where
  "valid_active a \<longleftrightarrow>
     valid_string (ao_alarm_id a) kMaximumAlarmIdBytes \<and>
     valid_string (ao_occurrence_id a) kMaximumOccurrenceIdBytes \<and>
     valid_optional_string (ao_last_recovery_boot_id a) kMaximumBootIdBytes \<and>
     \<not> kMaximumSnoozes < ao_snooze_count a \<and>
     (case ao_snooze_deadline_monotonic_seconds a of None \<Rightarrow> True
      | Some deadline \<Rightarrow> \<not> sint deadline < sint (ao_first_ring_monotonic_seconds a))"

definition valid_occurrence_state :: "persistent_alarm_state \<Rightarrow> bool" where
  "valid_occurrence_state st \<longleftrightarrow>
     (case ps_active st of None \<Rightarrow> True | Some a \<Rightarrow> valid_active a) \<and>
     list_all (\<lambda>t. valid_string (to_occurrence_id t) kMaximumOccurrenceIdBytes \<and>
                   \<not> TR_prolonged_power_off < to_reason t \<and>
                   (case ps_active st of None \<Rightarrow> True
                    | Some a \<Rightarrow> ao_occurrence_id a \<noteq> to_occurrence_id t)) (ps_terminal st) \<and>
     distinct (map to_occurrence_id (ps_terminal st)) \<and>
     list_all (\<lambda>w. valid_string (hw_alarm_id w) kMaximumAlarmIdBytes) (ps_watermarks st) \<and>
     distinct (map hw_alarm_id (ps_watermarks st))"

definition validate_snapshot :: "schedule_snapshot \<Rightarrow> bool" where
  "validate_snapshot s \<longleftrightarrow>
     ss_revision s \<noteq> 0 \<and>
     valid_string (ss_timezone_rules_version s) kMaximumTimezoneVersionBytes \<and>
     \<not> kMaximumStoredAlarms < length (ss_alarms s) \<and>
     \<not> kRecentTerminalRetention < length (ps_terminal (ss_occurrence_state s)) \<and>
     \<not> kTerminalHighWatermarkCapacity < length (ps_watermarks (ss_occurrence_state s)) \<and>
     valid_alarms s \<and> valid_occurrence_state (ss_occurrence_state s)"

section \<open>The occurrence journal on the wire\<close>

definition put_active :: "active_occurrence \<Rightarrow> bytes option" where
  "put_active a = do {
     alarm_id \<leftarrow> write_string (ao_alarm_id a);
     occurrence_id \<leftarrow> write_string (ao_occurrence_id a);
     deadline \<leftarrow> put_optional (\<lambda>v. Some (write_integer v)) (ao_snooze_deadline_monotonic_seconds a);
     boot_id \<leftarrow> write_string (ao_last_recovery_boot_id a);
     Some (alarm_id @ occurrence_id @ write_integer (ao_scheduled_utc_seconds a) @
       write_integer (ao_first_ring_utc_seconds a) @
       write_integer (ao_first_ring_monotonic_seconds a) @ deadline @
       write_integer (ao_snooze_count a) @ write_boolean (ao_recovered_after_reboot a) @ boot_id) }"

definition get_active :: "bytes \<Rightarrow> (active_occurrence \<times> bytes) option" where
  "get_active bs = do {
     (alarm_id, bs) \<leftarrow> read_string bs;
     (occurrence_id, bs) \<leftarrow> read_string bs;
     (scheduled, bs) \<leftarrow> read_integer bs;
     (first_utc, bs) \<leftarrow> read_integer bs;
     (first_monotonic, bs) \<leftarrow> read_integer bs;
     (deadline, bs) \<leftarrow> get_optional read_integer bs;
     (count, bs) \<leftarrow> read_integer bs;
     (recovered, bs) \<leftarrow> read_boolean bs;
     (boot_id, bs) \<leftarrow> read_string bs;
     Some (\<lparr>ao_alarm_id = alarm_id, ao_occurrence_id = occurrence_id,
            ao_scheduled_utc_seconds = scheduled, ao_first_ring_utc_seconds = first_utc,
            ao_first_ring_monotonic_seconds = first_monotonic,
            ao_snooze_deadline_monotonic_seconds = deadline, ao_snooze_count = count,
            ao_recovered_after_reboot = recovered, ao_last_recovery_boot_id = boot_id\<rparr>, bs) }"

definition put_terminal :: "terminal_occurrence \<Rightarrow> bytes option" where
  "put_terminal t = do {
     occurrence_id \<leftarrow> write_string (to_occurrence_id t);
     Some (occurrence_id @ write_integer (word_of_nat (reason_code (to_reason t)) :: u8)) }"

text \<open>\<open>static_cast<TerminalReason>\<close>, behind the range check.\<close>

fun reason_of_code :: "u8 \<Rightarrow> terminal_reason" where
  "reason_of_code c =
     (if c = 0 then TR_dismissed else if c = 1 then TR_alarm_disabled
      else if c = 2 then TR_timed_out else if c = 3 then TR_forward_jump
      else if c = 4 then TR_invalid_time else TR_prolonged_power_off)"

definition get_terminal :: "bytes \<Rightarrow> (terminal_occurrence \<times> bytes) option" where
  "get_terminal bs = do {
     (occurrence_id, bs) \<leftarrow> read_string bs;
     (reason, bs) \<leftarrow> read_integer bs;
     if word_of_nat (reason_code TR_prolonged_power_off) < (reason :: u8) then None
     else Some (\<lparr>to_occurrence_id = occurrence_id, to_reason = reason_of_code reason\<rparr>, bs) }"

definition put_watermark :: "terminal_high_watermark \<Rightarrow> bytes option" where
  "put_watermark w = do {
     alarm_id \<leftarrow> write_string (hw_alarm_id w);
     Some (alarm_id @ write_integer (hw_scheduled_utc_seconds w)) }"

definition get_watermark :: "bytes \<Rightarrow> (terminal_high_watermark \<times> bytes) option" where
  "get_watermark bs = do {
     (alarm_id, bs) \<leftarrow> read_string bs;
     (scheduled, bs) \<leftarrow> read_integer bs;
     Some (\<lparr>hw_alarm_id = alarm_id, hw_scheduled_utc_seconds = scheduled\<rparr>, bs) }"

definition write_occurrence_state :: "persistent_alarm_state \<Rightarrow> bytes option" where
  "write_occurrence_state st = do {
     active \<leftarrow> put_optional put_active (ps_active st);
     terminal \<leftarrow> put_counted put_terminal (ps_terminal st);
     watermarks \<leftarrow> put_counted put_watermark (ps_watermarks st);
     Some (active @ terminal @ watermarks) }"

definition read_occurrence_state :: "bytes \<Rightarrow> (persistent_alarm_state \<times> bytes) option" where
  "read_occurrence_state bs = do {
     (active, bs) \<leftarrow> get_optional get_active bs;
     (terminal, bs) \<leftarrow> get_counted kRecentTerminalRetention get_terminal bs;
     (watermarks, bs) \<leftarrow> get_counted kTerminalHighWatermarkCapacity get_watermark bs;
     Some (\<lparr>ps_active = active, ps_terminal = terminal, ps_watermarks = watermarks\<rparr>, bs) }"

section \<open>The record\<close>

definition put_alarm :: "stored_alarm_definition \<Rightarrow> bytes option" where
  "put_alarm a = do {
     alarm_id \<leftarrow> write_string (sa_id a);
     Some (alarm_id @ write_integer (sa_schedule_revision a) @ write_boolean (sa_enabled a) @
       write_integer (sa_scheduled_utc_seconds a)) }"

definition get_alarm :: "bytes \<Rightarrow> (stored_alarm_definition \<times> bytes) option" where
  "get_alarm bs = do {
     (alarm_id, bs) \<leftarrow> read_string bs;
     (revision, bs) \<leftarrow> read_integer bs;
     (enabled, bs) \<leftarrow> read_boolean bs;
     (scheduled, bs) \<leftarrow> read_integer bs;
     Some (\<lparr>sa_id = alarm_id, sa_schedule_revision = revision, sa_enabled = enabled,
            sa_scheduled_utc_seconds = scheduled\<rparr>, bs) }"

definition encode_payload :: "schedule_snapshot \<Rightarrow> bytes option" where
  "encode_payload s = do {
     rules \<leftarrow> write_string (ss_timezone_rules_version s);
     alarms \<leftarrow> put_counted put_alarm (ss_alarms s);
     journal \<leftarrow> write_occurrence_state (ss_occurrence_state s);
     Some (write_integer (ss_revision s) @ rules @ alarms @ journal) }"

definition encode_record :: "schedule_snapshot \<Rightarrow> u64 \<Rightarrow> bytes option" where
  "encode_record s generation =
     (if \<not> validate_snapshot s then None
      else do {
        payload \<leftarrow> encode_payload s;
        if kMaximumStorageRecordBytes < length payload + kHeaderSize then None
        else
          let header = write_integer kCurrentStorageSchemaVersion @ write_integer (0 :: u16) @
                write_integer generation @ write_integer (word_of_nat (length payload) :: u32)
          in Some (kMagic @ header @ write_integer (crc32 (header @ payload)) @ payload) })"

text \<open>The five header fields that follow the magic, read by both decoders.\<close>

definition read_header :: "bytes \<Rightarrow> (u16 \<times> u16 \<times> u64 \<times> u32 \<times> u32) option" where
  "read_header bs =
     (if length bs < kHeaderSize \<or> kMaximumStorageRecordBytes < length bs \<or>
         take (length kMagic) bs \<noteq> kMagic then None
      else do {
        (schema, r) \<leftarrow> read_integer (drop (length kMagic) bs);
        (reserved, r) \<leftarrow> read_integer r;
        (generation, r) \<leftarrow> read_integer r;
        (payload_size, r) \<leftarrow> read_integer r;
        (expected_crc, r) \<leftarrow> read_integer r;
        Some (schema, reserved, generation, payload_size, expected_crc) })"

definition decode_payload :: "u16 \<Rightarrow> bytes \<Rightarrow> schedule_snapshot option" where
  "decode_payload schema payload = do {
     (revision, bs) \<leftarrow> read_integer payload;
     (rules, bs) \<leftarrow> (if schema = kCurrentStorageSchemaVersion then read_string bs
                     else Some (''legacy-v1-unpinned'', bs));
     (alarms, bs) \<leftarrow> get_counted kMaximumStoredAlarms get_alarm bs;
     (journal, bs) \<leftarrow> read_occurrence_state bs;
     let s = \<lparr>ss_revision = revision, ss_timezone_rules_version = rules, ss_alarms = alarms,
              ss_occurrence_state = journal\<rparr>
     in if length bs \<noteq> 0 \<or> \<not> validate_snapshot s then None else Some s }"

definition decode_record :: "bytes \<Rightarrow> decoded_record option" where
  "decode_record bs = do {
     (schema, reserved, generation, payload_size, expected_crc) \<leftarrow> read_header bs;
     if reserved \<noteq> 0 \<or> generation = 0 \<or>
        (schema \<noteq> 1 \<and> schema \<noteq> kCurrentStorageSchemaVersion) \<or>
        unat payload_size \<noteq> length bs - kHeaderSize then None
     else
       let payload = drop kHeaderSize bs;
           actual_crc = (if schema = 1 then crc32 payload else current_record_crc bs)
       in if actual_crc \<noteq> expected_crc then None
          else do {
            s \<leftarrow> decode_payload schema payload;
            Some \<lparr>dr_snapshot = s, dr_generation = generation,
                  dr_migrated = (schema \<noteq> kCurrentStorageSchemaVersion)\<rparr> } }"

definition intact_future_schema_generation :: "bytes \<Rightarrow> u64 option" where
  "intact_future_schema_generation bs = do {
     (schema, reserved, generation, payload_size, expected_crc) \<leftarrow> read_header bs;
     if reserved \<noteq> 0 \<or> generation = 0 \<or> schema \<le> kCurrentStorageSchemaVersion \<or>
        unat payload_size \<noteq> length bs - kHeaderSize \<or> current_record_crc bs \<noteq> expected_crc
     then None else Some generation }"

section \<open>Comparisons\<close>

text \<open>The field-by-field comparisons of the journal, and what they decide: equality.\<close>

definition active_equal :: "active_occurrence option \<Rightarrow> active_occurrence option \<Rightarrow> bool" where
  "active_equal left right =
     (case (left, right) of
        (None, None) \<Rightarrow> True
      | (Some l, Some r) \<Rightarrow>
          ao_alarm_id l = ao_alarm_id r \<and> ao_occurrence_id l = ao_occurrence_id r \<and>
          ao_scheduled_utc_seconds l = ao_scheduled_utc_seconds r \<and>
          ao_first_ring_utc_seconds l = ao_first_ring_utc_seconds r \<and>
          ao_first_ring_monotonic_seconds l = ao_first_ring_monotonic_seconds r \<and>
          ao_snooze_deadline_monotonic_seconds l = ao_snooze_deadline_monotonic_seconds r \<and>
          ao_snooze_count l = ao_snooze_count r \<and>
          ao_recovered_after_reboot l = ao_recovered_after_reboot r \<and>
          ao_last_recovery_boot_id l = ao_last_recovery_boot_id r
      | _ \<Rightarrow> False)"

definition terminal_equal :: "terminal_occurrence list \<Rightarrow> terminal_occurrence list \<Rightarrow> bool" where
  "terminal_equal left right \<longleftrightarrow> length left = length right \<and>
     list_all2 (\<lambda>l r. to_occurrence_id l = to_occurrence_id r \<and> to_reason l = to_reason r) left right"

definition watermarks_equal ::
    "terminal_high_watermark list \<Rightarrow> terminal_high_watermark list \<Rightarrow> bool" where
  "watermarks_equal left right \<longleftrightarrow> length left = length right \<and>
     list_all2 (\<lambda>l r. hw_alarm_id l = hw_alarm_id r \<and>
                      hw_scheduled_utc_seconds l = hw_scheduled_utc_seconds r) left right"

definition snapshots_equal :: "schedule_snapshot \<Rightarrow> schedule_snapshot \<Rightarrow> bool" where
  "snapshots_equal l r \<longleftrightarrow>
     ss_revision l = ss_revision r \<and>
     ss_timezone_rules_version l = ss_timezone_rules_version r \<and> ss_alarms l = ss_alarms r \<and>
     active_equal (ps_active (ss_occurrence_state l)) (ps_active (ss_occurrence_state r)) \<and>
     terminal_equal (ps_terminal (ss_occurrence_state l)) (ps_terminal (ss_occurrence_state r)) \<and>
     watermarks_equal (ps_watermarks (ss_occurrence_state l)) (ps_watermarks (ss_occurrence_state r))"

lemma active_equal_iff [simp]: "active_equal l r \<longleftrightarrow> l = r"
  by (auto simp: active_equal_def split: option.splits)

lemma terminal_equal_iff [simp]: "terminal_equal l r \<longleftrightarrow> l = r"
  by (auto simp: terminal_equal_def list_eq_iff_nth_eq list_all2_conv_all_nth)

lemma watermarks_equal_iff [simp]: "watermarks_equal l r \<longleftrightarrow> l = r"
  by (auto simp: watermarks_equal_def list_eq_iff_nth_eq list_all2_conv_all_nth)

lemma snapshots_equal_iff [simp]: "snapshots_equal l r \<longleftrightarrow> l = r"
  by (cases l; cases r; cases "ss_occurrence_state l"; cases "ss_occurrence_state r")
    (auto simp: snapshots_equal_def)

end
