(* ===== verification/Record_Codec.thy ===== *)
theory Record_Codec
  imports Schedule_Record
begin

text \<open>
  What the record codec promises: every element layout satisfies the \<open>wire_format\<close> contract,
  encoding succeeds exactly on the valid snapshots, decoding inverts it, the accepted
  current-schema records are exactly the encoder's outputs, a damaged record is refused, and
  the journals the engine produces are always storable.
\<close>

section \<open>The elements satisfy the contract\<close>

text \<open>
  A parser step that succeeded is turned into the equation it establishes: the input is the
  written value followed by the rest.
\<close>

lemma read_integer_conv:
  "read_integer bs = Some (v :: u8, r) \<longleftrightarrow> bs = write_integer v @ r"
  "read_integer bs = Some (w :: u16, r) \<longleftrightarrow> bs = write_integer w @ r"
  "read_integer bs = Some (x :: u32, r) \<longleftrightarrow> bs = write_integer x @ r"
  "read_integer bs = Some (y :: u64, r) \<longleftrightarrow> bs = write_integer y @ r"
  by (auto dest: wire_u8.put_get wire_u16.put_get wire_u32.put_get wire_u64.put_get)

lemma read_boolean_conv: "read_boolean bs = Some (b, r) \<longleftrightarrow> bs = write_boolean b @ r"
  by (auto dest: wire_bool.put_get)

lemma read_string_conv:
  "read_string bs = Some (s, r) \<longleftrightarrow> (\<exists>us. write_string s = Some us \<and> bs = us @ r)"
  by (auto dest: wire_string.put_get wire_string.get_put)

interpretation wire_deadline: wire_format
  "put_optional (\<lambda>v. Some (write_integer (v :: i64)))" "get_optional read_integer"
  by (rule wire_u64.optional)

lemma get_deadline_conv:
  "get_optional read_integer bs = Some (d :: i64 option, r) \<longleftrightarrow>
     (\<exists>us. put_optional (\<lambda>v. Some (write_integer v)) d = Some us \<and> bs = us @ r)"
  by (auto dest: wire_deadline.put_get wire_deadline.get_put)

lemmas read_conv = read_integer_conv read_boolean_conv read_string_conv get_deadline_conv
  bind_eq_Some_conv

interpretation wire_active: wire_format put_active get_active
proof
  fix a bs rest
  assume "put_active a = Some bs"
  then show "get_active (bs @ rest) = Some (a, rest)"
    by (cases a) (auto simp: put_active_def get_active_def bind_eq_Some_conv
        wire_string.get_put wire_deadline.get_put)
next
  fix bs a rest
  assume "get_active bs = Some (a, rest)"
  then show "\<exists>us. put_active a = Some us \<and> bs = us @ rest"
    by (auto simp: put_active_def get_active_def read_conv)
qed

lemma reason_code_cast [simp]: "reason_of_code (word_of_nat (reason_code r)) = r"
  by (cases r) simp_all

lemma reason_code_in_range: "\<not> 5 < (word_of_nat (reason_code r) :: u8)"
  by (cases r) simp_all

lemma reason_cast_code:
  assumes "\<not> 5 < c"
  shows "word_of_nat (reason_code (reason_of_code c)) = c"
proof -
  have "unat c \<le> 5" using assms by (simp add: not_less word_le_nat_alt)
  then have "unat c \<in> {0, 1, 2, 3, 4, 5}" by auto
  then have "(word_of_nat (unat c) :: u8) \<in> word_of_nat ` {0, 1, 2, 3, 4, 5 :: nat}" by (rule imageI)
  then have "c \<in> {0, 1, 2, 3, 4, 5}" by simp
  then show ?thesis by auto
qed

interpretation wire_terminal: wire_format put_terminal get_terminal
proof
  fix t bs rest
  assume "put_terminal t = Some bs"
  then obtain us where us: "write_string (to_occurrence_id t) = Some us"
    and bs: "bs = us @ write_integer (word_of_nat (reason_code (to_reason t)) :: u8)"
    by (auto simp: put_terminal_def bind_eq_Some_conv)
  then show "get_terminal (bs @ rest) = Some (t, rest)"
    by (simp add: get_terminal_def wire_string.get_put [OF us] reason_code_in_range
        del: reason_of_code.simps)
next
  fix bs t rest
  assume "get_terminal bs = Some (t, rest)"
  then show "\<exists>us. put_terminal t = Some us \<and> bs = us @ rest"
    by (auto simp: put_terminal_def get_terminal_def read_conv reason_cast_code
        split: if_splits simp del: reason_of_code.simps)
qed

interpretation wire_watermark: wire_format put_watermark get_watermark
proof
  fix w bs rest
  assume "put_watermark w = Some bs"
  then show "get_watermark (bs @ rest) = Some (w, rest)"
    by (auto simp: put_watermark_def get_watermark_def bind_eq_Some_conv wire_string.get_put)
next
  fix bs w rest
  assume "get_watermark bs = Some (w, rest)"
  then show "\<exists>us. put_watermark w = Some us \<and> bs = us @ rest"
    by (auto simp: put_watermark_def get_watermark_def read_conv)
qed

interpretation wire_alarm: wire_format put_alarm get_alarm
proof
  fix a bs rest
  assume "put_alarm a = Some bs"
  then show "get_alarm (bs @ rest) = Some (a, rest)"
    by (auto simp: put_alarm_def get_alarm_def bind_eq_Some_conv wire_string.get_put)
next
  fix bs a rest
  assume "get_alarm bs = Some (a, rest)"
  then show "\<exists>us. put_alarm a = Some us \<and> bs = us @ rest"
    by (auto simp: put_alarm_def get_alarm_def read_conv)
qed

interpretation wire_optional_active: wire_format "put_optional put_active" "get_optional get_active"
  by (rule wire_active.optional)

section \<open>Journal, payload and record\<close>

lemma read_write_occurrence_state:
  assumes "write_occurrence_state st = Some bs"
    and "length (ps_terminal st) \<le> kRecentTerminalRetention"
    and "length (ps_watermarks st) \<le> kTerminalHighWatermarkCapacity"
  shows "read_occurrence_state (bs @ rest) = Some (st, rest)"
proof -
  obtain a t w where a: "put_optional put_active (ps_active st) = Some a"
    and t: "put_counted put_terminal (ps_terminal st) = Some t"
    and w: "put_counted put_watermark (ps_watermarks st) = Some w" and bs: "bs = a @ t @ w"
    using assms(1) by (auto simp: write_occurrence_state_def bind_eq_Some_conv)
  then show ?thesis
    using assms(2,3)
    by (simp add: read_occurrence_state_def wire_optional_active.get_put [OF a]
        wire_terminal.get_counted_put_counted [OF t] wire_watermark.get_counted_put_counted [OF w])
qed

lemma write_read_occurrence_state:
  assumes "read_occurrence_state bs = Some (st, rest)"
  shows "\<exists>us. write_occurrence_state st = Some us \<and> bs = us @ rest"
proof -
  obtain a r t r' w where a: "get_optional get_active bs = Some (a, r)"
    and t: "get_counted kRecentTerminalRetention get_terminal r = Some (t, r')"
    and w: "get_counted kTerminalHighWatermarkCapacity get_watermark r' = Some (w, rest)"
    and st: "st = \<lparr>ps_active = a, ps_terminal = t, ps_watermarks = w\<rparr>"
    using assms by (auto simp: read_occurrence_state_def bind_eq_Some_conv)
  show ?thesis
    using wire_optional_active.put_get [OF a] wire_terminal.put_counted_get_counted(2) [OF t]
      wire_watermark.put_counted_get_counted(2) [OF w] st
    by (auto simp: write_occurrence_state_def)
qed

lemma snapshot_eta [simp]:
  "\<lparr>ss_revision = ss_revision s, ss_timezone_rules_version = ss_timezone_rules_version s,
     ss_alarms = ss_alarms s, ss_occurrence_state = ss_occurrence_state s\<rparr> = s"
  by simp

lemma decode_encode_payload:
  assumes "encode_payload s = Some payload" and "validate_snapshot s"
  shows "decode_payload 2 payload = Some s"
proof -
  obtain rules alarms journal where r: "write_string (ss_timezone_rules_version s) = Some rules"
    and a: "put_counted put_alarm (ss_alarms s) = Some alarms"
    and j: "write_occurrence_state (ss_occurrence_state s) = Some journal"
    and p: "payload = write_integer (ss_revision s) @ rules @ alarms @ journal"
    using assms(1) by (auto simp: encode_payload_def bind_eq_Some_conv)
  have "length (ss_alarms s) \<le> 32" "length (ps_terminal (ss_occurrence_state s)) \<le> 32"
    "length (ps_watermarks (ss_occurrence_state s)) \<le> 32"
    using assms(2) by (simp_all add: validate_snapshot_def)
  then show ?thesis
    using assms(2) read_write_occurrence_state [OF j, of "[]"]
    by (simp add: decode_payload_def p Let_def wire_string.get_put [OF r]
        wire_alarm.get_counted_put_counted [OF a])
qed

lemma encode_decode_payload:
  assumes "decode_payload 2 payload = Some s"
  shows "encode_payload s = Some payload" and "validate_snapshot s"
proof -
  obtain v b1 rules b2 alarms b3 journal b4 where v: "read_integer payload = Some (v, b1)"
    and r: "read_string b1 = Some (rules, b2)"
    and a: "get_counted kMaximumStoredAlarms get_alarm b2 = Some (alarms, b3)"
    and j: "read_occurrence_state b3 = Some (journal, b4)" and "b4 = []"
    and s: "s = \<lparr>ss_revision = v, ss_timezone_rules_version = rules, ss_alarms = alarms,
              ss_occurrence_state = journal\<rparr>" "validate_snapshot s"
    using assms by (auto simp: decode_payload_def bind_eq_Some_conv Let_def split: if_splits)
  then show "validate_snapshot s" by simp
  show "encode_payload s = Some payload"
    using v wire_string.put_get [OF r] wire_alarm.put_counted_get_counted(2) [OF a]
      write_read_occurrence_state [OF j] s(1) \<open>b4 = []\<close>
    by (auto simp: encode_payload_def read_conv)
qed

text \<open>The shape of a record: magic, five header fields, checksum over them, payload.\<close>

definition record_bytes :: "u16 \<Rightarrow> u16 \<Rightarrow> u64 \<Rightarrow> u32 \<Rightarrow> u32 \<Rightarrow> bytes \<Rightarrow> bytes" where
  "record_bytes schema reserved generation psize crc payload =
     kMagic @ write_integer schema @ write_integer reserved @ write_integer generation @
     write_integer psize @ write_integer crc @ payload"

lemma length_kMagic [simp]: "length kMagic = 4"
  by (simp add: kMagic_def)

lemma length_record_bytes [simp]:
  "length (record_bytes schema reserved generation psize crc payload) = 24 + length payload"
  by (simp add: record_bytes_def)

lemma drop_record_bytes [simp]:
  "drop 24 (record_bytes schema reserved generation psize crc payload) = payload"
  by (simp add: record_bytes_def)

lemma read_header_record_bytes:
  "length payload + 24 \<le> 65536 \<Longrightarrow>
     read_header (record_bytes schema reserved generation psize crc payload) =
       Some (schema, reserved, generation, psize, crc)"
  by (simp add: read_header_def) (simp add: record_bytes_def)

lemma read_header_SomeD:
  assumes "read_header bs = Some (schema, reserved, generation, psize, crc)"
  shows "bs = record_bytes schema reserved generation psize crc (drop 24 bs)"
    and "24 \<le> length bs" and "length bs \<le> 65536"
proof -
  obtain r where r: "drop 4 bs = write_integer schema @ write_integer reserved @
      write_integer generation @ write_integer psize @ write_integer crc @ r"
    and m: "take 4 bs = kMagic" and len: "24 \<le> length bs" "length bs \<le> 65536"
    using assms by (auto simp: read_header_def read_conv split: if_splits)
  have "drop 24 bs = drop 20 (drop 4 bs)" by simp
  also have "\<dots> = r" by (simp add: r del: drop_drop)
  finally have "drop 24 bs = r" .
  then show "bs = record_bytes schema reserved generation psize crc (drop 24 bs)"
    using append_take_drop_id [of 4 bs] r m by (simp add: record_bytes_def)
  show "24 \<le> length bs" "length bs \<le> 65536" by fact+
qed

lemma record_crc_record_bytes:
  "current_record_crc (record_bytes schema reserved generation psize crc payload) =
     crc32 (write_integer schema @ write_integer reserved @ write_integer generation @
            write_integer psize @ payload)"
  by (simp add: current_record_crc_def crc32_def) (simp add: record_bytes_def)

lemma encode_record_Some_iff:
  "encode_record s generation = Some bs \<longleftrightarrow>
     validate_snapshot s \<and>
     (\<exists>payload. encode_payload s = Some payload \<and> length payload + 24 \<le> 65536 \<and>
        bs = record_bytes 2 0 generation (word_of_nat (length payload))
               (crc32 (write_integer (2 :: u16) @ write_integer (0 :: u16) @
                  write_integer generation @
                  write_integer (word_of_nat (length payload) :: u32) @ payload)) payload)"
  by (auto simp: encode_record_def record_bytes_def bind_eq_Some_conv Let_def not_less split: if_splits)

section \<open>Sizes\<close>

lemma valid_string_length: "valid_string s n \<Longrightarrow> length s \<le> n"
  by (simp add: valid_string_def)

lemma valid_string_write:
  "valid_string s n \<Longrightarrow> n \<le> 65535 \<Longrightarrow> \<exists>bs. write_string s = Some bs \<and> length bs \<le> 2 + n"
  by (auto simp: valid_string_def write_string_def)

lemma valid_optional_string_write:
  "valid_optional_string s n \<Longrightarrow> n \<le> 65535 \<Longrightarrow> \<exists>bs. write_string s = Some bs \<and> length bs \<le> 2 + n"
  by (auto simp: valid_optional_string_def write_string_def dest: valid_string_length)

text \<open>Writing a list of elements that are each written within \<open>k\<close> bytes.\<close>

lemma put_counted_bounded:
  assumes "\<And>x. x \<in> set xs \<Longrightarrow> \<exists>bs. put x = Some bs \<and> length bs \<le> k" and "length xs \<le> n"
  shows "\<exists>bs. put_counted put xs = Some bs \<and> length bs \<le> 2 + n * k"
proof -
  obtain us where us: "put_all put xs = Some us" using put_all_defined assms(1) by metis
  have "length us \<le> length xs * k"
    by (rule length_put_all [OF _ us]) (use assms(1) in fastforce)
  also have "\<dots> \<le> n * k" using assms(2) by (rule mult_le_mono1)
  finally show ?thesis using us by (simp add: put_counted_def)
qed

lemma put_active_bounded:
  assumes "valid_active a"
  shows "\<exists>bs. put_active a = Some bs \<and> length bs \<le> 329"
proof -
  obtain b1 where b1: "write_string (ao_alarm_id a) = Some b1" "length b1 \<le> 66"
    using assms valid_string_write [of "ao_alarm_id a" 64] by (auto simp: valid_active_def)
  obtain b2 where b2: "write_string (ao_occurrence_id a) = Some b2" "length b2 \<le> 162"
    using assms valid_string_write [of "ao_occurrence_id a" 160] by (auto simp: valid_active_def)
  obtain b3 where b3: "write_string (ao_last_recovery_boot_id a) = Some b3" "length b3 \<le> 66"
    using assms valid_optional_string_write [of "ao_last_recovery_boot_id a" 64]
    by (auto simp: valid_active_def)
  show ?thesis
    using b1 b2 b3 by (cases "ao_snooze_deadline_monotonic_seconds a")
      (simp_all add: put_active_def put_optional_def)
qed

lemma valid_occurrence_state_written:
  assumes "valid_occurrence_state st" and "length (ps_terminal st) \<le> 32"
    and "length (ps_watermarks st) \<le> 32"
  shows "\<exists>bs. write_occurrence_state st = Some bs \<and> length bs \<le> 7918"
proof -
  obtain a where "put_optional put_active (ps_active st) = Some a" "length a \<le> 330"
    using assms(1) put_active_bounded
    by (cases "ps_active st") (fastforce simp: put_optional_def valid_occurrence_state_def)+
  moreover have "\<exists>bs. put_terminal t = Some bs \<and> length bs \<le> 163" if "t \<in> set (ps_terminal st)" for t
    using that assms(1) valid_string_write [of "to_occurrence_id t" 160]
    by (fastforce simp: valid_occurrence_state_def list_all_iff put_terminal_def)
  then obtain t where "put_counted put_terminal (ps_terminal st) = Some t" "length t \<le> 2 + 32 * 163"
    using put_counted_bounded [OF _ assms(2)] by metis
  moreover have "\<exists>bs. put_watermark w = Some bs \<and> length bs \<le> 74" if "w \<in> set (ps_watermarks st)" for w
    using that assms(1) valid_string_write [of "hw_alarm_id w" 64]
    by (fastforce simp: valid_occurrence_state_def list_all_iff put_watermark_def)
  then obtain w where "put_counted put_watermark (ps_watermarks st) = Some w" "length w \<le> 2 + 32 * 74"
    using put_counted_bounded [OF _ assms(3)] by metis
  ultimately show ?thesis by (simp add: write_occurrence_state_def)
qed

text \<open>
  The largest valid snapshot takes 10650 payload bytes, so the 64 KiB guard of the encoder
  is never the reason for a refusal.
\<close>

lemma validate_snapshot_written:
  assumes "validate_snapshot s"
  shows "\<exists>payload. encode_payload s = Some payload \<and> length payload \<le> 10650"
proof -
  obtain rules where "write_string (ss_timezone_rules_version s) = Some rules" "length rules \<le> 66"
    using assms valid_string_write [of "ss_timezone_rules_version s" 64]
    by (auto simp: validate_snapshot_def)
  moreover have "\<exists>bs. put_alarm a = Some bs \<and> length bs \<le> 83" if "a \<in> set (ss_alarms s)" for a
    using that assms valid_string_write [of "sa_id a" 64]
    by (fastforce simp: validate_snapshot_def valid_alarms_def list_all_iff put_alarm_def)
  then obtain alarms where "put_counted put_alarm (ss_alarms s) = Some alarms"
    "length alarms \<le> 2 + 32 * 83"
    using put_counted_bounded [of "ss_alarms s" put_alarm 83 32] assms
    by (auto simp: validate_snapshot_def)
  moreover obtain journal where "write_occurrence_state (ss_occurrence_state s) = Some journal"
    "length journal \<le> 7918"
    using valid_occurrence_state_written [of "ss_occurrence_state s"] assms
    by (auto simp: validate_snapshot_def not_less)
  ultimately show ?thesis by (simp add: encode_payload_def)
qed

section \<open>The codec theorems\<close>

text \<open>
  Encoding succeeds on exactly the snapshots that validation accepts, so no valid schedule
  is ever refused for its size or its string lengths.
\<close>

theorem encode_record_total: "encode_record s generation \<noteq> None \<longleftrightarrow> validate_snapshot s"
  using validate_snapshot_written [of s]
  by (fastforce simp: encode_record_def Let_def split: if_splits)

lemma header_size_exact:
  "n \<le> 65536 \<Longrightarrow> unat (word_of_nat n :: u32) = n"
  by (simp add: unat_of_nat)

lemma decode_encoded:
  assumes "encode_record s generation = Some bs" and "generation \<noteq> 0"
  shows "decode_record bs = Some \<lparr>dr_snapshot = s, dr_generation = generation, dr_migrated = False\<rparr>"
proof -
  obtain payload where valid: "validate_snapshot s" and payload: "encode_payload s = Some payload"
    and len: "length payload + 24 \<le> 65536"
    and bs: "bs = record_bytes 2 0 generation (word_of_nat (length payload))
       (crc32 (write_integer (2 :: u16) @ write_integer (0 :: u16) @ write_integer generation @
          write_integer (word_of_nat (length payload) :: u32) @ payload)) payload"
    using assms(1) by (auto simp: encode_record_Some_iff)
  show ?thesis
    using assms(2) decode_encode_payload [OF payload valid] len
    by (simp add: decode_record_def bs read_header_record_bytes header_size_exact
        record_crc_record_bytes)
qed

lemma encoded_decoded:
  assumes "decode_record bs = Some r" and "\<not> dr_migrated r"
  shows "encode_record (dr_snapshot r) (dr_generation r) = Some bs" and "dr_generation r \<noteq> 0"
proof -
  obtain generation psize crc where h: "read_header bs = Some (2, 0, generation, psize, crc)"
    and g: "generation \<noteq> 0" and psize: "unat psize = length bs - 24"
    and crc: "crc = current_record_crc bs"
    and p: "decode_payload 2 (drop 24 bs) = Some (dr_snapshot r)" and r: "dr_generation r = generation"
    using assms by (auto simp: decode_record_def bind_eq_Some_conv Let_def split: if_splits)
  note payload = encode_decode_payload [OF p] and shape = read_header_SomeD [OF h]
  define P where "P = drop 24 bs"
  have bs: "bs = record_bytes 2 0 generation psize crc P" using shape(1) by (simp only: P_def)
  have size: "word_of_nat (length P) = psize"
    using psize by (simp add: P_def flip: psize)
  have "crc = crc32 (write_integer (2 :: u16) @ write_integer (0 :: u16) @
      write_integer generation @ write_integer psize @ P)"
    by (rule trans [OF crc trans [OF arg_cong [OF bs, of current_record_crc] record_crc_record_bytes]])
  note bs [unfolded this]
  moreover have "length P + 24 \<le> 65536" using shape(2,3) by (simp add: P_def)
  ultimately show "encode_record (dr_snapshot r) (dr_generation r) = Some bs"
    using payload unfolding encode_record_Some_iff r P_def [symmetric] by (metis size)
  show "dr_generation r \<noteq> 0" using g r by simp
qed

text \<open>
  C8: the encoder and the decoder are inverse to each other: a byte string decodes as a
  current-schema record with a given snapshot and generation exactly when it is the encoder's
  output for them and the generation is not 0, so a stored schedule is read back unchanged
  and every accepted record is canonical.
\<close>

theorem record_roundtrip:
  "decode_record bs = Some \<lparr>dr_snapshot = s, dr_generation = generation, dr_migrated = False\<rparr> \<longleftrightarrow>
     generation \<noteq> 0 \<and> encode_record s generation = Some bs"
  using decode_encoded encoded_decoded
    [of bs "\<lparr>dr_snapshot = s, dr_generation = generation, dr_migrated = False\<rparr>"]
  by auto

text \<open>What the decoder accepts is valid, of either schema, and never a future record.\<close>

lemma decode_record_valid:
  assumes "decode_record bs = Some r"
  shows "validate_snapshot (dr_snapshot r)" and "dr_generation r \<noteq> 0"
  using assms
  by (auto simp: decode_record_def decode_payload_def bind_eq_Some_conv Let_def split: if_splits)

lemma future_not_decoded:
  "intact_future_schema_generation bs = Some g \<Longrightarrow> decode_record bs = None"
  by (auto simp: intact_future_schema_generation_def decode_record_def bind_eq_Some_conv
      split: if_splits)

lemma encoded_not_future:
  "encode_record s g = Some bs \<Longrightarrow> intact_future_schema_generation bs = None"
  by (auto simp: encode_record_Some_iff intact_future_schema_generation_def read_header_record_bytes)

section \<open>Damage\<close>

lemma encoded_crc:
  assumes "encode_record s g = Some bs"
  shows "take 4 (drop 20 bs) = write_integer (current_record_crc bs)"
proof -
  obtain psize payload where "bs = record_bytes 2 0 g psize
      (crc32 (write_integer (2 :: u16) @ write_integer (0 :: u16) @ write_integer g @
         write_integer psize @ payload)) payload"
    using assms by (auto simp: encode_record_Some_iff)
  then obtain crc where bs: "bs = record_bytes 2 0 g psize crc payload" and "crc = current_record_crc bs"
    by (metis record_crc_record_bytes)
  moreover have "take 4 (drop 20 bs) = write_integer crc"
    by (simp add: bs) (simp add: record_bytes_def)
  ultimately show ?thesis by simp
qed

lemma encoded_magic: "encode_record s g = Some bs \<Longrightarrow> take 4 bs = kMagic"
  by (auto simp: encode_record_Some_iff record_bytes_def)

lemma encoded_take6:
  assumes "encode_record s g = Some bs" and "24 \<le> length bs'" and "take 6 bs' = take 6 bs"
    and "decode_record bs' = Some r"
  shows "\<not> dr_migrated r"
proof -
  obtain psize crc payload where bs: "bs = record_bytes 2 0 g psize crc payload"
    using assms(1) by (auto simp: encode_record_Some_iff)
  obtain schema reserved g' psize' crc' where h: "read_header bs' = Some (schema, reserved, g', psize', crc')"
    and m: "dr_migrated r \<longleftrightarrow> schema \<noteq> 2"
    using assms(4) by (auto simp: decode_record_def bind_eq_Some_conv Let_def split: if_splits)
  have "take 6 bs' = kMagic @ write_integer schema"
    by (subst read_header_SomeD(1) [OF h]) (simp add: record_bytes_def)
  moreover have "take 6 bs = kMagic @ write_integer (2 :: u16)"
    by (simp add: bs) (simp add: record_bytes_def)
  ultimately have "schema = 2" using assms(3) wire_u16.put_inject by fastforce
  with m show ?thesis by simp
qed

lemma current_record_crc_burst:
  assumes "length us = length vs" and "length us \<le> 4" and "us \<noteq> vs"
    and "(4 \<le> length b \<and> length b + length us \<le> 20) \<or> 24 \<le> length b"
  shows "current_record_crc (b @ us @ a) \<noteq> current_record_crc (b @ vs @ a)"
  using assms(4)
proof
  assume "4 \<le> length b \<and> length b + length us \<le> 20"
  then have "4 \<le> length b" and "length b + length us \<le> 20" by simp_all
  then have split: "take 16 (drop 4 (b @ w @ a)) = drop 4 b @ w @ take (20 - length b - length w) a"
    "drop 24 (b @ w @ a) = drop (24 - length b - length w) a" if "length w = length us" for w
    using that by simp_all
  show ?thesis
    unfolding current_record_crc_def bit.compl_eq_compl_iff split [OF refl]
      split [OF assms(1) [symmetric]] assms(1) update_crc32_inject
    by (rule crc_detects_bursts [OF assms(1-3)])
next
  assume pos: "24 \<le> length b"
  then have split: "take 16 (drop 4 (b @ w @ a)) = take 16 (drop 4 b)"
    "drop 24 (b @ w @ a) = drop 24 b @ w @ a" for w
    by simp_all
  show ?thesis
    unfolding current_record_crc_def bit.compl_eq_compl_iff split
    by (rule crc_detects_bursts [OF assms(1-3)])
qed

text \<open>
  C9: a stored record in which a burst of at most four consecutive bytes was damaged is never
  decoded, wherever in the payload, the checksum, the generation, the size or the magic the
  burst lies. Only the schema field is excepted: another schema selects another checksum rule.
\<close>

theorem damaged_record_refused:
  assumes "encode_record s g = Some (before @ burst @ after)"
    and "length burst' = length burst" and "length burst \<le> 4" and "burst' \<noteq> burst"
    and "length before + length burst \<le> 4 \<or>
         (6 \<le> length before \<and> length before + length burst \<le> 20) \<or>
         (20 \<le> length before \<and> length before + length burst \<le> 24) \<or> 24 \<le> length before"
  shows "decode_record (before @ burst' @ after) = None"
proof (rule ccontr)
  let ?good = "before @ burst @ after" and ?bad = "before @ burst' @ after"
  assume "decode_record ?bad \<noteq> None"
  then obtain r where r: "decode_record ?bad = Some r" by blast
  note magic = encoded_magic [OF assms(1)]
  have long: "24 \<le> length ?bad" and magic': "take 4 ?bad = kMagic"
    using r by (auto simp: decode_record_def read_header_def bind_eq_Some_conv split: if_splits)
  have outside: "\<not> length before + length burst \<le> 4"
    using magic magic' assms(2,4) by (auto simp flip: magic)
  then have six: "6 \<le> length before" using assms(5) by auto
  then have "take 6 ?bad = take 6 ?good" by simp
  from encoded_decoded(1) [OF r encoded_take6 [OF assms(1) long this r]]
  have crc: "take 4 (drop 20 ?bad) = write_integer (current_record_crc ?bad)" by (rule encoded_crc)
  note good = encoded_crc [OF assms(1)]
  from assms(5) outside six consider
      (covered) "(4 \<le> length before \<and> length before + length burst \<le> 20) \<or> 24 \<le> length before"
    | (stored) "20 \<le> length before \<and> length before + length burst \<le> 24" by linarith
  then show False
  proof cases
    case covered
    then have "take 4 (drop 20 ?bad) = take 4 (drop 20 ?good)" using assms(2) by auto
    with crc good have "current_record_crc ?bad = current_record_crc ?good"
      using wire_u32.put_inject by metis
    then show False
      using current_record_crc_burst [OF assms(2) _ assms(4)] covered assms(2,3) by simp
  next
    case stored
    then have "20 \<le> length before" "length before + length burst \<le> 24" by simp_all
    then have "take 16 (drop 4 ?bad) = take 16 (drop 4 ?good)" "drop 24 ?bad = drop 24 ?good"
      using assms(2) by simp_all
    then have "current_record_crc ?bad = current_record_crc ?good"
      unfolding current_record_crc_def by (simp only:)
    with crc good have "take 4 (drop 20 ?bad) = take 4 (drop 20 ?good)" by simp
    with \<open>20 \<le> length before\<close> \<open>length before + length burst \<le> 24\<close> assms(2,4) show False by simp
  qed
qed

text \<open>A concrete schedule, the input of the witnesses.\<close>

definition sample_snapshot :: schedule_snapshot where
  "sample_snapshot =
     \<lparr>ss_revision = 1, ss_timezone_rules_version = ''2026a'',
      ss_alarms = [\<lparr>sa_id = ''wake'', sa_schedule_revision = 1, sa_enabled = True,
                    sa_scheduled_utc_seconds = 1000\<rparr>],
      ss_occurrence_state = \<lparr>ps_active = None, ps_terminal = [], ps_watermarks = []\<rparr>\<rparr>"

theorem damaged_record_refused_witness:
  "\<exists>before after. length before = 24 \<and> encode_record sample_snapshot 1 = Some (before @ [1] @ after) \<and>
     decode_record (before @ [3] @ after) = None"
proof -
  have "validate_snapshot sample_snapshot" by code_simp
  then obtain bs where bs: "encode_record sample_snapshot 1 = Some bs"
    using encode_record_total by blast
  then obtain payload where payload: "encode_payload sample_snapshot = Some payload"
    and drop24: "drop 24 bs = payload" and len: "24 \<le> length bs"
    by (auto simp: encode_record_Some_iff)
  obtain after where "payload = [1] @ after"
    using payload
    by (auto simp: encode_payload_def bind_eq_Some_conv sample_snapshot_def write_integer_def
        upt_rec [of 0])
  then have enc: "encode_record sample_snapshot 1 = Some (take 24 bs @ [1] @ after)"
    using bs drop24 append_take_drop_id [of 24 bs] by simp
  have "decode_record (take 24 bs @ [3] @ after) = None"
    by (rule damaged_record_refused [OF enc]) (use len in simp_all)
  with enc len show ?thesis by (intro exI [of _ "take 24 bs"] exI [of _ after]) simp
qed

section \<open>The journals of the engine are storable\<close>

lemma byte_control_iff: "(byte_of_char c = 0 \<or> byte_of_char c < 0x20) \<longleftrightarrow> (of_char c :: nat) < 32"
proof -
  have "(of_char c :: nat) < 256" by simp
  then have "unat (byte_of_char c) = of_char c" by (simp add: byte_of_char_def unat_of_nat)
  then show ?thesis by (auto simp: word_less_nat_alt unsigned_eq_0_iff [symmetric])
qed

lemma valid_string_iff:
  "valid_string s n \<longleftrightarrow> s \<noteq> [] \<and> length s \<le> n \<and> (\<forall>c \<in> set s. 32 \<le> (of_char c :: nat))"
  by (auto simp: valid_string_def list_ex_iff Let_def byte_control_iff not_less)

lemma make_occurrence_id_valid:
  assumes "valid_string (ad_id alarm) kMaximumAlarmIdBytes"
  shows "valid_string (make_occurrence_id alarm) kMaximumOccurrenceIdBytes"
  using assms length_to_string_u64 [of "ad_schedule_revision alarm"]
    length_to_string_i64 [of "ad_scheduled_utc_seconds alarm"]
  by (auto simp: valid_string_iff make_occurrence_id_def
      dest!: to_string_u64_chars to_string_i64_chars)

definition texts_ok :: "persistent_alarm_state \<Rightarrow> bool" where
  "texts_ok st \<longleftrightarrow>
     (\<forall>a. ps_active st = Some a \<longrightarrow> valid_string (ao_alarm_id a) kMaximumAlarmIdBytes \<and>
        valid_string (ao_occurrence_id a) kMaximumOccurrenceIdBytes \<and>
        valid_optional_string (ao_last_recovery_boot_id a) kMaximumBootIdBytes) \<and>
     (\<forall>occ \<in> to_occurrence_id ` set (ps_terminal st). valid_string occ kMaximumOccurrenceIdBytes) \<and>
     (\<forall>alarm_id \<in> hw_alarm_id ` set (ps_watermarks st). valid_string alarm_id kMaximumAlarmIdBytes)"

lemma valid_occurrence_state_iff:
  "journal_ok st \<Longrightarrow> valid_occurrence_state st \<longleftrightarrow> texts_ok st"
  by (cases "ps_active st")
    (auto simp: journal_ok_def active_ok_def valid_occurrence_state_def valid_active_def texts_ok_def
      list_all_iff not_less image_iff split: option.splits)

lemma texts_ok_settle:
  assumes "texts_ok st" and "valid_string a kMaximumAlarmIdBytes"
    and "valid_string occ kMaximumOccurrenceIdBytes"
  shows "texts_ok ((settle_terminal st a occ t r)\<lparr>ps_active := None\<rparr>)"
    and "texts_ok (settle_terminal st a occ t r)"
proof -
  have ids: "hw_alarm_id ` set (raise_watermark a t ws) = insert a (hw_alarm_id ` set ws)" for ws
    by (induction a t ws rule: raise_watermark.induct) auto
  show "texts_ok ((settle_terminal st a occ t r)\<lparr>ps_active := None\<rparr>)"
    and "texts_ok (settle_terminal st a occ t r)"
    using assms append_terminal_ids [of "record_terminal_high_watermark st a t"
        "\<lparr>to_occurrence_id = occ, to_reason = r\<rparr>"]
    by (auto simp: texts_ok_def ids simp del: image_iff)
qed

text \<open>The operation's own strings: the alarm identifier and the boot identifier it brings.\<close>

fun op_texts_ok :: "engine_op \<Rightarrow> bool" where
  "op_texts_ok (Op_due alarm _ _ _) = valid_string (ad_id alarm) kMaximumAlarmIdBytes"
| "op_texts_ok (Op_recover _ boot_id) = valid_optional_string boot_id kMaximumBootIdBytes"
| "op_texts_ok _ = True"

lemma texts_ok_update_active:
  "texts_ok (st\<lparr>ps_active := v\<rparr>) \<longleftrightarrow> texts_ok (st\<lparr>ps_active := None\<rparr>) \<and>
     (\<forall>a. v = Some a \<longrightarrow> valid_string (ao_alarm_id a) kMaximumAlarmIdBytes \<and>
        valid_string (ao_occurrence_id a) kMaximumOccurrenceIdBytes \<and>
        valid_optional_string (ao_last_recovery_boot_id a) kMaximumBootIdBytes)"
  by (auto simp: texts_ok_def)

lemma texts_ok_activeD:
  "texts_ok st \<Longrightarrow> ps_active st = Some a \<Longrightarrow>
     valid_string (ao_alarm_id a) kMaximumAlarmIdBytes \<and>
     valid_string (ao_occurrence_id a) kMaximumOccurrenceIdBytes \<and>
     valid_optional_string (ao_last_recovery_boot_id a) kMaximumBootIdBytes"
  by (simp add: texts_ok_def)

lemma texts_ok_inactive: "texts_ok st \<Longrightarrow> texts_ok (st\<lparr>ps_active := None\<rparr>)"
  by (simp add: texts_ok_def)

lemma engine_apply_texts:
  assumes "texts_ok st" and "op_texts_ok op"
  shows "texts_ok (snd (engine_apply op st))"
proof -
  note act = texts_ok_activeD [OF assms(1)]
  show ?thesis
  proof (cases op)
    case (Op_due alarm wall mt valid)
    with assms show ?thesis
      by (auto simp: evaluate_due_def Let_def texts_ok_update_active [where v = "Some _"]
          make_occurrence_id_valid valid_optional_string_def
          intro!: texts_ok_settle texts_ok_inactive split: option.splits)
  qed (use assms in \<open>auto simp: request_snooze_def advance_active_def
      dismiss_active_def recover_after_reboot_def Let_def
      texts_ok_update_active [where v = "Some _"]
      intro!: texts_ok_settle texts_ok_inactive dest: act split: option.splits\<close>)
qed

text \<open>
  Whatever the engine does to the journal of a stored schedule, the result is again a
  schedule that the store accepts, provided the alarm and boot identifiers it is given are
  themselves acceptable: an engine decision is never lost because it cannot be encoded.
\<close>

theorem engine_journal_storable:
  assumes "validate_snapshot s" and "journal_ok (ss_occurrence_state s)" and "op_texts_ok op"
  shows "encode_record (s\<lparr>ss_occurrence_state := snd (engine_apply op (ss_occurrence_state s))\<rparr>)
           generation \<noteq> None"
proof -
  let ?st = "snd (engine_apply op (ss_occurrence_state s))"
  have ok: "journal_ok ?st" using assms(2) by (rule engine_apply_ok)
  have "texts_ok (ss_occurrence_state s)"
    using assms(1,2) by (simp add: validate_snapshot_def valid_occurrence_state_iff)
  then have "valid_occurrence_state ?st"
    using ok assms(3) by (simp add: valid_occurrence_state_iff engine_apply_texts)
  then have "validate_snapshot (s\<lparr>ss_occurrence_state := ?st\<rparr>)"
    using assms(1) ok by (simp add: validate_snapshot_def valid_alarms_def journal_ok_def)
  then show ?thesis using encode_record_total by blast
qed

theorem engine_journal_storable_witness:
  "encode_record (sample_snapshot\<lparr>ss_occurrence_state := snd (engine_apply
       (Op_due \<lparr>ad_id = ''wake'', ad_schedule_revision = 1, ad_enabled = True,
                ad_scheduled_utc_seconds = 1000\<rparr> 1005 7 True)
       (ss_occurrence_state sample_snapshot))\<rparr>) 2 \<noteq> None"
proof (rule engine_journal_storable)
  show "validate_snapshot sample_snapshot" by code_simp
  show "journal_ok (ss_occurrence_state sample_snapshot)"
    by (simp add: sample_snapshot_def journal_ok_def)
  show "op_texts_ok (Op_due \<lparr>ad_id = ''wake'', ad_schedule_revision = 1, ad_enabled = True,
      ad_scheduled_utc_seconds = 1000\<rparr> 1005 7 True)" by code_simp
qed

end
