(* ===== verification/Schedule_Store.thy ===== *)
theory Schedule_Store
  imports Record_Codec
begin

text \<open>
  The rest of \<open>schedule_store.cpp\<close> and \<open>schedule_store.hpp\<close>: the abstract slot backend
  \<open>SlotStorage\<close> and the operations of \<open>AtomicScheduleStore\<close> over it. A backend is a record of
  its four virtual functions on a state of any type; every call threads that state, so a
  backend may fail, or change its state, at any call. The lemmas about them are in
  \<open>Store_Contract\<close>.
\<close>

section \<open>The backend interface and the results\<close>

datatype storage_slot = Slot_a | Slot_b

datatype slot_read_result = Read_empty | Read_present bytes | Read_io_error

record 's slot_storage =
  begin_transaction :: "'s \<Rightarrow> bool \<times> 's"
  end_transaction :: "'s \<Rightarrow> 's"
  read_slot :: "storage_slot \<Rightarrow> 's \<Rightarrow> slot_read_result \<times> 's"
  write_slot :: "storage_slot \<Rightarrow> bytes \<Rightarrow> 's \<Rightarrow> bool \<times> 's"

datatype load_status =
    LS_empty
  | LS_loaded
  | LS_corrupt
  | LS_unsupported_schema
  | LS_ambiguous
  | LS_io_error

datatype store_status =
    SS_stored
  | SS_unchanged
  | SS_revision_conflict
  | SS_generation_conflict
  | SS_invalid_snapshot
  | SS_corrupt_store
  | SS_io_error
  | SS_verification_failed

record load_result =
  lr_status :: load_status
  lr_snapshot :: schedule_snapshot
  lr_generation :: u64
  lr_source :: storage_slot
  lr_migrated :: bool
  lr_corruption_detected :: bool

record store_result =
  sr_status :: store_status
  sr_generation :: u64
  sr_destination :: storage_slot

text \<open>The default member initialisers.\<close>

definition default_snapshot :: schedule_snapshot where
  "default_snapshot =
     \<lparr>ss_revision = 0, ss_timezone_rules_version = [], ss_alarms = [],
      ss_occurrence_state = empty_journal\<rparr>"

definition default_load :: load_result where
  "default_load =
     \<lparr>lr_status = LS_empty, lr_snapshot = default_snapshot, lr_generation = 0,
      lr_source = Slot_a, lr_migrated = False, lr_corruption_detected = False\<rparr>"

definition default_store :: store_result where
  "default_store = \<lparr>sr_status = SS_io_error, sr_generation = 0, sr_destination = Slot_a\<rparr>"

fun opposite :: "storage_slot \<Rightarrow> storage_slot" where
  "opposite slot = (if slot = Slot_a then Slot_b else Slot_a)"

section \<open>Loading\<close>

text \<open>The locals of \<open>load_unlocked\<close> that live across the iterations of its loop.\<close>

record load_scan =
  sc_result :: load_result
  sc_any_present :: bool
  sc_invalid_present :: bool
  sc_ambiguous :: bool
  sc_future_generation :: "u64 option"

definition initial_scan :: load_scan where
  "initial_scan =
     \<lparr>sc_result = default_load, sc_any_present = False, sc_invalid_present = False,
      sc_ambiguous = False, sc_future_generation = None\<rparr>"

definition scan_record :: "storage_slot \<Rightarrow> bytes \<Rightarrow> load_scan \<Rightarrow> load_scan" where
  "scan_record slot bs scan0 =
    (let scan = scan0\<lparr>sc_any_present := True\<rparr>; result = sc_result scan in
     case intact_future_schema_generation bs of
       Some unsupported \<Rightarrow>
         (case sc_future_generation scan of
            None \<Rightarrow> scan\<lparr>sc_future_generation := Some unsupported\<rparr>
          | Some future \<Rightarrow>
              if future < unsupported then scan\<lparr>sc_future_generation := Some unsupported\<rparr> else scan)
     | None \<Rightarrow>
         (case decode_record bs of
            None \<Rightarrow> scan\<lparr>sc_invalid_present := True\<rparr>
          | Some decoded \<Rightarrow>
              if lr_status result = LS_loaded \<and> dr_generation decoded = lr_generation result \<and>
                 (dr_migrated decoded \<noteq> lr_migrated result \<or>
                  \<not> snapshots_equal (dr_snapshot decoded) (lr_snapshot result))
              then scan\<lparr>sc_ambiguous := True\<rparr>
              else if lr_status result \<noteq> LS_loaded \<or> lr_generation result < dr_generation decoded
              then scan\<lparr>sc_result := result\<lparr>lr_status := LS_loaded,
                     lr_snapshot := dr_snapshot decoded, lr_generation := dr_generation decoded,
                     lr_source := slot, lr_migrated := dr_migrated decoded\<rparr>,
                   sc_ambiguous := False\<rparr>
              else scan))"

text \<open>The loop over the slots; \<open>Inl\<close> is the early return on a read error.\<close>

fun scan_slots ::
    "'s slot_storage \<Rightarrow> storage_slot list \<Rightarrow> load_scan \<Rightarrow> 's \<Rightarrow> (load_result + load_scan) \<times> 's" where
  "scan_slots storage [] scan s = (Inr scan, s)"
| "scan_slots storage (slot # slots) scan s =
     (case read_slot storage slot s of
        (Read_io_error, s) \<Rightarrow> (Inl (default_load\<lparr>lr_status := LS_io_error\<rparr>), s)
      | (Read_empty, s) \<Rightarrow> scan_slots storage slots scan s
      | (Read_present bs, s) \<Rightarrow> scan_slots storage slots (scan_record slot bs scan) s)"

definition finish_scan :: "load_scan \<Rightarrow> load_result" where
  "finish_scan scan =
    (let result = sc_result scan;
         newer_future = (case sc_future_generation scan of
            None \<Rightarrow> None
          | Some future \<Rightarrow> if lr_status result \<noteq> LS_loaded \<or> lr_generation result \<le> future
                          then Some future else None)
     in case newer_future of
          Some future \<Rightarrow>
            default_load\<lparr>lr_status := LS_unsupported_schema, lr_generation := future\<rparr>
        | None \<Rightarrow>
            if sc_ambiguous scan then result\<lparr>lr_status := LS_ambiguous\<rparr>
            else if lr_status result = LS_loaded
            then result\<lparr>lr_corruption_detected := sc_invalid_present scan\<rparr>
            else if sc_any_present scan then result\<lparr>lr_status := LS_corrupt\<rparr>
            else result)"

definition load_unlocked :: "'s slot_storage \<Rightarrow> 's \<Rightarrow> load_result \<times> 's" where
  "load_unlocked storage s =
    (case scan_slots storage [Slot_a, Slot_b] initial_scan s of
       (Inl failed, s) \<Rightarrow> (failed, s)
     | (Inr scan, s) \<Rightarrow> (finish_scan scan, s))"

text \<open>
  \<open>StorageTransaction\<close>: the constructor begins the transaction, the body runs when that
  succeeded, and the destructor ends it on every path.
\<close>

definition in_transaction ::
    "'s slot_storage \<Rightarrow> 'r \<Rightarrow> ('s \<Rightarrow> 'r \<times> 's) \<Rightarrow> 's \<Rightarrow> 'r \<times> 's" where
  "in_transaction storage refused body s =
    (case begin_transaction storage s of
       (False, s) \<Rightarrow> (refused, s)
     | (True, s) \<Rightarrow> (case body s of (r, s) \<Rightarrow> (r, end_transaction storage s)))"

definition load :: "'s slot_storage \<Rightarrow> 's \<Rightarrow> load_result \<times> 's" where
  "load storage =
     in_transaction storage (default_load\<lparr>lr_status := LS_io_error\<rparr>) (load_unlocked storage)"

section \<open>Committing\<close>

text \<open>
  The block that ends the three writing operations: replace the destination slot, read it
  back, and accept it only when it decodes to the generation and the snapshot just encoded.
  \<open>also_migrated\<close> is the extra \<open>verified->migrated\<close> test of the migration.
\<close>

definition write_and_verify ::
    "'s slot_storage \<Rightarrow> bool \<Rightarrow> schedule_snapshot \<Rightarrow> u64 \<Rightarrow> u64 \<Rightarrow> storage_slot \<Rightarrow> 's \<Rightarrow>
     store_result \<times> 's" where
  "write_and_verify storage also_migrated snapshot generation current_generation destination s =
    (let failed = (\<lambda>status. \<lparr>sr_status = status, sr_generation = current_generation,
                            sr_destination = destination\<rparr>)
     in case encode_record snapshot generation of
          None \<Rightarrow> (failed SS_invalid_snapshot, s)
        | Some encoded \<Rightarrow>
           (case write_slot storage destination encoded s of
              (False, s) \<Rightarrow> (failed SS_io_error, s)
            | (True, s) \<Rightarrow>
               (case read_slot storage destination s of
                  (Read_io_error, s) \<Rightarrow> (failed SS_io_error, s)
                | (written, s) \<Rightarrow>
                   (case (case written of Read_present bs \<Rightarrow> decode_record bs | _ \<Rightarrow> None) of
                      None \<Rightarrow> (failed SS_verification_failed, s)
                    | Some verified \<Rightarrow>
                       if (also_migrated \<and> dr_migrated verified) \<or>
                          dr_generation verified \<noteq> generation \<or>
                          \<not> snapshots_equal (dr_snapshot verified) snapshot
                       then (failed SS_verification_failed, s)
                       else (\<lparr>sr_status = SS_stored, sr_generation = generation,
                              sr_destination = destination\<rparr>, s)))))"

definition unusable :: "load_status \<Rightarrow> bool" where
  "unusable status \<longleftrightarrow>
     status = LS_corrupt \<or> status = LS_unsupported_schema \<or> status = LS_ambiguous"

definition migrate_to_current_schema :: "'s slot_storage \<Rightarrow> 's \<Rightarrow> store_result \<times> 's" where
  "migrate_to_current_schema storage =
     in_transaction storage (default_store\<lparr>sr_status := SS_io_error\<rparr>) (\<lambda>s.
       case load_unlocked storage s of (current, s) \<Rightarrow>
         if lr_status current = LS_io_error then (default_store\<lparr>sr_status := SS_io_error\<rparr>, s)
         else if unusable (lr_status current)
         then (default_store\<lparr>sr_status := SS_corrupt_store\<rparr>, s)
         else if lr_status current = LS_empty \<or> \<not> lr_migrated current
         then (\<lparr>sr_status = SS_unchanged, sr_generation = lr_generation current,
                sr_destination = lr_source current\<rparr>, s)
         else if lr_generation current = - 1
         then (\<lparr>sr_status = SS_invalid_snapshot, sr_generation = lr_generation current,
                sr_destination = lr_source current\<rparr>, s)
         else write_and_verify storage True (lr_snapshot current) (lr_generation current + 1)
                (lr_generation current) (opposite (lr_source current)) s)"

definition save ::
    "'s slot_storage \<Rightarrow> schedule_snapshot \<Rightarrow> u64 \<Rightarrow> 's \<Rightarrow> store_result \<times> 's" where
  "save storage snapshot expected_revision =
     in_transaction storage (default_store\<lparr>sr_status := SS_io_error\<rparr>) (\<lambda>s.
       case load_unlocked storage s of (current, s) \<Rightarrow>
         if lr_status current = LS_io_error then (default_store\<lparr>sr_status := SS_io_error\<rparr>, s)
         else if unusable (lr_status current)
         then (default_store\<lparr>sr_status := SS_corrupt_store\<rparr>, s)
         else
           let loaded = lr_status current = LS_loaded;
               current_revision = (if loaded then ss_revision (lr_snapshot current) else 0);
               committed =
                 (if loaded
                  then snapshot\<lparr>ss_occurrence_state := ss_occurrence_state (lr_snapshot current)\<rparr>
                  else snapshot);
               acknowledgement_loss_retry =
                 expected_revision \<noteq> - 1 \<and> expected_revision + 1 = current_revision
           in if loaded \<and> snapshots_equal (lr_snapshot current) committed \<and>
                 (expected_revision = current_revision \<or> acknowledgement_loss_retry)
              then (\<lparr>sr_status = SS_unchanged, sr_generation = lr_generation current,
                     sr_destination = lr_source current\<rparr>, s)
              else if current_revision \<noteq> expected_revision
              then (default_store\<lparr>sr_status := SS_revision_conflict,
                      sr_generation := lr_generation current\<rparr>, s)
              else if ss_revision committed \<noteq> expected_revision + 1 \<or> \<not> validate_snapshot committed
              then (default_store\<lparr>sr_status := SS_invalid_snapshot,
                      sr_generation := lr_generation current\<rparr>, s)
              else if lr_generation current + 1 = 0
              then (default_store\<lparr>sr_status := SS_invalid_snapshot,
                      sr_generation := lr_generation current\<rparr>, s)
              else write_and_verify storage False committed (lr_generation current + 1)
                     (lr_generation current)
                     (if loaded then opposite (lr_source current) else Slot_a) s)"

definition save_occurrence_state ::
    "'s slot_storage \<Rightarrow> persistent_alarm_state \<Rightarrow> u64 \<Rightarrow> u64 \<Rightarrow> 's \<Rightarrow> store_result \<times> 's" where
  "save_occurrence_state storage occurrence_state expected_revision expected_generation =
     in_transaction storage (default_store\<lparr>sr_status := SS_io_error\<rparr>) (\<lambda>s.
       case load_unlocked storage s of (current, s) \<Rightarrow>
         let answer = (\<lambda>status. \<lparr>sr_status = status, sr_generation = lr_generation current,
                                sr_destination = lr_source current\<rparr>)
         in
         if lr_status current = LS_io_error then (default_store\<lparr>sr_status := SS_io_error\<rparr>, s)
         else if unusable (lr_status current)
         then (default_store\<lparr>sr_status := SS_corrupt_store\<rparr>, s)
         else if lr_status current \<noteq> LS_loaded \<or>
                 ss_revision (lr_snapshot current) \<noteq> expected_revision
         then (answer SS_revision_conflict, s)
         else
           let updated = (lr_snapshot current)\<lparr>ss_occurrence_state := occurrence_state\<rparr>
           in if \<not> validate_snapshot updated then (answer SS_invalid_snapshot, s)
              else
                let acknowledgement_loss_retry =
                      expected_generation \<noteq> - 1 \<and>
                      expected_generation + 1 = lr_generation current
                in if snapshots_equal updated (lr_snapshot current) \<and>
                      (lr_generation current = expected_generation \<or> acknowledgement_loss_retry)
                   then (answer SS_unchanged, s)
                   else if lr_generation current \<noteq> expected_generation
                   then (answer SS_generation_conflict, s)
                   else if lr_generation current = - 1 then (answer SS_invalid_snapshot, s)
                   else write_and_verify storage False updated (lr_generation current + 1)
                          (lr_generation current) (opposite (lr_source current)) s)"

end
