(* ===== verification/Store_Contract.thy ===== *)
theory Store_Contract
  imports Schedule_Store
begin

text \<open>
  What the schedule store promises. The contents of the two slots have an abstract view: which
  record a load reports. The locale \<open>slot_backend\<close> states the little that the store needs of a
  backend (inside a transaction a read reports the slot or an error and a write leaves the
  other slot alone); everything about crash safety, compare-and-set and read-back follows from
  it. \<open>quiet_backend\<close> adds that beginning and ending a transaction do not touch the slots, but
  for a slot whose write was reported as failed.
\<close>

section \<open>The abstract view of two slots\<close>

datatype slot_content = Absent | Future u64 | Damaged | Record decoded_record

definition classify :: "bytes option \<Rightarrow> slot_content" where
  "classify content =
     (case content of
        None \<Rightarrow> Absent
      | Some bs \<Rightarrow>
         (case intact_future_schema_generation bs of
            Some g \<Rightarrow> Future g
          | None \<Rightarrow> (case decode_record bs of None \<Rightarrow> Damaged | Some d \<Rightarrow> Record d)))"

definition view :: "(storage_slot \<Rightarrow> bytes option) \<Rightarrow> load_result" where
  "view c =
     finish_scan (foldl (\<lambda>scan slot. case c slot of None \<Rightarrow> scan | Some bs \<Rightarrow> scan_record slot bs scan)
       initial_scan [Slot_a, Slot_b])"

definition loaded_from :: "storage_slot \<Rightarrow> decoded_record \<Rightarrow> bool \<Rightarrow> load_result" where
  "loaded_from slot d corrupt =
     \<lparr>lr_status = LS_loaded, lr_snapshot = dr_snapshot d, lr_generation = dr_generation d,
      lr_source = slot, lr_migrated = dr_migrated d, lr_corruption_detected = corrupt\<rparr>"

text \<open>When a record is reported although the other slot holds what it holds.\<close>

fun yields_to :: "slot_content \<Rightarrow> storage_slot \<Rightarrow> decoded_record \<Rightarrow> bool \<Rightarrow> bool" where
  "yields_to Absent slot d corrupt \<longleftrightarrow> \<not> corrupt"
| "yields_to (Future g) slot d corrupt \<longleftrightarrow> g < dr_generation d \<and> \<not> corrupt"
| "yields_to Damaged slot d corrupt \<longleftrightarrow> corrupt"
| "yields_to (Record d') slot d corrupt \<longleftrightarrow>
     (dr_generation d' < dr_generation d \<or> d' = d \<and> slot = Slot_a) \<and> \<not> corrupt"

lemma opposite_simps [simp]: "opposite Slot_a = Slot_b" "opposite Slot_b = Slot_a"
  by simp_all

declare opposite.simps [simp del]

lemma opposite_neq [simp]: "opposite slot \<noteq> slot" "slot \<noteq> opposite slot" "opposite (opposite slot) = slot"
  by (cases slot; simp)+

lemma neq_opposite: "slot' \<noteq> slot \<longleftrightarrow> slot' = opposite slot"
  by (cases slot; cases slot') simp_all

text \<open>One iteration of the scan in terms of the classification.\<close>

fun scan_content :: "storage_slot \<Rightarrow> slot_content \<Rightarrow> load_scan \<Rightarrow> load_scan" where
  "scan_content slot Absent scan = scan"
| "scan_content slot (Future g) scan =
     scan\<lparr>sc_any_present := True, sc_future_generation :=
       (case sc_future_generation scan of None \<Rightarrow> Some g | Some g' \<Rightarrow> Some (if g' < g then g else g'))\<rparr>"
| "scan_content slot Damaged scan = scan\<lparr>sc_any_present := True, sc_invalid_present := True\<rparr>"
| "scan_content slot (Record d) scan =
     (if lr_status (sc_result scan) = LS_loaded \<and> dr_generation d = lr_generation (sc_result scan) \<and>
         (dr_migrated d \<noteq> lr_migrated (sc_result scan) \<or> dr_snapshot d \<noteq> lr_snapshot (sc_result scan))
      then scan\<lparr>sc_any_present := True, sc_ambiguous := True\<rparr>
      else if lr_status (sc_result scan) \<noteq> LS_loaded \<or> lr_generation (sc_result scan) < dr_generation d
      then scan\<lparr>sc_any_present := True, sc_ambiguous := False,
             sc_result := loaded_from slot d (lr_corruption_detected (sc_result scan))\<rparr>
      else scan\<lparr>sc_any_present := True\<rparr>)"

lemma scan_record_content:
  "scan_record slot bs scan = scan_content slot (classify (Some bs)) scan"
  by (cases scan; cases "sc_result scan")
    (auto simp: scan_record_def classify_def loaded_from_def Let_def split: option.splits)

lemma view_classify:
  "view c = finish_scan (scan_content Slot_b (classify (c Slot_b))
              (scan_content Slot_a (classify (c Slot_a)) initial_scan))"
  by (auto simp: view_def scan_record_content classify_def split: option.splits)

lemma decoded_record_eqI:
  "dr_snapshot d = dr_snapshot d' \<Longrightarrow> dr_generation d = dr_generation d' \<Longrightarrow>
     dr_migrated d = dr_migrated d' \<Longrightarrow> d = (d' :: decoded_record)"
  by simp

lemma view_loaded_iff:
  "view c = loaded_from slot d corrupt \<longleftrightarrow>
     classify (c slot) = Record d \<and> yields_to (classify (c (opposite slot))) slot d corrupt"
  by (cases slot; cases "classify (c Slot_a)"; cases "classify (c Slot_b)")
    (auto simp: view_classify finish_scan_def initial_scan_def default_load_def loaded_from_def Let_def
      intro: decoded_record_eqI split: if_splits)

lemma view_loadedE:
  assumes "lr_status (view c) = LS_loaded"
  obtains slot d corrupt where "view c = loaded_from slot d corrupt"
proof
  show "view c = loaded_from (lr_source (view c))
      \<lparr>dr_snapshot = lr_snapshot (view c), dr_generation = lr_generation (view c),
       dr_migrated = lr_migrated (view c)\<rparr> (lr_corruption_detected (view c))"
    using assms by (simp add: loaded_from_def)
qed

lemma view_empty_iff:
  "lr_status (view c) = LS_empty \<longleftrightarrow> c Slot_a = None \<and> c Slot_b = None"
proof -
  have absent: "classify x = Absent \<longleftrightarrow> x = None" for x
    by (auto simp: classify_def split: option.splits)
  show ?thesis
    by (cases "classify (c Slot_a)"; cases "classify (c Slot_b)")
      (auto simp: view_classify finish_scan_def initial_scan_def default_load_def loaded_from_def
        Let_def absent [symmetric] split: if_splits)
qed

lemma view_empty: "lr_status (view c) = LS_empty \<Longrightarrow> view c = default_load"
  by (simp add: view_empty_iff)
    (simp add: view_def finish_scan_def initial_scan_def default_load_def Let_def)

lemma view_no_io_error: "lr_status (view c) \<noteq> LS_io_error"
  by (cases "classify (c Slot_a)"; cases "classify (c Slot_b)")
    (auto simp: view_classify finish_scan_def initial_scan_def default_load_def loaded_from_def Let_def
      split: if_splits)

section \<open>The common shape of the writing operations\<close>

text \<open>
  Each writing operation decides from the loaded record alone: either it answers at once, or it
  commits a snapshot under a generation to a slot.
\<close>

type_synonym decision = "store_result + schedule_snapshot \<times> u64 \<times> storage_slot"

definition transact ::
    "'s slot_storage \<Rightarrow> bool \<Rightarrow> (load_result \<Rightarrow> decision) \<Rightarrow> 's \<Rightarrow> store_result \<times> 's" where
  "transact storage also_migrated decide =
     in_transaction storage (default_store\<lparr>sr_status := SS_io_error\<rparr>) (\<lambda>s.
       case load_unlocked storage s of (current, s) \<Rightarrow>
         if lr_status current = LS_io_error then (default_store\<lparr>sr_status := SS_io_error\<rparr>, s)
         else case decide current of
                Inl answer \<Rightarrow> (answer, s)
              | Inr (snapshot, generation, destination) \<Rightarrow>
                  write_and_verify storage also_migrated snapshot generation
                    (lr_generation current) destination s)"

definition decide_migrate :: "load_result \<Rightarrow> decision" where
  "decide_migrate current =
    (let answer = (\<lambda>status. Inl \<lparr>sr_status = status, sr_generation = lr_generation current,
                               sr_destination = lr_source current\<rparr>) in
     if unusable (lr_status current) then Inl (default_store\<lparr>sr_status := SS_corrupt_store\<rparr>)
     else if lr_status current = LS_empty \<or> \<not> lr_migrated current then answer SS_unchanged
     else if lr_generation current = - 1 then answer SS_invalid_snapshot
     else Inr (lr_snapshot current, lr_generation current + 1, opposite (lr_source current)))"

definition carried_forward :: "load_result \<Rightarrow> schedule_snapshot \<Rightarrow> schedule_snapshot" where
  "carried_forward current snapshot =
     (if lr_status current = LS_loaded
      then snapshot\<lparr>ss_occurrence_state := ss_occurrence_state (lr_snapshot current)\<rparr> else snapshot)"

definition current_revision :: "load_result \<Rightarrow> u64" where
  "current_revision current =
     (if lr_status current = LS_loaded then ss_revision (lr_snapshot current) else 0)"

definition decide_save :: "schedule_snapshot \<Rightarrow> u64 \<Rightarrow> load_result \<Rightarrow> decision" where
  "decide_save snapshot expected current =
    (let loaded = (lr_status current = LS_loaded); committed = carried_forward current snapshot;
         refuse = (\<lambda>status. Inl (default_store\<lparr>sr_status := status,
                                  sr_generation := lr_generation current\<rparr>)) in
     if unusable (lr_status current) then Inl (default_store\<lparr>sr_status := SS_corrupt_store\<rparr>)
     else if loaded \<and> lr_snapshot current = committed \<and>
             (expected = current_revision current \<or>
              expected \<noteq> - 1 \<and> expected + 1 = current_revision current)
     then Inl \<lparr>sr_status = SS_unchanged, sr_generation = lr_generation current,
               sr_destination = lr_source current\<rparr>
     else if current_revision current \<noteq> expected then refuse SS_revision_conflict
     else if ss_revision committed \<noteq> expected + 1 \<or> \<not> validate_snapshot committed
     then refuse SS_invalid_snapshot
     else if lr_generation current + 1 = 0 then refuse SS_invalid_snapshot
     else Inr (committed, lr_generation current + 1,
               if loaded then opposite (lr_source current) else Slot_a))"

definition decide_journal ::
    "persistent_alarm_state \<Rightarrow> u64 \<Rightarrow> u64 \<Rightarrow> load_result \<Rightarrow> decision" where
  "decide_journal st expected_revision expected_generation current =
    (let answer = (\<lambda>status. Inl \<lparr>sr_status = status, sr_generation = lr_generation current,
                               sr_destination = lr_source current\<rparr>);
         updated = (lr_snapshot current)\<lparr>ss_occurrence_state := st\<rparr> in
     if unusable (lr_status current) then Inl (default_store\<lparr>sr_status := SS_corrupt_store\<rparr>)
     else if lr_status current \<noteq> LS_loaded \<or> ss_revision (lr_snapshot current) \<noteq> expected_revision
     then answer SS_revision_conflict
     else if \<not> validate_snapshot updated then answer SS_invalid_snapshot
     else if updated = lr_snapshot current \<and>
             (lr_generation current = expected_generation \<or>
              expected_generation \<noteq> - 1 \<and> expected_generation + 1 = lr_generation current)
     then answer SS_unchanged
     else if lr_generation current \<noteq> expected_generation then answer SS_generation_conflict
     else if lr_generation current = - 1 then answer SS_invalid_snapshot
     else Inr (updated, lr_generation current + 1, opposite (lr_source current)))"

lemma migrate_transact: "migrate_to_current_schema storage = transact storage True decide_migrate"
  unfolding migrate_to_current_schema_def transact_def
  by (intro arg_cong [where f = "in_transaction storage _"] ext)
    (simp add: decide_migrate_def Let_def split: prod.split)

lemma save_transact: "save storage snapshot e = transact storage False (decide_save snapshot e)"
  unfolding save_def transact_def
  by (intro arg_cong [where f = "in_transaction storage _"] ext)
    (auto simp: decide_save_def carried_forward_def current_revision_def Let_def split: prod.split)

lemma journal_transact:
  "save_occurrence_state storage st e g = transact storage False (decide_journal st e g)"
  unfolding save_occurrence_state_def transact_def
  by (intro arg_cong [where f = "in_transaction storage _"] ext)
    (auto simp: decide_journal_def Let_def split: prod.split)

lemmas store_transact = migrate_transact save_transact journal_transact

section \<open>The backend contract\<close>

definition read_of :: "bytes option \<Rightarrow> slot_read_result" where
  "read_of content = (case content of None \<Rightarrow> Read_empty | Some bs \<Rightarrow> Read_present bs)"

locale slot_backend =
  fixes storage :: "'s slot_storage"
    and contents :: "'s \<Rightarrow> storage_slot \<Rightarrow> bytes option"
    and inside :: "'s \<Rightarrow> bool"
  assumes begin_inside: "begin_transaction storage s = (True, s') \<Longrightarrow> inside s'"
    and read_law: "inside s \<Longrightarrow> read_slot storage slot s = (r, s') \<Longrightarrow>
      inside s' \<and> contents s' = contents s \<and> (r = Read_io_error \<or> r = read_of (contents s slot))"
    and write_law: "inside s \<Longrightarrow> write_slot storage slot bs s = (ok, s') \<Longrightarrow>
      inside s' \<and> contents s' (opposite slot) = contents s (opposite slot)"
begin

lemma scan_slots_view:
  assumes "inside s" and "scan_slots storage slots scan s = (r, s')"
  shows "inside s' \<and> contents s' = contents s \<and>
    (r = Inl (default_load\<lparr>lr_status := LS_io_error\<rparr>) \<or>
     r = Inr (foldl (\<lambda>scan slot. case contents s slot of None \<Rightarrow> scan
                                | Some bs \<Rightarrow> scan_record slot bs scan) scan slots))"
  using assms
proof (induction slots arbitrary: scan s)
  case Nil
  then show ?case by simp
next
  case (Cons slot slots)
  obtain x s1 where rd: "read_slot storage slot s = (x, s1)" by fastforce
  note law = read_law [OF Cons.prems(1) rd]
  show ?case
  proof (cases x)
    case Read_io_error
    with Cons.prems(2) rd law show ?thesis by auto
  next
    case Read_empty
    with law have "contents s slot = None" by (auto simp: read_of_def split: option.splits)
    with Cons.IH [of s1 scan] Cons.prems(2) rd law Read_empty show ?thesis by simp
  next
    case (Read_present bs)
    with law have "contents s slot = Some bs" by (auto simp: read_of_def split: option.splits)
    with Cons.IH [of s1 "scan_record slot bs scan"] Cons.prems(2) rd law Read_present
    show ?thesis by simp
  qed
qed

lemma load_unlocked_view:
  assumes "inside s" and "load_unlocked storage s = (r, s')"
  shows "inside s' \<and> contents s' = contents s \<and>
    (r = default_load\<lparr>lr_status := LS_io_error\<rparr> \<or> r = view (contents s))"
proof -
  obtain x where "scan_slots storage [Slot_a, Slot_b] initial_scan s = (x, s')"
    and r: "r = (case x of Inl failed \<Rightarrow> failed | Inr scan \<Rightarrow> finish_scan scan)"
    using assms(2) by (auto simp: load_unlocked_def split: prod.splits sum.splits)
  from scan_slots_view [OF assms(1) this(1)] r show ?thesis by (auto simp: view_def)
qed

lemma write_and_verify_effect:
  assumes "inside s"
    and "write_and_verify storage m snapshot generation current destination s = (r, s')"
  shows "inside s'" and "contents s' (opposite destination) = contents s (opposite destination)"
    and "sr_status r = SS_stored \<Longrightarrow>
      \<exists>bs d. contents s' destination = Some bs \<and> decode_record bs = Some d \<and>
        dr_snapshot d = snapshot \<and> dr_generation d = generation \<and> (m \<longrightarrow> \<not> dr_migrated d) \<and>
        r = \<lparr>sr_status = SS_stored, sr_generation = generation, sr_destination = destination\<rparr>"
proof -
  have "inside s' \<and> contents s' (opposite destination) = contents s (opposite destination) \<and>
    (sr_status r = SS_stored \<longrightarrow>
      (\<exists>bs d. contents s' destination = Some bs \<and> decode_record bs = Some d \<and>
        dr_snapshot d = snapshot \<and> dr_generation d = generation \<and> (m \<longrightarrow> \<not> dr_migrated d) \<and>
        r = \<lparr>sr_status = SS_stored, sr_generation = generation, sr_destination = destination\<rparr>))"
  proof (cases "encode_record snapshot generation")
    case None
    with assms show ?thesis by (auto simp: write_and_verify_def Let_def)
  next
    case (Some encoded)
    obtain ok s1 where w: "write_slot storage destination encoded s = (ok, s1)" by fastforce
    obtain x s2 where rd: "read_slot storage destination s1 = (x, s2)" by fastforce
    note w_law = write_law [OF assms(1) w]
    with read_law [OF _ rd] have r_law: "inside s2" "contents s2 = contents s1"
      "x = Read_io_error \<or> x = read_of (contents s1 destination)"
      by blast+
    show ?thesis
      using assms(2) w_law r_law Some w rd
      by (auto simp: write_and_verify_def Let_def read_of_def split: if_splits option.splits bool.splits
          slot_read_result.splits)
  qed
  then show "inside s'" "contents s' (opposite destination) = contents s (opposite destination)"
    "sr_status r = SS_stored \<Longrightarrow>
      \<exists>bs d. contents s' destination = Some bs \<and> decode_record bs = Some d \<and>
        dr_snapshot d = snapshot \<and> dr_generation d = generation \<and> (m \<longrightarrow> \<not> dr_migrated d) \<and>
        r = \<lparr>sr_status = SS_stored, sr_generation = generation, sr_destination = destination\<rparr>"
    by blast+
qed

end

section \<open>Commits and tears in the abstract view\<close>

lemma classify_decoded: "decode_record bs = Some d \<Longrightarrow> classify (Some bs) = Record d"
  using future_not_decoded [of bs]
  by (cases "intact_future_schema_generation bs") (auto simp: classify_def)

lemma loaded_from_simps [simp]:
  "lr_status (loaded_from slot d corrupt) = LS_loaded"
  "lr_snapshot (loaded_from slot d corrupt) = dr_snapshot d"
  "lr_generation (loaded_from slot d corrupt) = dr_generation d"
  "lr_source (loaded_from slot d corrupt) = slot"
  "lr_migrated (loaded_from slot d corrupt) = dr_migrated d"
  "lr_corruption_detected (loaded_from slot d corrupt) = corrupt"
  by (simp_all add: loaded_from_def)

lemma usable_cases:
  assumes "\<not> unusable (lr_status (view c))"
  obtains (empty) "view c = default_load" "c Slot_a = None" "c Slot_b = None"
    | (loaded) slot d corrupt where "view c = loaded_from slot d corrupt"
  using assms view_loadedE [of c] view_empty [of c] view_empty_iff [of c] view_no_io_error [of c]
  by (cases "lr_status (view c)") (auto simp: unusable_def)

lemma generation_step: "(g :: u64) + 1 \<noteq> 0 \<Longrightarrow> g < g + 1"
  using unatSuc [of g] by (simp add: word_less_nat_alt add.commute)

definition next_slot :: "load_result \<Rightarrow> storage_slot" where
  "next_slot current = (if lr_status current = LS_loaded then opposite (lr_source current) else Slot_a)"

lemma view_commit:
  assumes "\<not> unusable (lr_status (view c))" and "lr_generation (view c) + 1 \<noteq> 0"
    and "c' (opposite (next_slot (view c))) = c (opposite (next_slot (view c)))"
    and "c' (next_slot (view c)) = Some bs" and "decode_record bs = Some d"
    and "dr_generation d = lr_generation (view c) + 1"
  shows "view c' = loaded_from (next_slot (view c)) d False"
  using assms(1)
proof (cases rule: usable_cases)
  case empty
  with assms(3-5) show ?thesis
    by (simp add: view_loaded_iff next_slot_def default_load_def classify_decoded)
      (simp add: classify_def)
next
  case (loaded slot e corrupt)
  then have e: "classify (c slot) = Record e" by (simp add: view_loaded_iff)
  have next': "next_slot (view c) = opposite slot" "lr_generation (view c) = dr_generation e"
    by (simp_all add: next_slot_def loaded)
  with assms(2-6) e show ?thesis
    unfolding next' by (simp add: view_loaded_iff classify_decoded generation_step)
qed

lemma view_torn:
  assumes "view c = loaded_from slot d corrupt" and "c' slot = c slot"
    and "classify (c' (opposite slot)) \<in> {Absent, Damaged, classify (c (opposite slot))}"
  shows "\<exists>corrupt'. view c' = loaded_from slot d corrupt'"
  using assms by (auto simp: view_loaded_iff)

section \<open>Every operation of the store\<close>

datatype store_op =
    Op_save schedule_snapshot u64
  | Op_save_journal persistent_alarm_state u64 u64
  | Op_migrate

fun run_op :: "'s slot_storage \<Rightarrow> store_op \<Rightarrow> 's \<Rightarrow> store_result \<times> 's" where
  "run_op storage (Op_save snapshot e) = save storage snapshot e"
| "run_op storage (Op_save_journal st e g) = save_occurrence_state storage st e g"
| "run_op storage Op_migrate = migrate_to_current_schema storage"

fun decide_op :: "store_op \<Rightarrow> load_result \<Rightarrow> decision" where
  "decide_op (Op_save snapshot e) = decide_save snapshot e"
| "decide_op (Op_save_journal st e g) = decide_journal st e g"
| "decide_op Op_migrate = decide_migrate"

lemma run_op_transact: "run_op storage op = transact storage (op = Op_migrate) (decide_op op)"
  by (cases op) (simp_all add: store_transact)

text \<open>A decision to commit always takes the next generation and the slot that is not in use.\<close>

lemma decide_op_commit:
  assumes "decide_op op current = Inr (snapshot, generation, destination)"
    and "lr_status current \<noteq> LS_io_error"
  shows "\<not> unusable (lr_status current)" and "generation = lr_generation current + 1"
    and "generation \<noteq> 0" and "destination = next_slot current"
proof -
  have wrap: "(g :: u64) \<noteq> - 1 \<Longrightarrow> g + 1 \<noteq> 0" for g by (metis add_eq_0_iff2 add.commute)
  show "\<not> unusable (lr_status current)" "generation = lr_generation current + 1"
    "generation \<noteq> 0" "destination = next_slot current"
    using assms
    by (cases op; cases "lr_status current";
        simp add: decide_save_def decide_journal_def decide_migrate_def unusable_def next_slot_def Let_def
          wrap split: if_splits; force simp: wrap)+
qed

locale quiet_backend = slot_backend storage contents inside
  for storage :: "'s slot_storage" and contents :: "'s \<Rightarrow> storage_slot \<Rightarrow> bytes option"
    and inside :: "'s \<Rightarrow> bool" +
  fixes unsettled :: "'s \<Rightarrow> storage_slot set"
  assumes begin_quiet: "begin_transaction storage s = (ok, s') \<Longrightarrow>
      contents s' = contents s \<and> (ok \<longrightarrow> unsettled s' = {})"
    and read_quiet: "inside s \<Longrightarrow> read_slot storage slot s = (r, s') \<Longrightarrow> unsettled s' = unsettled s"
    and write_quiet: "inside s \<Longrightarrow> write_slot storage slot bs s = (ok, s') \<Longrightarrow>
      unsettled s' \<subseteq> (if ok then unsettled s else insert slot (unsettled s))"
    and end_quiet: "inside s \<Longrightarrow> slot \<notin> unsettled s \<Longrightarrow>
      contents (end_transaction storage s) slot = contents s slot"
begin

lemma scan_slots_unsettled:
  "inside s \<Longrightarrow> scan_slots storage slots scan s = (r, s') \<Longrightarrow> unsettled s' = unsettled s"
proof (induction slots arbitrary: scan s)
  case Nil
  then show ?case by simp
next
  case (Cons slot slots)
  obtain x s1 where rd: "read_slot storage slot s = (x, s1)" by fastforce
  note law = read_law [OF Cons.prems(1) rd] read_quiet [OF Cons.prems(1) rd]
  with Cons rd show ?case by (cases x) auto
qed

lemma load_unlocked_unsettled:
  "inside s \<Longrightarrow> load_unlocked storage s = (r, s') \<Longrightarrow> unsettled s' = unsettled s"
  by (auto simp: load_unlocked_def simp del: scan_slots.simps dest!: scan_slots_unsettled
      split: prod.splits sum.splits)

lemma write_and_verify_unsettled:
  assumes "inside s"
    and "write_and_verify storage m snapshot generation current destination s = (r, s')"
  shows "unsettled s' \<subseteq>
    (if sr_status r = SS_stored then unsettled s else insert destination (unsettled s))"
proof (cases "encode_record snapshot generation")
  case None
  with assms show ?thesis by (auto simp: write_and_verify_def Let_def)
next
  case (Some encoded)
  obtain ok s1 where w: "write_slot storage destination encoded s = (ok, s1)" by fastforce
  obtain x s2 where rd: "read_slot storage destination s1 = (x, s2)" by fastforce
  have "inside s1" using write_law [OF assms(1) w] by simp
  from read_quiet [OF this rd] write_quiet [OF assms(1) w] assms(2) Some w rd show ?thesis
    by (auto simp: write_and_verify_def Let_def split: if_splits option.splits bool.splits
        slot_read_result.splits)
qed

lemma write_and_verify_refused:
  assumes "write_and_verify storage m snapshot generation current destination s = (r, s')"
    and "sr_status r \<notin> {SS_stored, SS_io_error, SS_verification_failed}"
  shows "s' = s"
  using assms
  by (auto simp: write_and_verify_def Let_def split: if_splits option.splits bool.splits
      slot_read_result.splits prod.splits)

lemma write_and_verify_status:
  "write_and_verify storage m snapshot generation current destination s = (r, s') \<Longrightarrow>
     sr_status r \<in> {SS_stored, SS_io_error, SS_verification_failed, SS_invalid_snapshot}"
  by (auto simp: write_and_verify_def Let_def split: if_splits option.splits bool.splits
      slot_read_result.splits prod.splits)

lemma end_settled: "inside s \<Longrightarrow> unsettled s = {} \<Longrightarrow> contents (end_transaction storage s) = contents s"
  by (simp add: end_quiet ext)

lemma load_view:
  assumes "load storage s = (r, s')"
  shows "contents s' = contents s"
    and "r = default_load\<lparr>lr_status := LS_io_error\<rparr> \<or> r = view (contents s)"
proof -
  obtain ok s1 where b: "begin_transaction storage s = (ok, s1)" by fastforce
  obtain r2 s2 where l: "load_unlocked storage s1 = (r2, s2)" by fastforce
  have "contents s' = contents s \<and> (r = default_load\<lparr>lr_status := LS_io_error\<rparr> \<or> r = view (contents s))"
  proof (cases ok)
    case True
    with b have "inside s1" by (simp add: begin_inside)
    with load_unlocked_view [OF _ l] load_unlocked_unsettled [OF _ l] True assms b l
      begin_quiet [OF b] show ?thesis
      by (auto simp: load_def in_transaction_def end_settled)
  next
    case False
    with assms b begin_quiet [OF b] show ?thesis by (simp add: load_def in_transaction_def)
  qed
  then show "contents s' = contents s"
    and "r = default_load\<lparr>lr_status := LS_io_error\<rparr> \<or> r = view (contents s)" by simp_all
qed

lemma run_op_cases:
  assumes "run_op storage op s = (r, s')"
  obtains (answered) "contents s' = contents s"
      "sr_status r = SS_io_error \<or> decide_op op (view (contents s)) = Inl r"
    | (committed) snapshot where
      "decide_op op (view (contents s)) =
         Inr (snapshot, lr_generation (view (contents s)) + 1, next_slot (view (contents s)))"
      "contents s' (opposite (next_slot (view (contents s)))) =
         contents s (opposite (next_slot (view (contents s))))"
      "sr_status r = SS_stored \<Longrightarrow>
         \<exists>bs d. contents s' (next_slot (view (contents s))) = Some bs \<and> decode_record bs = Some d \<and>
           dr_snapshot d = snapshot \<and> dr_generation d = lr_generation (view (contents s)) + 1 \<and>
           (op = Op_migrate \<longrightarrow> \<not> dr_migrated d) \<and>
           r = \<lparr>sr_status = SS_stored, sr_generation = lr_generation (view (contents s)) + 1,
                sr_destination = next_slot (view (contents s))\<rparr>"
      "sr_status r \<notin> {SS_stored, SS_io_error, SS_verification_failed} \<Longrightarrow> contents s' = contents s"
      "sr_status r \<in> {SS_stored, SS_io_error, SS_verification_failed, SS_invalid_snapshot}"
proof -
  obtain ok s1 where b: "begin_transaction storage s = (ok, s1)" by fastforce
  obtain current s2 where l: "load_unlocked storage s1 = (current, s2)" by fastforce
  note quiet = begin_quiet [OF b]
  consider "\<not> ok" | "ok" "lr_status current = LS_io_error" | "ok" "lr_status current \<noteq> LS_io_error"
    by blast
  then show ?thesis
  proof cases
    case 1
    with assms b quiet show ?thesis
      by (intro answered) (auto simp: run_op_transact transact_def in_transaction_def)
  next
    case 2
    with b have "inside s1" by (simp add: begin_inside)
    with load_unlocked_view [OF _ l] load_unlocked_unsettled [OF _ l] 2 assms b l quiet show ?thesis
      by (intro answered) (auto simp: run_op_transact transact_def in_transaction_def end_settled)
  next
    case 3
    from 3(1) b have "inside s1" by (simp add: begin_inside)
    with load_unlocked_view [OF _ l] load_unlocked_unsettled [OF _ l] 3 quiet
    have "inside s2" and none: "unsettled s2 = {}" and s2: "contents s2 = contents s" and current: "current = view (contents s)"
      by auto
    show ?thesis
    proof (cases "decide_op op current")
      case (Inl answer)
      with 3 assms b l current s2 show ?thesis
        by (intro answered)
          (auto simp: run_op_transact transact_def in_transaction_def end_settled \<open>inside s2\<close> none)
    next
      case (Inr plan)
      then obtain snapshot generation destination
        where d: "decide_op op current = Inr (snapshot, generation, destination)"
        by (cases plan) simp
      obtain s3 where w: "write_and_verify storage (op = Op_migrate) snapshot generation
          (lr_generation current) destination s2 = (r, s3)" and s': "s' = end_transaction storage s3"
        using 3 assms b l d
        by (auto simp: run_op_transact transact_def in_transaction_def split: prod.splits)
      note effect = write_and_verify_effect [OF \<open>inside s2\<close> w]
      note plan = decide_op_commit [OF d 3(2)]
      have kept: "contents s' slot = contents s3 slot" if "slot \<noteq> destination \<or> sr_status r = SS_stored"
        for slot
        using that write_and_verify_unsettled [OF \<open>inside s2\<close> w] none
        by (auto simp: s' intro!: end_quiet [OF effect(1)] split: if_splits)
      have refused: "contents s' = contents s"
        if "sr_status r \<notin> {SS_stored, SS_io_error, SS_verification_failed}"
        using write_and_verify_refused [OF w that] \<open>inside s2\<close> none s2 by (simp add: s' end_settled)
      show ?thesis
        by (rule committed [of snapshot])
          (use effect d refused write_and_verify_status [OF w] in \<open>auto simp: kept s2 plan current\<close>)
    qed
  qed
qed

end

end
