(* ===== verification/Nvs_Storage.thy ===== *)
theory Nvs_Storage
  imports Store_Contract
begin

text \<open>
  The ESP-IDF binding \<open>nvs_storage/nvs_slot_storage.cpp\<close>: one adapter of the fixed partition,
  with the process-wide lock, the transaction owner and the write-uncertainty latch. The NVS
  library itself is not part of the repository; it is the parameter \<open>'f nvs_api\<close> over a flash
  state \<open>'f\<close>, and the locale \<open>nvs_library\<close> states what its documentation promises. The adapter
  is shown to be a \<open>quiet_backend\<close> of the schedule store whatever such library it runs on.
\<close>

section \<open>The library parameter\<close>

datatype esp_err = ESP_OK | ESP_ERR_NVS_NOT_FOUND | ESP_ERR_INVALID_STATE | ESP_error int

record 'f nvs_api =
  nvs_flash_init_partition :: "'f \<Rightarrow> esp_err \<times> 'f"
  nvs_open_from_partition :: "'f \<Rightarrow> esp_err \<times> u32 \<times> 'f"
  nvs_close :: "u32 \<Rightarrow> 'f \<Rightarrow> 'f"
  nvs_blob_size :: "u32 \<Rightarrow> string \<Rightarrow> 'f \<Rightarrow> esp_err \<times> nat \<times> 'f"
  nvs_get_blob :: "u32 \<Rightarrow> string \<Rightarrow> nat \<Rightarrow> 'f \<Rightarrow> esp_err \<times> bytes \<times> nat \<times> 'f"
  nvs_set_blob :: "u32 \<Rightarrow> string \<Rightarrow> bytes \<Rightarrow> 'f \<Rightarrow> esp_err \<times> 'f"
  nvs_commit :: "u32 \<Rightarrow> 'f \<Rightarrow> esp_err \<times> 'f"
  can_allocate :: "nat \<Rightarrow> 'f \<Rightarrow> bool"

text \<open>
  The module's globals, the handle of each adapter, and the flash. The recursive mutex is its
  owning task with the number of acquisitions; adapters and tasks are numbered.
\<close>

record 'f nvs_state =
  nv_mutex :: "(nat \<times> nat) option"
  nv_transaction_owner :: "nat option"
  nv_initialized :: bool
  nv_write_uncertain :: bool
  nv_handle :: "nat \<Rightarrow> u32"
  nv_flash :: 'f

section \<open>The adapter\<close>

fun key_for :: "storage_slot \<Rightarrow> string" where
  "key_for Slot_a = ''slot_a''"
| "key_for Slot_b = ''slot_b''"

definition try_lock :: "nat \<Rightarrow> 'f nvs_state \<Rightarrow> bool" where
  "try_lock task st \<longleftrightarrow> (case nv_mutex st of None \<Rightarrow> True | Some (holder, n) \<Rightarrow> holder = task)"

definition acquisitions :: "'f nvs_state \<Rightarrow> nat" where
  "acquisitions st = (case nv_mutex st of None \<Rightarrow> 0 | Some (holder, n) \<Rightarrow> n)"

definition nvs_initialize :: "'f nvs_api \<Rightarrow> nat \<Rightarrow> 'f nvs_state \<Rightarrow> esp_err \<times> 'f nvs_state" where
  "nvs_initialize api task st =
     (if \<not> try_lock task st \<or> nv_transaction_owner st \<noteq> None \<or> nv_write_uncertain st
      then (ESP_ERR_INVALID_STATE, st)
      else if nv_initialized st then (ESP_OK, st)
      else case nvs_flash_init_partition api (nv_flash st) of
             (error, flash) \<Rightarrow> (error, st\<lparr>nv_flash := flash, nv_initialized := (error = ESP_OK)\<rparr>))"

definition nvs_begin_transaction ::
    "'f nvs_api \<Rightarrow> nat \<Rightarrow> nat \<Rightarrow> 'f nvs_state \<Rightarrow> bool \<times> 'f nvs_state" where
  "nvs_begin_transaction api task self st =
     (if \<not> try_lock task st \<or> \<not> nv_initialized st \<or> nv_transaction_owner st \<noteq> None \<or>
         nv_write_uncertain st then (False, st)
      else case nvs_open_from_partition api (nv_flash st) of
             (error, handle, flash) \<Rightarrow>
               let opened = st\<lparr>nv_flash := flash, nv_handle := (nv_handle st)(self := handle)\<rparr>
               in if error \<noteq> ESP_OK then (False, opened)
                  else (True, opened\<lparr>nv_transaction_owner := Some self,
                                     nv_mutex := Some (task, acquisitions st + 1)\<rparr>))"

definition nvs_end_transaction ::
    "'f nvs_api \<Rightarrow> nat \<Rightarrow> nat \<Rightarrow> 'f nvs_state \<Rightarrow> 'f nvs_state" where
  "nvs_end_transaction api task self st =
     (if \<not> try_lock task st \<or> nv_transaction_owner st \<noteq> Some self then st
      else st\<lparr>nv_flash := nvs_close api (nv_handle st self) (nv_flash st),
              nv_handle := (nv_handle st)(self := 0), nv_transaction_owner := None,
              nv_mutex := (if acquisitions st \<le> 1 then None else Some (task, acquisitions st - 1))\<rparr>)"

definition nvs_read ::
    "'f nvs_api \<Rightarrow> nat \<Rightarrow> nat \<Rightarrow> storage_slot \<Rightarrow> 'f nvs_state \<Rightarrow> slot_read_result \<times> 'f nvs_state" where
  "nvs_read api task self slot st =
     (if \<not> try_lock task st \<or> nv_transaction_owner st \<noteq> Some self \<or> nv_write_uncertain st
      then (Read_io_error, st)
      else case nvs_blob_size api (nv_handle st self) (key_for slot) (nv_flash st) of
             (status, blob_size, flash) \<Rightarrow>
               let st = st\<lparr>nv_flash := flash\<rparr> in
               if status = ESP_ERR_NVS_NOT_FOUND then (Read_empty, st)
               else if status \<noteq> ESP_OK \<or> kMaximumStorageRecordBytes < blob_size then (Read_io_error, st)
               else if blob_size = 0 then (Read_present [], st)
               else if \<not> can_allocate api blob_size flash then (Read_io_error, st)
               else case nvs_get_blob api (nv_handle st self) (key_for slot) blob_size flash of
                      (error, bs, actual, flash) \<Rightarrow>
                        let st = st\<lparr>nv_flash := flash\<rparr> in
                        if error \<noteq> ESP_OK \<or> actual \<noteq> blob_size then (Read_io_error, st)
                        else (Read_present bs, st))"

definition nvs_write ::
    "'f nvs_api \<Rightarrow> nat \<Rightarrow> nat \<Rightarrow> storage_slot \<Rightarrow> bytes \<Rightarrow> 'f nvs_state \<Rightarrow> bool \<times> 'f nvs_state" where
  "nvs_write api task self slot bs st =
     (if \<not> try_lock task st \<or> nv_transaction_owner st \<noteq> Some self \<or> nv_write_uncertain st \<or>
         bs = [] \<or> kMaximumStorageRecordBytes < length bs then (False, st)
      else case nvs_set_blob api (nv_handle st self) (key_for slot) bs (nv_flash st) of
             (set_error, flash) \<Rightarrow>
               if set_error \<noteq> ESP_OK
               then (False, st\<lparr>nv_flash := flash, nv_write_uncertain := True\<rparr>)
               else case nvs_commit api (nv_handle st self) flash of
                      (commit_error, flash) \<Rightarrow>
                        if commit_error \<noteq> ESP_OK
                        then (False, st\<lparr>nv_flash := flash, nv_write_uncertain := True\<rparr>)
                        else (True, st\<lparr>nv_flash := flash\<rparr>))"

text \<open>The adapter as the backend of a store that runs in one task.\<close>

definition nvs_backend :: "'f nvs_api \<Rightarrow> nat \<Rightarrow> nat \<Rightarrow> 'f nvs_state slot_storage" where
  "nvs_backend api task self =
     \<lparr>begin_transaction = nvs_begin_transaction api task self,
      end_transaction = nvs_end_transaction api task self,
      read_slot = nvs_read api task self, write_slot = nvs_write api task self\<rparr>"

section \<open>What the library promises\<close>

text \<open>
  \<open>blob f k\<close> is the value that a read of key \<open>k\<close> reports, \<open>pending f\<close> the keys set and not yet
  committed, \<open>opened f h\<close> that the handle is open. A failing set or commit may leave any value
  under a pending key, and closing may lose it; other keys are never touched.
\<close>

locale nvs_library =
  fixes api :: "'f nvs_api"
    and blob :: "'f \<Rightarrow> string \<Rightarrow> bytes option"
    and pending :: "'f \<Rightarrow> string set"
    and opened :: "'f \<Rightarrow> u32 \<Rightarrow> bool"
  assumes open_law: "nvs_open_from_partition api f = (e, h, f') \<Longrightarrow>
      blob f' = blob f \<and> (e = ESP_OK \<longrightarrow> opened f' h \<and> pending f' = {})"
    and size_law: "opened f h \<Longrightarrow> nvs_blob_size api h k f = (e, n, f') \<Longrightarrow>
      blob f' = blob f \<and> pending f' = pending f \<and> opened f' = opened f \<and>
      (e = ESP_ERR_NVS_NOT_FOUND \<longrightarrow> blob f k = None) \<and>
      (e = ESP_OK \<longrightarrow> (\<exists>bs. blob f k = Some bs \<and> length bs = n))"
    and get_law: "opened f h \<Longrightarrow> nvs_get_blob api h k capacity f = (e, bs, n, f') \<Longrightarrow>
      blob f' = blob f \<and> pending f' = pending f \<and> opened f' = opened f \<and>
      (e = ESP_OK \<longrightarrow> blob f k = Some bs)"
    and set_law: "opened f h \<Longrightarrow> nvs_set_blob api h k bs f = (e, f') \<Longrightarrow>
      opened f' = opened f \<and> pending f' \<subseteq> insert k (pending f) \<and>
      (\<forall>k'. k' \<noteq> k \<longrightarrow> blob f' k' = blob f k')"
    and commit_law: "opened f h \<Longrightarrow> nvs_commit api h f = (e, f') \<Longrightarrow>
      opened f' = opened f \<and> pending f' \<subseteq> pending f \<and> (e = ESP_OK \<longrightarrow> pending f' = {}) \<and>
      (\<forall>k'. k' \<notin> pending f \<longrightarrow> blob f' k' = blob f k')"
    and close_law: "opened f h \<Longrightarrow> k' \<notin> pending f \<Longrightarrow> blob (nvs_close api h f) k' = blob f k'"

text \<open>The store's view of the adapter: slot contents, being inside, and unsettled slots.\<close>

definition nvs_contents ::
    "('f \<Rightarrow> string \<Rightarrow> bytes option) \<Rightarrow> 'f nvs_state \<Rightarrow> storage_slot \<Rightarrow> bytes option" where
  "nvs_contents blob st slot = blob (nv_flash st) (key_for slot)"

definition nvs_inside ::
    "('f \<Rightarrow> string set) \<Rightarrow> ('f \<Rightarrow> u32 \<Rightarrow> bool) \<Rightarrow> nat \<Rightarrow> nat \<Rightarrow> 'f nvs_state \<Rightarrow> bool" where
  "nvs_inside pending opened task self st \<longleftrightarrow>
     nv_transaction_owner st = Some self \<and> try_lock task st \<and>
     opened (nv_flash st) (nv_handle st self) \<and>
     (nv_write_uncertain st \<or> pending (nv_flash st) = {})"

definition nvs_unsettled :: "('f \<Rightarrow> string set) \<Rightarrow> 'f nvs_state \<Rightarrow> storage_slot set" where
  "nvs_unsettled pending st = {slot. key_for slot \<in> pending (nv_flash st)}"

lemma key_for_inject [simp]: "key_for slot = key_for slot' \<longleftrightarrow> slot = slot'"
  by (cases slot; cases slot') simp_all

lemma try_lock_flash [simp]:
  "try_lock task (st\<lparr>nv_flash := f\<rparr>) = try_lock task st"
  "try_lock task (st\<lparr>nv_write_uncertain := u\<rparr>) = try_lock task st"
  by (simp_all add: try_lock_def)

context nvs_library
begin

lemma nvs_begin_law:
  assumes "nvs_begin_transaction api task self st = (ok, st')"
  shows "nvs_contents blob st' = nvs_contents blob st"
    and "ok \<Longrightarrow> nvs_inside pending opened task self st' \<and> nvs_unsettled pending st' = {}"
  using assms
  by (auto simp: nvs_begin_transaction_def nvs_contents_def nvs_inside_def nvs_unsettled_def Let_def
      try_lock_def fun_eq_iff dest!: open_law split: if_splits prod.splits)

lemma nvs_read_law:
  assumes "nvs_inside pending opened task self st" and "nvs_read api task self slot st = (r, st')"
  shows "nvs_inside pending opened task self st' \<and> nvs_contents blob st' = nvs_contents blob st \<and>
    nvs_unsettled pending st' = nvs_unsettled pending st \<and>
    (r = Read_io_error \<or> r = read_of (nvs_contents blob st slot))"
proof (cases "nv_write_uncertain st")
  case True
  with assms show ?thesis by (simp add: nvs_read_def)
next
  case False
  let ?f = "nv_flash st" and ?h = "nv_handle st self"
  obtain status n f1 where sz: "nvs_blob_size api ?h (key_for slot) ?f = (status, n, f1)"
    using prod_cases3 by blast
  obtain e bs m f2 where gt: "nvs_get_blob api ?h (key_for slot) n f1 = (e, bs, m, f2)"
    using prod_cases4 by blast
  have opened: "opened ?f ?h" using assms(1) by (simp add: nvs_inside_def)
  note size = size_law [OF opened sz]
  then have "opened f1 ?h" using opened by simp
  note get = get_law [OF this gt]
  show ?thesis
    using assms False sz gt size get
    by (auto simp: nvs_read_def nvs_inside_def nvs_contents_def nvs_unsettled_def read_of_def Let_def
        fun_eq_iff split: if_splits)
qed

lemma nvs_write_law:
  assumes "nvs_inside pending opened task self st" and "nvs_write api task self slot bs st = (ok, st')"
  shows "nvs_inside pending opened task self st'"
    and "nvs_unsettled pending st' \<subseteq>
      (if ok then nvs_unsettled pending st else insert slot (nvs_unsettled pending st))"
    and "slot' \<noteq> slot \<Longrightarrow> nvs_contents blob st' slot' = nvs_contents blob st slot'"
proof -
  let ?f = "nv_flash st" and ?h = "nv_handle st self" and ?k = "key_for slot"
  obtain e f1 where st: "nvs_set_blob api ?h ?k bs ?f = (e, f1)" by fastforce
  obtain e2 f2 where cm: "nvs_commit api ?h f1 = (e2, f2)" by fastforce
  have opened: "opened ?f ?h" using assms(1) by (simp add: nvs_inside_def)
  note set = set_law [OF opened st]
  then have "opened f1 ?h" using opened by simp
  note commit = commit_law [OF this cm]
  have "pending f2 \<subseteq> insert ?k (pending ?f)" using set commit by blast
  note facts = assms st cm set commit this
  show "nvs_inside pending opened task self st'"
    using facts by (auto simp: nvs_write_def nvs_inside_def split: if_splits)
  show "nvs_unsettled pending st' \<subseteq>
      (if ok then nvs_unsettled pending st else insert slot (nvs_unsettled pending st))"
    using facts by (auto simp: nvs_write_def nvs_unsettled_def split: if_splits dest!: subsetD)
  show "nvs_contents blob st' slot' = nvs_contents blob st slot'"
    if "slot' \<noteq> slot"
  proof (cases "nv_write_uncertain st")
    case True
    with assms(2) show ?thesis by (simp add: nvs_write_def)
  next
    case False
    then have "key_for slot' \<notin> pending f1" "key_for slot' \<noteq> ?k" using set that assms(1)
      by (auto simp: nvs_inside_def)
    then have "blob f1 (key_for slot') = blob ?f (key_for slot')"
      "blob f2 (key_for slot') = blob f1 (key_for slot')"
      using set commit by auto
    then show ?thesis
      using assms(2) st cm by (auto simp: nvs_write_def nvs_contents_def split: if_splits)
  qed
qed

lemma nvs_end_law:
  assumes "nvs_inside pending opened task self st" and "slot \<notin> nvs_unsettled pending st"
  shows "nvs_contents blob (nvs_end_transaction api task self st) slot = nvs_contents blob st slot"
  using assms
  by (auto simp: nvs_inside_def nvs_unsettled_def nvs_contents_def nvs_end_transaction_def
      intro!: close_law)

end

text \<open>The adapter satisfies the contract of the store on every library that keeps its promises.\<close>

sublocale nvs_library \<subseteq> adapter: quiet_backend "nvs_backend api task self" "nvs_contents blob"
  "nvs_inside pending opened task self" "nvs_unsettled pending" for task self
proof
  fix s s' :: "'f nvs_state" and r slot bs ok
  show "begin_transaction (nvs_backend api task self) s = (True, s') \<Longrightarrow>
      nvs_inside pending opened task self s'"
    using nvs_begin_law(2) by (simp add: nvs_backend_def)
  show "begin_transaction (nvs_backend api task self) s = (ok, s') \<Longrightarrow>
      nvs_contents blob s' = nvs_contents blob s \<and> (ok \<longrightarrow> nvs_unsettled pending s' = {})"
    using nvs_begin_law [of task self s ok s'] by (auto simp: nvs_backend_def)
  assume inside: "nvs_inside pending opened task self s"
  show "read_slot (nvs_backend api task self) slot s = (r, s') \<Longrightarrow>
      nvs_inside pending opened task self s' \<and> nvs_contents blob s' = nvs_contents blob s \<and>
      (r = Read_io_error \<or> r = read_of (nvs_contents blob s slot))"
    using nvs_read_law [OF inside] by (simp add: nvs_backend_def)
  show "read_slot (nvs_backend api task self) slot s = (r, s') \<Longrightarrow>
      nvs_unsettled pending s' = nvs_unsettled pending s"
    using nvs_read_law [OF inside] by (simp add: nvs_backend_def)
  show "write_slot (nvs_backend api task self) slot bs s = (ok, s') \<Longrightarrow>
      nvs_inside pending opened task self s' \<and>
      nvs_contents blob s' (opposite slot) = nvs_contents blob s (opposite slot)"
    using nvs_write_law(1,3) [OF inside] by (simp add: nvs_backend_def)
  show "write_slot (nvs_backend api task self) slot bs s = (ok, s') \<Longrightarrow>
      nvs_unsettled pending s' \<subseteq>
        (if ok then nvs_unsettled pending s else insert slot (nvs_unsettled pending s))"
    using nvs_write_law(2) [OF inside] by (simp add: nvs_backend_def)
  show "slot \<notin> nvs_unsettled pending s \<Longrightarrow>
      nvs_contents blob (end_transaction (nvs_backend api task self) s) slot = nvs_contents blob s slot"
    using nvs_end_law [OF inside] by (simp add: nvs_backend_def)
qed

context nvs_library
begin

lemma adapter_contract:
  "quiet_backend (nvs_backend api task self) (nvs_contents blob)
     (nvs_inside pending opened task self) (nvs_unsettled pending)"
  by (rule adapter.quiet_backend_axioms)

end

section \<open>A library that keeps the promises\<close>

text \<open>
  The partition as a plain map in which every call succeeds at once: the concrete library on
  which the witnesses run the adapter and the store.
\<close>

type_synonym flash_map = "string \<Rightarrow> bytes option"

definition map_api :: "flash_map nvs_api" where
  "map_api =
     \<lparr>nvs_flash_init_partition = (\<lambda>f. (ESP_OK, f)),
      nvs_open_from_partition = (\<lambda>f. (ESP_OK, 1, f)),
      nvs_close = (\<lambda>h f. f),
      nvs_blob_size = (\<lambda>h k f. case f k of None \<Rightarrow> (ESP_ERR_NVS_NOT_FOUND, 0, f)
                               | Some bs \<Rightarrow> (ESP_OK, length bs, f)),
      nvs_get_blob = (\<lambda>h k capacity f. case f k of None \<Rightarrow> (ESP_ERR_NVS_NOT_FOUND, [], 0, f)
                               | Some bs \<Rightarrow> (ESP_OK, bs, length bs, f)),
      nvs_set_blob = (\<lambda>h k bs f. (ESP_OK, f(k \<mapsto> bs))),
      nvs_commit = (\<lambda>h f. (ESP_OK, f)),
      can_allocate = (\<lambda>n f. True)\<rparr>"

interpretation map_library: nvs_library map_api "\<lambda>f. f" "\<lambda>f. {}" "\<lambda>f h. True"
  by unfold_locales (auto simp: map_api_def split: option.splits)

text \<open>A freshly initialised partition without any record.\<close>

definition fresh_partition :: "flash_map nvs_state" where
  "fresh_partition =
     \<lparr>nv_mutex = None, nv_transaction_owner = None, nv_initialized = True,
      nv_write_uncertain = False, nv_handle = (\<lambda>_. 0), nv_flash = Map.empty\<rparr>"

end
