(* ===== verification/Store_Properties.thy ===== *)
theory Store_Properties
  imports Nvs_Storage
begin

text \<open>
  The properties of the schedule store, over every backend that satisfies the contract: which
  record a load selects, durability of what was reported stored, survival of interrupted
  commits, compare-and-set, idempotent retry and migration. The witnesses run the store on the
  NVS adapter over a concrete partition.
\<close>

section \<open>Loading\<close>

text \<open>
  C10: a load changes no slot and either reports a read error or selects the newest record: it
  reports a record as loaded exactly when that record decodes and the other slot is absent,
  damaged (which sets the corruption flag), an older record, an older future-schema record, or
  an identical copy in slot b.
\<close>

theorem load_selects_newest:
  assumes "quiet_backend storage contents inside unsettled" and "load storage s = (r, s')"
  shows "contents s' = contents s \<and>
    (lr_status r = LS_io_error \<or>
     (\<forall>slot d corrupt. r = loaded_from slot d corrupt \<longleftrightarrow>
        classify (contents s slot) = Record d \<and>
        yields_to (classify (contents s (opposite slot))) slot d corrupt))"
proof (cases "lr_status r = LS_io_error")
  case False
  then have "r = view (contents s)" using quiet_backend.load_view(2) [OF assms] by auto
  then show ?thesis using quiet_backend.load_view(1) [OF assms] by (simp add: view_loaded_iff)
qed (simp add: quiet_backend.load_view(1) [OF assms])

section \<open>A concrete run on the NVS adapter\<close>

abbreviation sample_backend :: "flash_map nvs_state slot_storage" where
  "sample_backend \<equiv> nvs_backend map_api 0 0"

abbreviation sample_contents :: "flash_map nvs_state \<Rightarrow> storage_slot \<Rightarrow> bytes option" where
  "sample_contents \<equiv> nvs_contents (\<lambda>f. f)"

lemmas sample_quiet = map_library.adapter.quiet_backend_axioms [of 0 0]

definition partition_with :: "flash_map \<Rightarrow> flash_map nvs_state" where
  "partition_with f = fresh_partition\<lparr>nv_flash := f\<rparr>"

lemmas nvs_run_defs = nvs_backend_def nvs_begin_transaction_def nvs_end_transaction_def
  nvs_read_def nvs_write_def map_api_def fresh_partition_def partition_with_def try_lock_def
  acquisitions_def Let_def

lemma sample_valid: "validate_snapshot sample_snapshot"
  by code_simp

lemma encoded_size:
  "encode_record s g = Some bs \<Longrightarrow> bs \<noteq> [] \<and> 24 \<le> length bs \<and> length bs \<le> 65536"
  by (auto simp: encode_record_Some_iff dest!: arg_cong [where f = length and y = "[]"])

text \<open>A transaction on the partition: reading both slots, and committing one record.\<close>

definition in_run :: "flash_map \<Rightarrow> flash_map nvs_state" where
  "in_run f =
     \<lparr>nv_mutex = Some (0, Suc 0), nv_transaction_owner = Some 0, nv_initialized = True,
      nv_write_uncertain = False, nv_handle = (\<lambda>_. 0)(0 := 1), nv_flash = f\<rparr>"

definition readable :: "flash_map \<Rightarrow> bool" where
  "readable f \<longleftrightarrow> (\<forall>bs \<in> ran f. bs \<noteq> [] \<and> length bs \<le> 65536)"

lemma sample_begin: "begin_transaction sample_backend (partition_with f) = (True, in_run f)"
  by (simp add: nvs_run_defs in_run_def)

lemma sample_end: "end_transaction sample_backend (in_run f) = partition_with f"
  by (simp add: nvs_run_defs in_run_def fun_eq_iff)

lemma sample_read:
  "readable f \<Longrightarrow> read_slot sample_backend slot (in_run f) = (read_of (f (key_for slot)), in_run f)"
  by (cases "f (key_for slot)") (auto simp: nvs_run_defs in_run_def read_of_def readable_def ran_def)

lemma sample_write:
  "bs \<noteq> [] \<Longrightarrow> length bs \<le> 65536 \<Longrightarrow>
     write_slot sample_backend slot bs (in_run f) = (True, in_run (f(key_for slot \<mapsto> bs)))"
  by (simp add: nvs_run_defs in_run_def)

lemma sample_load_unlocked:
  "readable f \<Longrightarrow> load_unlocked sample_backend (in_run f) = (view (\<lambda>slot. f (key_for slot)), in_run f)"
  by (cases "f ''slot_a''"; cases "f ''slot_b''")
    (simp_all add: load_unlocked_def sample_read view_def read_of_def)

lemma sample_contents_simp [simp]:
  "sample_contents (partition_with f) = (\<lambda>slot. f (key_for slot))"
  by (simp add: nvs_contents_def partition_with_def fun_eq_iff)

lemma readable_encoded:
  "readable f \<Longrightarrow> encode_record s g = Some bs \<Longrightarrow> readable (f(k \<mapsto> bs))"
  using encoded_size by (fastforce simp: readable_def ran_def)

lemma sample_commit:
  assumes "readable f" and "encode_record s g = Some bs" and "g \<noteq> 0"
  shows "write_and_verify sample_backend m s g g0 slot (in_run f) =
    (\<lparr>sr_status = SS_stored, sr_generation = g, sr_destination = slot\<rparr>, in_run (f(key_for slot \<mapsto> bs)))"
  using assms encoded_size [OF assms(2)] decode_encoded [OF assms(2,3)] readable_encoded [OF assms(1,2)]
  by (simp add: write_and_verify_def sample_write sample_read read_of_def)

lemma sample_load:
  assumes "readable f"
  shows "load sample_backend (partition_with f) = (view (\<lambda>slot. f (key_for slot)), partition_with f)"
  by (simp add: load_def in_transaction_def sample_begin sample_load_unlocked [OF assms] sample_end)

text \<open>Running an operation of the store on the partition.\<close>

lemma sample_run:
  assumes "readable f" and "decide_op op (view (\<lambda>slot. f (key_for slot))) = Inr (s, g, slot)"
    and "encode_record s g = Some bs"
  shows "run_op sample_backend op (partition_with f) =
    (\<lparr>sr_status = SS_stored, sr_generation = g, sr_destination = slot\<rparr>,
     partition_with (f(key_for slot \<mapsto> bs)))"
proof -
  have "g \<noteq> 0" using decide_op_commit(3) [OF assms(2) view_no_io_error] .
  then show ?thesis
    using assms view_no_io_error [of "\<lambda>slot. f (key_for slot)"]
    by (simp add: run_op_transact transact_def in_transaction_def sample_begin sample_load_unlocked
        sample_commit [OF assms(1,3)] sample_end)
qed

lemma sample_run_answer:
  assumes "readable f" and "decide_op op (view (\<lambda>slot. f (key_for slot))) = Inl answer"
  shows "run_op sample_backend op (partition_with f) = (answer, partition_with f)"
  using assms view_no_io_error [of "\<lambda>slot. f (key_for slot)"]
  by (simp add: run_op_transact transact_def in_transaction_def sample_begin sample_load_unlocked
      sample_end)

definition save_first :: store_op where
  "save_first = Op_save sample_snapshot 0"

text \<open>The first save of the sample schedule, on the empty partition.\<close>

lemma sample_save_first:
  "\<exists>bs. encode_record sample_snapshot 1 = Some bs \<and>
     run_op sample_backend save_first (partition_with Map.empty) =
       (\<lparr>sr_status = SS_stored, sr_generation = 1, sr_destination = Slot_a\<rparr>,
        partition_with [''slot_a'' \<mapsto> bs])"
proof -
  obtain bs where bs: "encode_record sample_snapshot 1 = Some bs"
    using encode_record_total sample_valid by blast
  have empty: "view (\<lambda>slot. None) = default_load"
    by (simp add: view_empty view_empty_iff)
  have "decide_op save_first (view (\<lambda>slot. Map.empty (key_for slot))) = Inr (sample_snapshot, 1, Slot_a)"
    using sample_valid
    by (simp add: save_first_def empty decide_save_def default_load_def carried_forward_def
        current_revision_def unusable_def) (simp add: sample_snapshot_def)
  from sample_run [OF _ this bs] bs show ?thesis
    by (simp add: readable_def)
qed

theorem load_selects_newest_witness:
  "\<exists>bs. encode_record sample_snapshot 1 = Some bs \<and>
     lr_status (fst (load sample_backend (partition_with [''slot_a'' \<mapsto> bs]))) = LS_loaded \<and>
     fst (load sample_backend (partition_with [''slot_a'' \<mapsto> bs])) = loaded_from Slot_a
       \<lparr>dr_snapshot = sample_snapshot, dr_generation = 1, dr_migrated = False\<rparr> False"
proof -
  obtain bs where bs: "encode_record sample_snapshot 1 = Some bs" using sample_save_first by blast
  let ?s = "partition_with [''slot_a'' \<mapsto> bs]"
  have "readable [''slot_a'' \<mapsto> bs]"
    by (rule readable_encoded [OF _ bs]) (simp add: readable_def)
  then have "load sample_backend ?s = (view (\<lambda>slot. [''slot_a'' \<mapsto> bs] (key_for slot)), ?s)"
    by (simp only: load_def in_transaction_def sample_begin sample_load_unlocked sample_end
        prod.case bool.case)
  then obtain r where r: "load sample_backend ?s = (r, ?s)" and no: "lr_status r \<noteq> LS_io_error"
    using view_no_io_error by blast
  have "classify (sample_contents ?s Slot_a) =
      Record \<lparr>dr_snapshot = sample_snapshot, dr_generation = 1, dr_migrated = False\<rparr>"
    "classify (sample_contents ?s Slot_b) = Absent"
    using classify_decoded [OF decode_encoded [OF bs]] by (simp_all, simp add: classify_def)
  with load_selects_newest [OF sample_quiet r] no
  have "r = loaded_from Slot_a
      \<lparr>dr_snapshot = sample_snapshot, dr_generation = 1, dr_migrated = False\<rparr> False"
    by simp
  with bs r show ?thesis by auto
qed

section \<open>Committing\<close>

lemma stored_commit:
  assumes "quiet_backend storage contents inside unsettled"
    and "run_op storage op s = (r, s')" and "sr_status r = SS_stored"
  shows "\<exists>d. decide_op op (view (contents s)) =
      Inr (dr_snapshot d, lr_generation (view (contents s)) + 1, next_slot (view (contents s))) \<and>
    r = \<lparr>sr_status = SS_stored, sr_generation = lr_generation (view (contents s)) + 1,
         sr_destination = next_slot (view (contents s))\<rparr> \<and>
    contents s' (opposite (next_slot (view (contents s)))) =
      contents s (opposite (next_slot (view (contents s)))) \<and>
    dr_generation d = lr_generation (view (contents s)) + 1 \<and>
    (op = Op_migrate \<longrightarrow> \<not> dr_migrated d) \<and>
    view (contents s') = loaded_from (next_slot (view (contents s))) d False"
  using assms(1,2)
proof (cases rule: quiet_backend.run_op_cases [consumes 2, case_names answered committed])
  case answered
  have "decide_op op current \<noteq> Inl \<lparr>sr_status = SS_stored, sr_generation = g, sr_destination = slot\<rparr>"
    for current g slot
    by (cases op) (simp_all add: decide_save_def decide_journal_def decide_migrate_def Let_def
        default_store_def)
  with answered(2) assms(3) show ?thesis by (cases r) auto
next
  case (committed snapshot)
  let ?current = "view (contents s)"
  obtain bs d where stored: "contents s' (next_slot ?current) = Some bs" "decode_record bs = Some d"
    "dr_snapshot d = snapshot" "dr_generation d = lr_generation ?current + 1"
    "op = Op_migrate \<longrightarrow> \<not> dr_migrated d"
    and r: "r = \<lparr>sr_status = SS_stored, sr_generation = lr_generation ?current + 1,
      sr_destination = next_slot ?current\<rparr>"
    using committed(3) assms(3) by blast
  note plan = decide_op_commit [OF committed(1) view_no_io_error]
  have "view (contents s') = loaded_from (next_slot ?current) d False"
    by (rule view_commit [where bs = bs]) (use plan stored committed(2) in auto)
  then show ?thesis
    using committed(1,2) r stored(3-5) by (intro exI [of _ d]) simp
qed

text \<open>
  C11: whatever writing operation reports that it stored, a later load selects exactly what it
  committed: the snapshot its decision chose, under the next generation, from the slot that was
  not in use; and the record that was current before is still in its own slot.
\<close>

theorem stored_is_durable:
  assumes "quiet_backend storage contents inside unsettled"
    and "run_op storage op s = (r, s')" and "sr_status r = SS_stored"
  shows "\<exists>snapshot migrated.
    let current = view (contents s); destination = next_slot current;
        generation = lr_generation current + 1
    in decide_op op current = Inr (snapshot, generation, destination) \<and>
       r = \<lparr>sr_status = SS_stored, sr_generation = generation, sr_destination = destination\<rparr> \<and>
       lr_generation current < generation \<and>
       contents s' (opposite destination) = contents s (opposite destination) \<and>
       view (contents s') = loaded_from destination
         \<lparr>dr_snapshot = snapshot, dr_generation = generation, dr_migrated = migrated\<rparr> False"
proof -
  obtain d where d: "decide_op op (view (contents s)) =
      Inr (dr_snapshot d, lr_generation (view (contents s)) + 1, next_slot (view (contents s)))"
    and rest: "r = \<lparr>sr_status = SS_stored, sr_generation = lr_generation (view (contents s)) + 1,
         sr_destination = next_slot (view (contents s))\<rparr>"
      "contents s' (opposite (next_slot (view (contents s)))) =
        contents s (opposite (next_slot (view (contents s))))"
      "dr_generation d = lr_generation (view (contents s)) + 1"
      "view (contents s') = loaded_from (next_slot (view (contents s))) d False"
    using stored_commit [OF assms] by blast
  have "lr_generation (view (contents s)) < lr_generation (view (contents s)) + 1"
    using decide_op_commit(3) [OF d view_no_io_error] by (rule generation_step)
  with d rest show ?thesis
    by (intro exI [of _ "dr_snapshot d"] exI [of _ "dr_migrated d"])
      (cases d, simp add: Let_def)
qed

theorem stored_is_durable_witness:
  "\<exists>bs snapshot migrated. encode_record sample_snapshot 1 = Some bs \<and>
     view (\<lambda>slot. [''slot_a'' \<mapsto> bs] (key_for slot)) = loaded_from Slot_a
       \<lparr>dr_snapshot = snapshot, dr_generation = 1, dr_migrated = migrated\<rparr> False"
proof -
  obtain bs where bs: "encode_record sample_snapshot 1 = Some bs"
    and run: "run_op sample_backend save_first (partition_with Map.empty) =
      (\<lparr>sr_status = SS_stored, sr_generation = 1, sr_destination = Slot_a\<rparr>,
       partition_with [''slot_a'' \<mapsto> bs])"
    using sample_save_first by blast
  have "lr_generation (view (\<lambda>slot. None)) = 0" "next_slot (view (\<lambda>slot. None)) = Slot_a"
    by (simp_all add: view_empty view_empty_iff default_load_def next_slot_def)
  with stored_is_durable [OF sample_quiet run] bs show ?thesis
    by (simp add: Let_def) blast
qed

text \<open>
  C12: an interrupted commit never loses the schedule. Whatever the operation and whatever it
  reports, if the slot it was replacing is left empty, damaged, as it was, or holding the
  complete new record, then a load still reports a record as loaded, and that is either the
  previous snapshot under its generation or the newly committed one under the next.
\<close>

theorem interrupted_commit_safe:
  assumes "quiet_backend storage contents inside unsettled"
    and "run_op storage op s = (r, s')" and "lr_status (view (contents s)) = LS_loaded"
    and "classify (contents s' (next_slot (view (contents s)))) \<in>
           {Absent, Damaged, classify (contents s (next_slot (view (contents s))))} \<or>
         (\<exists>snapshot g slot. decide_op op (view (contents s)) = Inr (snapshot, g, slot) \<and>
            contents s' (next_slot (view (contents s))) = encode_record snapshot g)"
  shows "lr_status (view (contents s')) = LS_loaded \<and>
    (lr_snapshot (view (contents s')) = lr_snapshot (view (contents s)) \<and>
     lr_generation (view (contents s')) = lr_generation (view (contents s)) \<or>
     (\<exists>slot. decide_op op (view (contents s)) =
        Inr (lr_snapshot (view (contents s')), lr_generation (view (contents s')), slot)))"
  using assms(1,2)
proof (cases rule: quiet_backend.run_op_cases [consumes 2, case_names answered committed])
  case answered
  then show ?thesis using assms(3) by simp
next
  case (committed snapshot)
  let ?current = "view (contents s)"
  note plan = decide_op_commit [OF committed(1) view_no_io_error]
  obtain slot d corrupt where current: "?current = loaded_from slot d corrupt"
    using view_loadedE [OF assms(3)] .
  then have next': "next_slot ?current = opposite slot" by (simp add: next_slot_def)
  from assms(4) show ?thesis
  proof
    assume "classify (contents s' (next_slot ?current)) \<in>
      {Absent, Damaged, classify (contents s (next_slot ?current))}"
    with view_torn [OF current, of "contents s'"] committed(2)
    obtain corrupt' where "view (contents s') = loaded_from slot d corrupt'"
      by (auto simp: next')
    with current show ?thesis by simp
  next
    assume "\<exists>snapshot g slot. decide_op op ?current = Inr (snapshot, g, slot) \<and>
      contents s' (next_slot ?current) = encode_record snapshot g"
    then have new: "contents s' (next_slot ?current) = encode_record snapshot (lr_generation ?current + 1)"
      using committed(1) by auto
    show ?thesis
    proof (cases "encode_record snapshot (lr_generation ?current + 1)")
      case None
      with view_torn [OF current, of "contents s'"] committed(2) new
      obtain corrupt' where "view (contents s') = loaded_from slot d corrupt'"
        by (auto simp: next' classify_def)
      with current show ?thesis by simp
    next
      case (Some bs)
      have "view (contents s') = loaded_from (next_slot ?current)
          \<lparr>dr_snapshot = snapshot, dr_generation = lr_generation ?current + 1, dr_migrated = False\<rparr> False"
        by (rule view_commit [where bs = bs])
          (use plan committed(2) new Some decode_encoded [OF Some] in auto)
      with committed(1) show ?thesis by simp
    qed
  qed
qed

lemma decide_save_commit:
  assumes "decide_save snapshot expected current = Inr (committed, g, slot)"
  shows "committed = carried_forward current snapshot" and "current_revision current = expected"
    and "ss_revision snapshot = expected + 1"
proof -
  have "ss_revision (carried_forward current snapshot) = ss_revision snapshot"
    by (simp add: carried_forward_def)
  with assms show "committed = carried_forward current snapshot"
    "current_revision current = expected" "ss_revision snapshot = expected + 1"
    by (auto simp: decide_save_def Let_def split: if_splits)
qed

text \<open>
  C13: a schedule save that is reported stored met the compare-and-set: the revision it expected
  is the one that was stored, the new revision is exactly the next one, and the occurrence
  journal of the stored record was carried forward instead of the caller's copy.
\<close>

theorem save_compare_and_set:
  assumes "quiet_backend storage contents inside unsettled"
    and "save storage snapshot expected s = (r, s')" and "sr_status r = SS_stored"
  shows "current_revision (view (contents s)) = expected \<and> ss_revision snapshot = expected + 1 \<and>
    lr_snapshot (view (contents s')) = carried_forward (view (contents s)) snapshot \<and>
    (lr_status (view (contents s)) = LS_loaded \<longrightarrow>
       ss_occurrence_state (lr_snapshot (view (contents s'))) =
       ss_occurrence_state (lr_snapshot (view (contents s))))"
proof -
  have run: "run_op storage (Op_save snapshot expected) s = (r, s')" using assms(2) by simp
  let ?current = "view (contents s)"
  have "decide_save snapshot expected ?current =
      Inr (lr_snapshot (view (contents s')), lr_generation ?current + 1, next_slot ?current)"
    using stored_commit [OF assms(1) run assms(3)] by auto
  then have "current_revision ?current = expected \<and> ss_revision snapshot = expected + 1 \<and>
      lr_snapshot (view (contents s')) = carried_forward ?current snapshot"
    by (auto dest: decide_save_commit)
  then show ?thesis by (simp add: carried_forward_def)
qed

text \<open>The sample schedule as the store reports it after the first save.\<close>

lemma sample_saved_view:
  assumes "encode_record sample_snapshot 1 = Some bs"
  shows "view (\<lambda>slot. [''slot_a'' \<mapsto> bs] (key_for slot)) = loaded_from Slot_a
    \<lparr>dr_snapshot = sample_snapshot, dr_generation = 1, dr_migrated = False\<rparr> False"
  unfolding view_loaded_iff using classify_decoded [OF decode_encoded [OF assms]]
  by (simp add: classify_def)

theorem save_compare_and_set_witness:
  "\<exists>bs. save sample_backend sample_snapshot 0 (partition_with Map.empty) =
      (\<lparr>sr_status = SS_stored, sr_generation = 1, sr_destination = Slot_a\<rparr>,
       partition_with [''slot_a'' \<mapsto> bs]) \<and>
     current_revision (view (\<lambda>slot. None)) = 0 \<and> ss_revision sample_snapshot = 0 + 1"
proof -
  obtain bs where run: "save sample_backend sample_snapshot 0 (partition_with Map.empty) =
      (\<lparr>sr_status = SS_stored, sr_generation = 1, sr_destination = Slot_a\<rparr>,
       partition_with [''slot_a'' \<mapsto> bs])"
    using sample_save_first by (auto simp: save_first_def)
  from save_compare_and_set [OF sample_quiet run] run show ?thesis by auto
qed

text \<open>
  A journal save that is reported stored met both compare-and-set conditions, replaced the
  occurrence journal, and changed nothing else of the schedule, its revision included.
\<close>

theorem journal_save_compare_and_set:
  assumes "quiet_backend storage contents inside unsettled"
    and "save_occurrence_state storage st expected_revision expected_generation s = (r, s')"
    and "sr_status r = SS_stored"
  shows "lr_status (view (contents s)) = LS_loaded \<and>
    ss_revision (lr_snapshot (view (contents s))) = expected_revision \<and>
    lr_generation (view (contents s)) = expected_generation \<and>
    lr_generation (view (contents s')) = expected_generation + 1 \<and>
    lr_snapshot (view (contents s')) =
      (lr_snapshot (view (contents s)))\<lparr>ss_occurrence_state := st\<rparr>"
proof -
  have run: "run_op storage (Op_save_journal st expected_revision expected_generation) s = (r, s')"
    using assms(2) by simp
  let ?current = "view (contents s)"
  obtain d where "decide_journal st expected_revision expected_generation ?current =
      Inr (dr_snapshot d, lr_generation ?current + 1, next_slot ?current)"
    and "dr_generation d = lr_generation ?current + 1"
    and "view (contents s') = loaded_from (next_slot ?current) d False"
    using stored_commit [OF assms(1) run assms(3)] by auto
  then show ?thesis by (auto simp: decide_journal_def Let_def split: if_splits)
qed

text \<open>The sample journal: the occurrence of the sample alarm, ringing.\<close>

definition sample_journal :: persistent_alarm_state where
  "sample_journal = snd (evaluate_due
     \<lparr>ad_id = ''wake'', ad_schedule_revision = 1, ad_enabled = True, ad_scheduled_utc_seconds = 1000\<rparr>
     empty_journal 1005 7 True)"

lemma sample_journal_valid: "validate_snapshot (sample_snapshot\<lparr>ss_occurrence_state := sample_journal\<rparr>)"
  by code_simp

lemma sample_journal_plan:
  assumes "encode_record sample_snapshot 1 = Some bs"
  shows "decide_op (Op_save_journal sample_journal 1 1)
      (view (\<lambda>slot. [''slot_a'' \<mapsto> bs] (key_for slot))) =
    Inr (sample_snapshot\<lparr>ss_occurrence_state := sample_journal\<rparr>, 2, Slot_b)"
proof -
  have "sample_snapshot\<lparr>ss_occurrence_state := sample_journal\<rparr> \<noteq> sample_snapshot"
    "ss_revision sample_snapshot = 1"
    by code_simp+
  then show ?thesis
    using sample_journal_valid
    by (simp only: sample_saved_view [OF assms]) (simp add: decide_journal_def unusable_def)
qed

lemma readable_single: "encode_record s g = Some bs \<Longrightarrow> readable [k \<mapsto> bs]"
  by (rule readable_encoded) (simp_all add: readable_def)

lemma sample_save_journal:
  "\<exists>bs bs'. encode_record sample_snapshot 1 = Some bs \<and>
     encode_record (sample_snapshot\<lparr>ss_occurrence_state := sample_journal\<rparr>) 2 = Some bs' \<and>
     save_occurrence_state sample_backend sample_journal 1 1 (partition_with [''slot_a'' \<mapsto> bs]) =
       (\<lparr>sr_status = SS_stored, sr_generation = 2, sr_destination = Slot_b\<rparr>,
        partition_with [''slot_a'' \<mapsto> bs, ''slot_b'' \<mapsto> bs'])"
proof -
  obtain bs bs' where bs: "encode_record sample_snapshot 1 = Some bs"
    and bs': "encode_record (sample_snapshot\<lparr>ss_occurrence_state := sample_journal\<rparr>) 2 = Some bs'"
    using encode_record_total sample_valid sample_journal_valid by blast
  from sample_run [where f = "[''slot_a'' \<mapsto> bs]", OF readable_single [OF bs]
      sample_journal_plan [OF bs] bs'] bs bs' show ?thesis
    by (intro exI [of _ bs] exI [of _ bs']) simp
qed

lemma sample_journal_view:
  assumes "encode_record sample_snapshot 1 = Some bs"
    and "encode_record (sample_snapshot\<lparr>ss_occurrence_state := sample_journal\<rparr>) 2 = Some bs'"
  shows "view (\<lambda>slot. [''slot_a'' \<mapsto> bs, ''slot_b'' \<mapsto> bs'] (key_for slot)) = loaded_from Slot_b
    \<lparr>dr_snapshot = sample_snapshot\<lparr>ss_occurrence_state := sample_journal\<rparr>, dr_generation = 2,
     dr_migrated = False\<rparr> False"
  unfolding view_loaded_iff
  using classify_decoded [OF decode_encoded [OF assms(1)]] classify_decoded [OF decode_encoded [OF assms(2)]]
  by simp

theorem journal_save_compare_and_set_witness:
  "\<exists>bs bs'. encode_record sample_snapshot 1 = Some bs \<and>
     lr_snapshot (view (\<lambda>slot. [''slot_a'' \<mapsto> bs, ''slot_b'' \<mapsto> bs'] (key_for slot))) =
       sample_snapshot\<lparr>ss_occurrence_state := sample_journal\<rparr>"
proof -
  obtain bs bs' where bs: "encode_record sample_snapshot 1 = Some bs"
    and run: "save_occurrence_state sample_backend sample_journal 1 1 (partition_with [''slot_a'' \<mapsto> bs]) =
       (\<lparr>sr_status = SS_stored, sr_generation = 2, sr_destination = Slot_b\<rparr>,
        partition_with [''slot_a'' \<mapsto> bs, ''slot_b'' \<mapsto> bs'])"
    using sample_save_journal by blast
  from journal_save_compare_and_set [OF sample_quiet run]
  have "lr_snapshot (view (\<lambda>slot. [''slot_a'' \<mapsto> bs, ''slot_b'' \<mapsto> bs'] (key_for slot))) =
      (lr_snapshot (view (\<lambda>slot. [''slot_a'' \<mapsto> bs] (key_for slot))))\<lparr>ss_occurrence_state := sample_journal\<rparr>"
    by simp
  then have "lr_snapshot (view (\<lambda>slot. [''slot_a'' \<mapsto> bs, ''slot_b'' \<mapsto> bs'] (key_for slot))) =
      sample_snapshot\<lparr>ss_occurrence_state := sample_journal\<rparr>"
    by (simp only: sample_saved_view [OF bs]) simp
  with bs show ?thesis by blast
qed

theorem interrupted_commit_safe_witness:
  "\<exists>bs bs'. encode_record sample_snapshot 1 = Some bs \<and>
     lr_status (view (\<lambda>slot. [''slot_a'' \<mapsto> bs, ''slot_b'' \<mapsto> bs'] (key_for slot))) = LS_loaded"
proof -
  let ?new = "sample_snapshot\<lparr>ss_occurrence_state := sample_journal\<rparr>"
  obtain bs bs' where bs: "encode_record sample_snapshot 1 = Some bs"
    and run: "save_occurrence_state sample_backend sample_journal 1 1 (partition_with [''slot_a'' \<mapsto> bs]) =
       (\<lparr>sr_status = SS_stored, sr_generation = 2, sr_destination = Slot_b\<rparr>,
        partition_with [''slot_a'' \<mapsto> bs, ''slot_b'' \<mapsto> bs'])"
    and enc: "encode_record ?new 2 = Some bs'"
    using sample_save_journal by blast
  have "lr_status (view (sample_contents (partition_with [''slot_a'' \<mapsto> bs, ''slot_b'' \<mapsto> bs']))) = LS_loaded"
  proof (rule interrupted_commit_safe [OF sample_quiet, THEN conjunct1])
    show "run_op sample_backend (Op_save_journal sample_journal 1 1) (partition_with [''slot_a'' \<mapsto> bs]) =
       (\<lparr>sr_status = SS_stored, sr_generation = 2, sr_destination = Slot_b\<rparr>,
        partition_with [''slot_a'' \<mapsto> bs, ''slot_b'' \<mapsto> bs'])"
      using run by simp
  qed (use sample_journal_plan [OF bs] enc in \<open>simp_all only: sample_contents_simp sample_saved_view [OF bs]\<close>,
      auto simp: next_slot_def)
  with bs show ?thesis by auto
qed

text \<open>
  C14: an operation that answers unchanged, conflict, invalid or corrupt has written nothing:
  both slots still hold the bytes they held before.
\<close>

theorem refused_writes_nothing:
  assumes "quiet_backend storage contents inside unsettled"
    and "run_op storage op s = (r, s')"
    and "sr_status r \<notin> {SS_stored, SS_io_error, SS_verification_failed}"
  shows "contents s' = contents s"
  using assms(1,2)
  by (cases rule: quiet_backend.run_op_cases [consumes 2, case_names answered committed])
    (use assms(3) in auto)

text \<open>A retry of the first save, whose acknowledgement was lost.\<close>

lemma sample_retry:
  assumes bs: "encode_record sample_snapshot 1 = Some bs"
  shows "run_op sample_backend save_first (partition_with [''slot_a'' \<mapsto> bs]) =
    (\<lparr>sr_status = SS_unchanged, sr_generation = 1, sr_destination = Slot_a\<rparr>,
     partition_with [''slot_a'' \<mapsto> bs])"
proof (rule sample_run_answer)
  show "readable [''slot_a'' \<mapsto> bs]"
    using bs by (rule readable_single)
  have "sample_snapshot\<lparr>ss_occurrence_state := ss_occurrence_state sample_snapshot\<rparr> = sample_snapshot"
    "ss_revision sample_snapshot = 1"
    by (simp_all add: sample_snapshot_def)
  then show "decide_op save_first (view (\<lambda>slot. [''slot_a'' \<mapsto> bs] (key_for slot))) =
      Inl \<lparr>sr_status = SS_unchanged, sr_generation = 1, sr_destination = Slot_a\<rparr>"
    by (simp only: sample_saved_view [OF bs])
      (simp add: save_first_def decide_save_def unusable_def carried_forward_def current_revision_def)
qed

theorem refused_writes_nothing_witness:
  "\<exists>bs. encode_record sample_snapshot 1 = Some bs \<and>
     sample_contents (snd (run_op sample_backend save_first (partition_with [''slot_a'' \<mapsto> bs]))) =
     sample_contents (partition_with [''slot_a'' \<mapsto> bs])"
proof -
  obtain bs where bs: "encode_record sample_snapshot 1 = Some bs" using sample_save_first by blast
  have "sample_contents (partition_with [''slot_a'' \<mapsto> bs]) =
      sample_contents (partition_with [''slot_a'' \<mapsto> bs])"
    by (rule refused_writes_nothing [OF sample_quiet sample_retry [OF bs]]) simp
  then show ?thesis using bs by (simp add: sample_retry [OF bs])
qed

text \<open>
  Retrying a schedule save whose acknowledgement was lost is idempotent: the same request
  on the store it already changed writes nothing, and answers unchanged with the generation
  and the slot of the first answer, unless the retry itself meets an input error.
\<close>

theorem save_retry_unchanged:
  assumes "quiet_backend storage contents inside unsettled"
    and "save storage snapshot expected s = (r, s')" and "sr_status r = SS_stored"
    and "save storage snapshot expected s' = (r2, s2)"
  shows "contents s2 = contents s' \<and>
    (sr_status r2 = SS_io_error \<or>
     r2 = \<lparr>sr_status = SS_unchanged, sr_generation = sr_generation r, sr_destination = sr_destination r\<rparr>)"
proof -
  let ?c = "view (contents s)" and ?c' = "view (contents s')"
  have run: "run_op storage (Op_save snapshot expected) s = (r, s')"
    "run_op storage (Op_save snapshot expected) s' = (r2, s2)"
    using assms(2,4) by simp_all
  obtain d where d: "decide_save snapshot expected ?c =
      Inr (dr_snapshot d, lr_generation ?c + 1, next_slot ?c)"
    and r: "sr_generation r = dr_generation d" "sr_destination r = next_slot ?c"
    and v: "?c' = loaded_from (next_slot ?c) d False"
    using stored_commit [OF assms(1) run(1) assms(3)] by auto
  note commit = decide_save_commit [OF d]
  have "validate_snapshot (dr_snapshot d)" "ss_revision (dr_snapshot d) = expected + 1"
    using d by (auto simp: decide_save_def Let_def split: if_splits)
  then have "expected \<noteq> - 1" by (auto simp: validate_snapshot_def)
  moreover have "dr_snapshot d = snapshot\<lparr>ss_occurrence_state := ss_occurrence_state (dr_snapshot d)\<rparr>"
    using commit(1) by (auto simp: carried_forward_def)
  ultimately have "decide_op (Op_save snapshot expected) ?c' =
      Inl \<lparr>sr_status = SS_unchanged, sr_generation = sr_generation r, sr_destination = sr_destination r\<rparr>"
    using \<open>ss_revision (dr_snapshot d) = expected + 1\<close> r
    by (simp add: v decide_save_def unusable_def carried_forward_def current_revision_def)
  with assms(1) run(2) show ?thesis
    by (cases rule: quiet_backend.run_op_cases [consumes 2, case_names answered committed]) auto
qed

theorem save_retry_unchanged_witness:
  "\<exists>bs. encode_record sample_snapshot 1 = Some bs \<and>
     save sample_backend sample_snapshot 0 (partition_with Map.empty) =
       (\<lparr>sr_status = SS_stored, sr_generation = 1, sr_destination = Slot_a\<rparr>,
        partition_with [''slot_a'' \<mapsto> bs]) \<and>
     sr_status (fst (save sample_backend sample_snapshot 0 (partition_with [''slot_a'' \<mapsto> bs]))) =
       SS_unchanged"
proof -
  obtain bs where bs: "encode_record sample_snapshot 1 = Some bs"
    and run: "save sample_backend sample_snapshot 0 (partition_with Map.empty) =
      (\<lparr>sr_status = SS_stored, sr_generation = 1, sr_destination = Slot_a\<rparr>,
       partition_with [''slot_a'' \<mapsto> bs])"
    using sample_save_first by (auto simp: save_first_def)
  have again: "save sample_backend sample_snapshot 0 (partition_with [''slot_a'' \<mapsto> bs]) =
      (\<lparr>sr_status = SS_unchanged, sr_generation = 1, sr_destination = Slot_a\<rparr>,
       partition_with [''slot_a'' \<mapsto> bs])"
    using sample_retry [OF bs] by (simp add: save_first_def)
  have "sr_status \<lparr>sr_status = SS_unchanged, sr_generation = 1 :: u64, sr_destination = Slot_a\<rparr> =
      SS_unchanged"
    using save_retry_unchanged [OF sample_quiet run _ again] by simp
  with bs run again show ?thesis by auto
qed

section \<open>Migration\<close>

text \<open>
  A migration that is reported stored rewrites the legacy record under the current schema
  with the same snapshot and the next generation, and the legacy record itself is still
  untouched in its slot, so that a rollback remains possible.
\<close>

theorem migration_keeps_rollback:
  assumes "quiet_backend storage contents inside unsettled"
    and "migrate_to_current_schema storage s = (r, s')" and "sr_status r = SS_stored"
  shows "lr_migrated (view (contents s)) \<and> \<not> lr_migrated (view (contents s')) \<and>
    lr_snapshot (view (contents s')) = lr_snapshot (view (contents s)) \<and>
    lr_generation (view (contents s')) = lr_generation (view (contents s)) + 1 \<and>
    lr_source (view (contents s')) = opposite (lr_source (view (contents s))) \<and>
    contents s' (lr_source (view (contents s))) = contents s (lr_source (view (contents s)))"
proof -
  let ?c = "view (contents s)"
  have run: "run_op storage Op_migrate s = (r, s')" using assms(2) by simp
  obtain d where d: "decide_migrate ?c = Inr (dr_snapshot d, lr_generation ?c + 1, next_slot ?c)"
    and rest: "contents s' (opposite (next_slot ?c)) = contents s (opposite (next_slot ?c))"
      "dr_generation d = lr_generation ?c + 1" "\<not> dr_migrated d"
      "view (contents s') = loaded_from (next_slot ?c) d False"
    using stored_commit [OF assms(1) run assms(3)] by auto
  have "lr_migrated ?c" "dr_snapshot d = lr_snapshot ?c" "next_slot ?c = opposite (lr_source ?c)"
    using d by (auto simp: decide_migrate_def Let_def split: if_splits)
  with rest show ?thesis by simp
qed

text \<open>A record of the first schema: no time zone version, and a checksum over the payload only.\<close>

lemma decode_legacy:
  assumes "decode_payload 1 payload = Some s" and "length payload + 24 \<le> 65536" and "g \<noteq> 0"
  shows "decode_record (record_bytes 1 0 g (word_of_nat (length payload)) (crc32 payload) payload) =
    Some \<lparr>dr_snapshot = s, dr_generation = g, dr_migrated = True\<rparr>"
  using assms by (simp add: decode_record_def read_header_record_bytes header_size_exact)

definition legacy_snapshot :: schedule_snapshot where
  "legacy_snapshot = sample_snapshot\<lparr>ss_timezone_rules_version := ''legacy-v1-unpinned''\<rparr>"

definition legacy_record :: "bytes \<Rightarrow> bytes" where
  "legacy_record payload =
     record_bytes 1 0 1 (word_of_nat (length payload)) (crc32 payload) payload"

lemma sample_legacy_payload:
  "\<exists>payload. decode_payload 1 payload = Some legacy_snapshot \<and> length payload \<le> 10650"
proof -
  obtain alarms journal where a: "put_counted put_alarm (ss_alarms legacy_snapshot) = Some alarms"
    and j: "write_occurrence_state (ss_occurrence_state legacy_snapshot) = Some journal"
    and len: "length alarms + length journal \<le> 10000"
    by (simp add: legacy_snapshot_def sample_snapshot_def put_counted_def put_alarm_def
        write_occurrence_state_def write_string_def put_optional_def)
  let ?payload = "write_integer (ss_revision legacy_snapshot) @ alarms @ journal"
  have eta: "\<lparr>ss_revision = ss_revision legacy_snapshot,
      ss_timezone_rules_version = ''legacy-v1-unpinned'', ss_alarms = ss_alarms legacy_snapshot,
      ss_occurrence_state = ss_occurrence_state legacy_snapshot\<rparr> = legacy_snapshot"
    by (simp add: legacy_snapshot_def)
  have "validate_snapshot legacy_snapshot" by code_simp
  moreover have "length (ss_alarms legacy_snapshot) \<le> 32"
    "ss_timezone_rules_version legacy_snapshot = ''legacy-v1-unpinned''"
    "ps_terminal (ss_occurrence_state legacy_snapshot) = []"
    "ps_watermarks (ss_occurrence_state legacy_snapshot) = []"
    by (simp_all add: legacy_snapshot_def sample_snapshot_def)
  ultimately have "decode_payload 1 ?payload = Some legacy_snapshot"
    using read_write_occurrence_state [OF j, of "[]"]
    by (simp add: eta decode_payload_def Let_def wire_alarm.get_counted_put_counted [OF a])
  moreover have "length ?payload \<le> 10650" using len by simp
  ultimately show ?thesis by blast
qed

lemma sample_legacy_view:
  assumes "decode_payload 1 payload = Some legacy_snapshot" and "length payload \<le> 10650"
  shows "view (\<lambda>slot. [''slot_a'' \<mapsto> legacy_record payload] (key_for slot)) = loaded_from Slot_a
    \<lparr>dr_snapshot = legacy_snapshot, dr_generation = 1, dr_migrated = True\<rparr> False"
proof -
  have "decode_record (legacy_record payload) =
      Some \<lparr>dr_snapshot = legacy_snapshot, dr_generation = 1, dr_migrated = True\<rparr>"
    unfolding legacy_record_def using assms by (intro decode_legacy) simp_all
  from classify_decoded [OF this] show ?thesis
    unfolding view_loaded_iff by (simp add: classify_def)
qed

theorem migration_keeps_rollback_witness:
  "\<exists>payload bs. migrate_to_current_schema sample_backend
       (partition_with [''slot_a'' \<mapsto> legacy_record payload]) =
     (\<lparr>sr_status = SS_stored, sr_generation = 2, sr_destination = Slot_b\<rparr>,
      partition_with [''slot_a'' \<mapsto> legacy_record payload, ''slot_b'' \<mapsto> bs]) \<and>
     lr_snapshot (view (\<lambda>slot. [''slot_a'' \<mapsto> legacy_record payload, ''slot_b'' \<mapsto> bs] (key_for slot))) =
       legacy_snapshot"
proof -
  obtain payload where p: "decode_payload 1 payload = Some legacy_snapshot" "length payload \<le> 10650"
    using sample_legacy_payload by blast
  have "validate_snapshot legacy_snapshot" by code_simp
  then obtain bs where bs: "encode_record legacy_snapshot 2 = Some bs"
    using encode_record_total by blast
  let ?f = "[''slot_a'' \<mapsto> legacy_record payload]"
  note v = sample_legacy_view [OF p]
  have "readable ?f"
    using p(2) by (auto simp: readable_def legacy_record_def dest!: arg_cong [where f = length and y = "[]"])
  moreover have "decide_op Op_migrate (view (\<lambda>slot. ?f (key_for slot))) = Inr (legacy_snapshot, 2, Slot_b)"
    by (simp only: v) (simp add: decide_migrate_def unusable_def)
  ultimately have run: "migrate_to_current_schema sample_backend (partition_with ?f) =
     (\<lparr>sr_status = SS_stored, sr_generation = 2, sr_destination = Slot_b\<rparr>,
      partition_with [''slot_a'' \<mapsto> legacy_record payload, ''slot_b'' \<mapsto> bs])"
    using sample_run [where f = ?f and op = Op_migrate, OF _ _ bs] by simp
  from migration_keeps_rollback [OF sample_quiet run]
  have "lr_snapshot (view (\<lambda>slot. [''slot_a'' \<mapsto> legacy_record payload, ''slot_b'' \<mapsto> bs] (key_for slot))) =
      lr_snapshot (view (\<lambda>slot. ?f (key_for slot)))"
    by simp
  also have "\<dots> = legacy_snapshot" by (simp only: v) simp
  finally show ?thesis using run by blast
qed

end
