(* ===== verification/Nvs_Properties.thy ===== *)
theory Nvs_Properties
  imports Store_Properties
begin

text \<open>
  The properties of the NVS adapter itself: it implements the backend contract of the store on
  any library that keeps its promises, its transactions exclude every other task and adapter,
  and an uncertain write takes the whole partition out of service.
\<close>

section \<open>Steps of the module\<close>

inductive nvs_step :: "'f nvs_api \<Rightarrow> 'f nvs_state \<Rightarrow> 'f nvs_state \<Rightarrow> bool" for api where
  initialize: "nvs_initialize api task st = (e, st') \<Longrightarrow> nvs_step api st st'"
| begins: "nvs_begin_transaction api task self st = (ok, st') \<Longrightarrow> nvs_step api st st'"
| ends: "nvs_step api st (nvs_end_transaction api task self st)"
| reads: "nvs_read api task self slot st = (r, st') \<Longrightarrow> nvs_step api st st'"
| writes: "nvs_write api task self slot bs st = (ok, st') \<Longrightarrow> nvs_step api st st'"

inductive nvs_reachable :: "'f nvs_api \<Rightarrow> 'f nvs_state \<Rightarrow> bool" for api where
  idle: "nv_mutex st = None \<Longrightarrow> nv_transaction_owner st = None \<Longrightarrow> nvs_reachable api st"
| step: "nvs_reachable api st \<Longrightarrow> nvs_step api st st' \<Longrightarrow> nvs_reachable api st'"

lemmas nvs_op_defs = nvs_initialize_def nvs_begin_transaction_def nvs_end_transaction_def
  nvs_read_def nvs_write_def

section \<open>Refinement\<close>

text \<open>
  C15: on every NVS library that keeps its documented promises, the adapter implements the
  backend contract of the schedule store for any task and adapter, so that every property of
  the store holds on the device.
\<close>

theorem nvs_refines_backend:
  assumes "nvs_library api blob pending opened"
  shows "quiet_backend (nvs_backend api task self) (nvs_contents blob)
    (nvs_inside pending opened task self) (nvs_unsettled pending)"
  using assms by (rule nvs_library.adapter_contract)

theorem nvs_refines_backend_witness:
  "quiet_backend (nvs_backend map_api 3 5) (nvs_contents (\<lambda>f. f))
    (nvs_inside (\<lambda>f. {}) (\<lambda>f h. True) 3 5) (nvs_unsettled (\<lambda>f. {}))"
  by (rule nvs_refines_backend) (rule map_library.nvs_library_axioms)

section \<open>Exclusion\<close>

definition lock_ok :: "'f nvs_state \<Rightarrow> bool" where
  "lock_ok st \<longleftrightarrow>
     (case nv_transaction_owner st of
        None \<Rightarrow> nv_mutex st = None
      | Some self \<Rightarrow> (\<exists>task. nv_mutex st = Some (task, 1)))"

lemma lock_ok_step: "nvs_step api st st' \<Longrightarrow> lock_ok st \<Longrightarrow> lock_ok st'"
  by (induction rule: nvs_step.induct)
    (auto simp: nvs_op_defs lock_ok_def acquisitions_def Let_def split: if_splits prod.splits option.splits)

lemma lock_ok_reachable: "nvs_reachable api st \<Longrightarrow> lock_ok st"
  by (induction rule: nvs_reachable.induct) (auto simp: lock_ok_def dest: lock_ok_step)

text \<open>
  Transactions are exclusive. In every reachable state with an open transaction exactly one
  task holds the partition lock; no task can begin another transaction, and every other task and
  every other adapter is refused its reads, writes and end without any effect.
\<close>

theorem nvs_transaction_exclusive:
  assumes "nvs_reachable api st" and "nv_transaction_owner st = Some self"
  shows "\<exists>task. nv_mutex st = Some (task, 1) \<and>
    (\<forall>task' self'. nvs_begin_transaction api task' self' st = (False, st)) \<and>
    (\<forall>task' self' slot bs. (task', self') \<noteq> (task, self) \<longrightarrow>
       nvs_read api task' self' slot st = (Read_io_error, st) \<and>
       nvs_write api task' self' slot bs st = (False, st) \<and>
       nvs_end_transaction api task' self' st = st)"
  using lock_ok_reachable [OF assms(1)] assms(2)
  by (auto simp: lock_ok_def nvs_op_defs try_lock_def)

theorem nvs_transaction_exclusive_witness:
  "nvs_begin_transaction map_api 1 9 (snd (nvs_begin_transaction map_api 0 4 fresh_partition)) =
     (False, snd (nvs_begin_transaction map_api 0 4 fresh_partition))"
proof -
  let ?st = "snd (nvs_begin_transaction map_api 0 4 fresh_partition)"
  have "nvs_reachable map_api fresh_partition"
    by (rule nvs_reachable.idle) (simp_all add: fresh_partition_def)
  then have "nvs_reachable map_api ?st"
    by (rule nvs_reachable.step) (rule nvs_step.begins, rule surjective_pairing)
  moreover have "nv_transaction_owner ?st = Some 4" by (simp add: nvs_run_defs)
  ultimately show ?thesis using nvs_transaction_exclusive by blast
qed

section \<open>The uncertainty latch\<close>

lemma uncertain_step: "nvs_step api st st' \<Longrightarrow> nv_write_uncertain st \<Longrightarrow> nv_write_uncertain st'"
  by (induction rule: nvs_step.induct) (auto simp: nvs_op_defs Let_def split: if_splits prod.splits)

lemma uncertain_steps:
  "(nvs_step api)\<^sup>*\<^sup>* st st' \<Longrightarrow> nv_write_uncertain st \<Longrightarrow> nv_write_uncertain st'"
  by (induction rule: rtranclp_induct) (auto dest: uncertain_step)

text \<open>
  C16: a write that fails after it reached the NVS library, that is with the lock free, the
  transaction its own and a value of an admissible length, takes the partition out of service
  until a reboot, whatever the library did: whatever the module does afterwards, in any task
  and through any adapter, no transaction begins, initialisation is refused, and no read or
  write succeeds.
\<close>

theorem nvs_uncertain_write_latches:
  assumes "nvs_write api task self slot bs st = (False, st')"
    and "try_lock task st" and "nv_transaction_owner st = Some self"
    and "bs \<noteq> []" and "length bs \<le> kMaximumStorageRecordBytes"
    and "(nvs_step api)\<^sup>*\<^sup>* st' st''"
  shows "nv_write_uncertain st'' \<and>
    nvs_initialize api task' st'' = (ESP_ERR_INVALID_STATE, st'') \<and>
    nvs_begin_transaction api task' self' st'' = (False, st'') \<and>
    nvs_read api task' self' slot' st'' = (Read_io_error, st'') \<and>
    nvs_write api task' self' slot' bs' st'' = (False, st'')"
proof -
  have "nv_write_uncertain st'"
    using assms(1-5) by (auto simp: nvs_write_def split: if_splits prod.splits)
  then have "nv_write_uncertain st''" using assms(6) by (rule uncertain_steps [rotated])
  then show ?thesis by (simp add: nvs_op_defs)
qed

text \<open>A library without space: every write is refused and leaves the flash as it is.\<close>

definition failing_api :: "flash_map nvs_api" where
  "failing_api = map_api\<lparr>nvs_set_blob := (\<lambda>h k bs f. (ESP_error 1, f))\<rparr>"

theorem nvs_uncertain_write_latches_witness:
  "nvs_begin_transaction failing_api 1 1
     (snd (nvs_write failing_api 0 0 Slot_a [7] (snd (nvs_begin_transaction failing_api 0 0 fresh_partition)))) =
   (False,
     snd (nvs_write failing_api 0 0 Slot_a [7] (snd (nvs_begin_transaction failing_api 0 0 fresh_partition))))"
proof -
  let ?st = "snd (nvs_begin_transaction failing_api 0 0 fresh_partition)"
  have w: "nvs_write failing_api 0 0 Slot_a [7] ?st = (False, snd (nvs_write failing_api 0 0 Slot_a [7] ?st))"
    by (simp add: nvs_run_defs failing_api_def)
  have "try_lock 0 ?st" "nv_transaction_owner ?st = Some 0"
    by (simp_all add: nvs_run_defs failing_api_def)
  from nvs_uncertain_write_latches [OF w this _ _ rtranclp.rtrancl_refl] show ?thesis by simp
qed

end
