(* ===== verification/Store_Session.thy ===== *)
theory Store_Session
  imports Nvs_Properties
begin

text \<open>
  What the clients of the store (evaluator, disable, reconciliation, coordinator) rely on: that
  the store currently holds a given snapshot under a given generation, and what each call they
  make leaves of that. All of it follows from the backend contract.
\<close>

text \<open>The two tests that every client applies to the status of a commit.\<close>

definition is_conflict :: "store_status \<Rightarrow> bool" where
  "is_conflict status \<longleftrightarrow> status = SS_revision_conflict \<or> status = SS_generation_conflict"

definition committed_ok :: "store_result \<Rightarrow> bool" where
  "committed_ok committed \<longleftrightarrow> sr_status committed = SS_stored \<or> sr_status committed = SS_unchanged"

definition stores :: "(storage_slot \<Rightarrow> bytes option) \<Rightarrow> schedule_snapshot \<Rightarrow> u64 \<Rightarrow> bool" where
  "stores c snapshot generation \<longleftrightarrow>
     lr_status (view c) = LS_loaded \<and> lr_snapshot (view c) = snapshot \<and>
     lr_generation (view c) = generation"

abbreviation stored_journal :: "(storage_slot \<Rightarrow> bytes option) \<Rightarrow> persistent_alarm_state" where
  "stored_journal c \<equiv> ss_occurrence_state (lr_snapshot (view c))"

lemma journal_eta [simp]: "s\<lparr>ss_occurrence_state := ss_occurrence_state s\<rparr> = (s :: schedule_snapshot)"
  by simp

lemma journal_update_eq [simp]:
  "s\<lparr>ss_occurrence_state := st\<rparr> = (s :: schedule_snapshot) \<longleftrightarrow> st = ss_occurrence_state s"
  by (cases s) auto

lemma stores_valid: "stores c snapshot generation \<Longrightarrow> validate_snapshot snapshot"
proof -
  assume st: "stores c snapshot generation"
  then have "lr_status (view c) = LS_loaded" by (simp add: stores_def)
  then obtain slot d corrupt where v: "view c = loaded_from slot d corrupt" by (rule view_loadedE)
  then have "classify (c slot) = Record d" by (simp add: view_loaded_iff)
  then obtain bs where "decode_record bs = Some d"
    by (auto simp: classify_def split: option.splits)
  with st v show ?thesis by (auto simp: stores_def dest: decode_record_valid(1))
qed

context quiet_backend
begin

lemma load_stores:
  assumes "load storage s = (l, s')"
  shows "contents s' = contents s"
    and "lr_status l = LS_loaded \<Longrightarrow> stores (contents s) (lr_snapshot l) (lr_generation l)"
  using load_view [OF assms] by (auto simp: stores_def)

text \<open>A journal commit that did not fail, from a state in which the store is known.\<close>

lemma journal_commit_stores:
  assumes "stores (contents s) snapshot generation"
    and "save_occurrence_state storage st expected_revision expected_generation s = (r, s')"
    and "sr_status r = SS_stored \<or> sr_status r = SS_unchanged"
  shows "expected_revision = ss_revision snapshot"
    and "stores (contents s') (snapshot\<lparr>ss_occurrence_state := st\<rparr>) (sr_generation r)"
    and "sr_status r = SS_stored \<Longrightarrow> expected_generation = generation"
    and "sr_status r = SS_unchanged \<Longrightarrow> st = ss_occurrence_state snapshot"
proof -
  let ?op = "Op_save_journal st expected_revision expected_generation"
  have run: "run_op storage ?op s = (r, s')" using assms(2) by simp
  have current: "lr_status (view (contents s)) = LS_loaded" "lr_snapshot (view (contents s)) = snapshot"
    "lr_generation (view (contents s)) = generation"
    using assms(1) by (simp_all add: stores_def)
  have "expected_revision = ss_revision snapshot \<and>
    stores (contents s') (snapshot\<lparr>ss_occurrence_state := st\<rparr>) (sr_generation r) \<and>
    (sr_status r = SS_stored \<longrightarrow> expected_generation = generation) \<and>
    (sr_status r = SS_unchanged \<longrightarrow> st = ss_occurrence_state snapshot)"
  proof (cases "sr_status r = SS_stored")
    case True
    obtain d where "decide_journal st expected_revision expected_generation (view (contents s)) =
        Inr (dr_snapshot d, generation + 1, next_slot (view (contents s)))"
      and "dr_generation d = generation + 1" and "sr_generation r = generation + 1"
      and "view (contents s') = loaded_from (next_slot (view (contents s))) d False"
      using stored_commit [OF quiet_backend_axioms run True] current by auto
    with current True show ?thesis
      by (auto simp: decide_journal_def Let_def stores_def split: if_splits)
  next
    case False
    with assms(3) have unchanged: "sr_status r = SS_unchanged" by simp
    from run show ?thesis
    proof (cases rule: run_op_cases [case_names answered committed])
      case answered
      with unchanged current have "decide_journal st expected_revision expected_generation
          (view (contents s)) = Inl r" by auto
      with current unchanged answered(1) show ?thesis
        by (auto simp: decide_journal_def Let_def stores_def default_store_def split: if_splits)
    next
      case (committed committed_snapshot)
      with unchanged show ?thesis by simp
    qed
  qed
  then show "expected_revision = ss_revision snapshot"
    and "stores (contents s') (snapshot\<lparr>ss_occurrence_state := st\<rparr>) (sr_generation r)"
    and "sr_status r = SS_stored \<Longrightarrow> expected_generation = generation"
    and "sr_status r = SS_unchanged \<Longrightarrow> st = ss_occurrence_state snapshot"
    by simp_all
qed

text \<open>A schedule commit that did not fail, to a revision other than the stored one.\<close>

lemma schedule_commit_stores:
  assumes "stores (contents s) snapshot generation"
    and "save storage new expected_revision s = (r, s')"
    and "sr_status r = SS_stored \<or> sr_status r = SS_unchanged"
    and "ss_revision new \<noteq> ss_revision snapshot"
  shows "expected_revision = ss_revision snapshot" and "ss_revision new = ss_revision snapshot + 1"
    and "stores (contents s') (new\<lparr>ss_occurrence_state := ss_occurrence_state snapshot\<rparr>) (sr_generation r)"
proof -
  let ?op = "Op_save new expected_revision"
  have run: "run_op storage ?op s = (r, s')" using assms(2) by simp
  have current: "lr_status (view (contents s)) = LS_loaded" "lr_snapshot (view (contents s)) = snapshot"
    using assms(1) by (simp_all add: stores_def)
  then have carried: "carried_forward (view (contents s)) new =
      new\<lparr>ss_occurrence_state := ss_occurrence_state snapshot\<rparr>"
    "current_revision (view (contents s)) = ss_revision snapshot"
    by (simp_all add: carried_forward_def current_revision_def)
  have differs: "snapshot \<noteq> new\<lparr>ss_occurrence_state := ss_occurrence_state snapshot\<rparr>"
    using assms(4) by (metis schedule_snapshot.select_convs(1) schedule_snapshot.surjective
        schedule_snapshot.update_convs(4))
  from run have stored: "sr_status r = SS_stored"
  proof (cases rule: run_op_cases [case_names answered committed])
    case answered
    with current carried differs assms(3) show ?thesis
      by (auto simp: decide_save_def Let_def default_store_def split: if_splits)
  next
    case committed
    with assms(3) show ?thesis by auto
  qed
  obtain d where d: "decide_save new expected_revision (view (contents s)) =
      Inr (dr_snapshot d, lr_generation (view (contents s)) + 1, next_slot (view (contents s)))"
    and rest: "dr_generation d = lr_generation (view (contents s)) + 1"
      "sr_generation r = lr_generation (view (contents s)) + 1"
      "view (contents s') = loaded_from (next_slot (view (contents s))) d False"
    using stored_commit [OF quiet_backend_axioms run stored] by auto
  note commit = decide_save_commit [OF d]
  show "expected_revision = ss_revision snapshot" "ss_revision new = ss_revision snapshot + 1"
    using commit(2,3) carried(2) by simp_all
  show "stores (contents s') (new\<lparr>ss_occurrence_state := ss_occurrence_state snapshot\<rparr>) (sr_generation r)"
    using commit(1) rest carried(1) by (simp add: stores_def)
qed

end

end
