(* ===== verification/Alarm_Disable.thy ===== *)
theory Alarm_Disable
  imports Store_Session
begin

text \<open>
  The confirmed disable of one alarm, \<open>committed_alarm_disable.cpp\<close>: a terminal dismiss record
  for the alarm's active occurrence is committed first, and only then the changed definition
  under a new schedule revision.
\<close>

section \<open>Types and the operation\<close>

datatype committed_disable_status =
    CD_disabled
  | CD_alarm_not_found
  | CD_already_disabled
  | CD_empty_store
  | CD_invalid_store
  | CD_io_error
  | CD_persistence_conflict
  | CD_persistence_error

record committed_alarm_disable_result =
  cd_status :: committed_disable_status
  cd_occurrence_id :: string
  cd_journal_committed :: bool
  cd_definition_committed :: bool
  cd_stop_alert :: bool
  cd_schedule_revision :: u64
  cd_generation :: u64

definition default_disable :: committed_alarm_disable_result where
  "default_disable =
     \<lparr>cd_status = CD_persistence_error, cd_occurrence_id = [], cd_journal_committed = False,
      cd_definition_committed = False, cd_stop_alert = False, cd_schedule_revision = 0,
      cd_generation = 0\<rparr>"

text \<open>
  Phase 2, from the target's \<open>enabled\<close> test on. The loop over the alarms of the copied snapshot
  clears the flag of every definition with the identifier.
\<close>

definition disable_alarm :: "string \<Rightarrow> stored_alarm_definition \<Rightarrow> stored_alarm_definition" where
  "disable_alarm alarm_id alarm =
     (if sa_id alarm = alarm_id then alarm\<lparr>sa_enabled := False\<rparr> else alarm)"

definition disabled_snapshot :: "schedule_snapshot \<Rightarrow> string \<Rightarrow> schedule_snapshot" where
  "disabled_snapshot snapshot alarm_id =
     snapshot\<lparr>ss_alarms := map (disable_alarm alarm_id) (ss_alarms snapshot),
              ss_revision := ss_revision snapshot + 1\<rparr>"

definition disable_definition ::
    "'s slot_storage \<Rightarrow> schedule_snapshot \<Rightarrow> stored_alarm_definition \<Rightarrow> string \<Rightarrow>
     committed_alarm_disable_result \<Rightarrow> 's \<Rightarrow> committed_alarm_disable_result \<times> 's" where
  "disable_definition storage snapshot target alarm_id result s =
     (if \<not> sa_enabled target
      then (result\<lparr>cd_status :=
              (if cd_journal_committed result then CD_disabled else CD_already_disabled)\<rparr>, s)
      else
        let disabled = disabled_snapshot snapshot alarm_id in
        if ss_revision disabled = 0 then (result\<lparr>cd_status := CD_persistence_error\<rparr>, s)
        else case save storage disabled (ss_revision snapshot) s of
          (committed, s) \<Rightarrow>
            let result = result\<lparr>cd_generation := sr_generation committed\<rparr> in
            if committed_ok committed
            then (result\<lparr>cd_definition_committed := True,
                         cd_schedule_revision := ss_revision disabled,
                         cd_status := CD_disabled\<rparr>, s)
            else (result\<lparr>cd_status :=
                    (if is_conflict (sr_status committed) then CD_persistence_conflict
                     else CD_persistence_error)\<rparr>, s))"

definition disable_committed_alarm ::
    "'s slot_storage \<Rightarrow> string \<Rightarrow> 's \<Rightarrow> committed_alarm_disable_result \<times> 's" where
  "disable_committed_alarm storage alarm_id s =
     (case load storage s of (loaded, s) \<Rightarrow>
        if lr_status loaded = LS_io_error then (default_disable\<lparr>cd_status := CD_io_error\<rparr>, s)
        else if lr_status loaded \<noteq> LS_loaded
        then (default_disable\<lparr>cd_status :=
                (if lr_status loaded = LS_empty then CD_empty_store else CD_invalid_store)\<rparr>, s)
        else
          let snapshot = lr_snapshot loaded;
              result = default_disable\<lparr>cd_schedule_revision := ss_revision snapshot,
                                       cd_generation := lr_generation loaded\<rparr>
          in case find (\<lambda>alarm. sa_id alarm = alarm_id) (ss_alarms snapshot) of
               None \<Rightarrow> (result\<lparr>cd_status := CD_alarm_not_found\<rparr>, s)
             | Some target \<Rightarrow>
                (case ps_active (ss_occurrence_state snapshot) of
                   Some active \<Rightarrow>
                     if ao_alarm_id active = alarm_id
                     then
                       let result = result\<lparr>cd_occurrence_id := ao_occurrence_id active\<rparr> in
                       case dismiss_active (ss_occurrence_state snapshot) (ao_occurrence_id active) True of
                         (dismissed, st) \<Rightarrow>
                           if \<not> er_persist_before_effects dismissed \<or> \<not> er_stop_alert dismissed
                           then (result\<lparr>cd_status := CD_persistence_error\<rparr>, s)
                           else case save_occurrence_state storage st (ss_revision snapshot)
                                       (lr_generation loaded) s of
                             (committed, s) \<Rightarrow>
                               let result = result\<lparr>cd_generation := sr_generation committed\<rparr> in
                               if \<not> committed_ok committed
                               then (result\<lparr>cd_status :=
                                        (if is_conflict (sr_status committed)
                                         then CD_persistence_conflict else CD_persistence_error),
                                      cd_stop_alert := False\<rparr>, s)
                               else disable_definition storage snapshot target alarm_id
                                      (result\<lparr>cd_journal_committed := True, cd_stop_alert := True\<rparr>) s
                     else disable_definition storage snapshot target alarm_id result s
                 | None \<Rightarrow> disable_definition storage snapshot target alarm_id result s))"

section \<open>What it leaves in the store\<close>

lemma disable_alarm_idle:
  assumes "find (\<lambda>alarm. sa_id alarm = alarm_id) alarms = Some target" and "\<not> sa_enabled target"
    and "distinct (map sa_id alarms)"
  shows "map (disable_alarm alarm_id) alarms = alarms"
proof (rule map_idI)
  fix alarm assume alarm: "alarm \<in> set alarms"
  show "disable_alarm alarm_id alarm = alarm"
  proof (cases "sa_id alarm = alarm_id")
    case True
    from assms(1) have "target \<in> set alarms" "sa_id target = alarm_id"
      by (auto simp: find_Some_iff)
    with True alarm assms(3) have "alarm = target" by (auto simp: distinct_map inj_on_def)
    with assms(2) show ?thesis by (simp add: disable_alarm_def)
  qed (simp add: disable_alarm_def)
qed

lemma run_op_keeps_current:
  assumes "quiet_backend storage contents inside unsettled"
    and "run_op storage op s = (r, s')" and "lr_status (view (contents s)) = LS_loaded"
  shows "contents s' (lr_source (view (contents s))) = contents s (lr_source (view (contents s)))"
  using assms(1,2)
proof (cases rule: quiet_backend.run_op_cases [consumes 2, case_names answered committed])
  case answered
  then show ?thesis by simp
next
  case committed
  from committed(2) assms(3) show ?thesis by (simp add: next_slot_def)
qed

text \<open>A stored record, wherever it is, that a later commit keeps unless it reuses the slot.\<close>

definition record_kept :: "(storage_slot \<Rightarrow> bytes option) \<Rightarrow> schedule_snapshot \<Rightarrow> u64 \<Rightarrow> bool" where
  "record_kept c snapshot generation \<longleftrightarrow>
     (\<exists>slot d. classify (c slot) = Record d \<and> dr_snapshot d = snapshot \<and> generation < dr_generation d)"

lemma record_kept_commit:
  assumes "quiet_backend storage contents inside unsettled"
    and "run_op storage op s = (r, s')" and "sr_status r = SS_stored"
    and "\<And>slot. slot = lr_source (view (contents s')) \<Longrightarrow> c slot = contents s' slot"
  shows "record_kept c (lr_snapshot (view (contents s'))) (lr_generation (view (contents s)))"
proof -
  obtain d where d: "decide_op op (view (contents s)) =
      Inr (dr_snapshot d, lr_generation (view (contents s)) + 1, next_slot (view (contents s)))"
    and gen: "dr_generation d = lr_generation (view (contents s)) + 1"
    and now: "view (contents s') = loaded_from (next_slot (view (contents s))) d False"
    using stored_commit [OF assms(1-3)] by blast
  have "classify (c (next_slot (view (contents s)))) = Record d"
    using conjunct1 [OF view_loaded_iff [THEN iffD1, OF now]] assms(4) now by (simp add: loaded_from_def)
  moreover have "lr_generation (view (contents s)) < dr_generation d"
    using decide_op_commit(3) [OF d view_no_io_error] by (simp add: gen generation_step)
  ultimately show ?thesis
    unfolding record_kept_def using now by (intro exI conjI) (simp_all add: loaded_from_def)
qed

lemma disable_definition_effect:
  assumes "quiet_backend storage contents inside unsettled"
    and stored: "stores (contents s) (snapshot\<lparr>ss_occurrence_state := st\<rparr>) g"
    and target: "find (\<lambda>alarm. sa_id alarm = alarm_id) (ss_alarms snapshot) = Some target"
    and run: "disable_definition storage snapshot target alarm_id result s = (r, s')"
    and fresh: "\<not> cd_definition_committed result"
  shows "cd_stop_alert r = cd_stop_alert result \<and> cd_journal_committed r = cd_journal_committed result \<and>
      cd_occurrence_id r = cd_occurrence_id result \<and>
      cd_status r \<notin> {CD_alarm_not_found, CD_empty_store, CD_invalid_store, CD_io_error}"
    and "cd_status r \<in> {CD_disabled, CD_already_disabled} \<Longrightarrow>
      lr_status (view (contents s')) = LS_loaded \<and>
      lr_snapshot (view (contents s')) = snapshot
        \<lparr>ss_alarms := map (disable_alarm alarm_id) (ss_alarms snapshot),
         ss_revision := ss_revision snapshot + (if cd_definition_committed r then 1 else 0),
         ss_occurrence_state := st\<rparr>"
    and "cd_status r \<notin> {CD_disabled, CD_already_disabled} \<Longrightarrow> \<not> cd_definition_committed r"
    and "contents s' (lr_source (view (contents s))) = contents s (lr_source (view (contents s)))"
proof -
  show "cd_status r \<notin> {CD_disabled, CD_already_disabled} \<Longrightarrow> \<not> cd_definition_committed r"
    using run fresh by (auto simp: disable_definition_def Let_def split: if_splits prod.splits)
  show "contents s' (lr_source (view (contents s))) = contents s (lr_source (view (contents s)))"
  proof (cases "s' = s")
    case False
    then obtain committed where
      "run_op storage (Op_save (disabled_snapshot snapshot alarm_id) (ss_revision snapshot)) s = (committed, s')"
      using run by (auto simp: disable_definition_def Let_def split: if_splits prod.splits)
    from run_op_keeps_current [OF assms(1) this] stored show ?thesis by (simp add: stores_def)
  qed simp
  show "cd_stop_alert r = cd_stop_alert result \<and> cd_journal_committed r = cd_journal_committed result \<and>
      cd_occurrence_id r = cd_occurrence_id result \<and>
      cd_status r \<notin> {CD_alarm_not_found, CD_empty_store, CD_invalid_store, CD_io_error}"
    using run by (auto simp: disable_definition_def Let_def split: if_splits prod.splits)
  assume ok: "cd_status r \<in> {CD_disabled, CD_already_disabled}"
  show "lr_status (view (contents s')) = LS_loaded \<and>
      lr_snapshot (view (contents s')) = snapshot
        \<lparr>ss_alarms := map (disable_alarm alarm_id) (ss_alarms snapshot),
         ss_revision := ss_revision snapshot + (if cd_definition_committed r then 1 else 0),
         ss_occurrence_state := st\<rparr>"
  proof (cases "sa_enabled target")
    case False
    have "distinct (map sa_id (ss_alarms snapshot))"
      using stores_valid [OF stored] by (simp add: validate_snapshot_def valid_alarms_def)
    with disable_alarm_idle [OF target False] stored run False fresh show ?thesis
      by (cases snapshot) (auto simp: disable_definition_def stores_def)
  next
    case True
    let ?new = "disabled_snapshot snapshot alarm_id"
    obtain committed where sv: "save storage ?new (ss_revision snapshot) s = (committed, s')"
      and landed: "sr_status committed = SS_stored \<or> sr_status committed = SS_unchanged"
      and defn: "cd_definition_committed r"
      using run ok True
      by (auto simp: disable_definition_def committed_ok_def Let_def split: if_splits prod.splits)
    have "ss_revision ?new \<noteq> ss_revision (snapshot\<lparr>ss_occurrence_state := st\<rparr>)"
      by (simp add: disabled_snapshot_def)
    from quiet_backend.schedule_commit_stores(3) [OF assms(1) stored sv landed this] defn
    show ?thesis by (simp add: stores_def disabled_snapshot_def)
  qed
qed

text \<open>Phase 1 followed by phase 2, for an alarm whose occurrence is active.\<close>

lemma dismiss_active_effect:
  assumes "ps_active st = Some a" and "dismiss_active st (ao_occurrence_id a) disabled = (d, st')"
  shows "er_persist_before_effects d" and "er_stop_alert d" and "ps_active st' = None"
    and "ao_occurrence_id a \<in> to_occurrence_id ` set (ps_terminal st')"
  using assms append_terminal_mem [of "\<lparr>to_occurrence_id = ao_occurrence_id a,
      to_reason = (if disabled then TR_alarm_disabled else TR_dismissed)\<rparr>"
      "record_terminal_high_watermark st (ao_alarm_id a) (ao_scheduled_utc_seconds a)"]
  by (auto simp: dismiss_active_def Let_def)

lemma disable_active_effect:
  assumes "quiet_backend storage contents inside unsettled"
    and stores: "stores (contents s) (lr_snapshot loaded) (lr_generation loaded)"
    and same: "contents s1 = contents s" and "lr_status loaded = LS_loaded"
    and target: "find (\<lambda>alarm. sa_id alarm = alarm_id) (ss_alarms (lr_snapshot loaded)) = Some target"
    and active: "ps_active (ss_occurrence_state (lr_snapshot loaded)) = Some active"
      "ao_alarm_id active = alarm_id"
    and ld: "load storage s = (loaded, s1)"
    and run: "disable_committed_alarm storage alarm_id s = (r, s')"
  defines "dismissed \<equiv> (lr_snapshot loaded)\<lparr>ss_occurrence_state :=
      snd (dismiss_active (ss_occurrence_state (lr_snapshot loaded)) (cd_occurrence_id r) True)\<rparr>"
  shows "cd_stop_alert r = cd_journal_committed r"
    and "cd_status r \<notin> {CD_alarm_not_found, CD_empty_store, CD_invalid_store, CD_io_error}"
    and "cd_status r \<notin> {CD_disabled, CD_already_disabled} \<Longrightarrow> \<not> cd_definition_committed r"
    and "\<not> cd_stop_alert r \<Longrightarrow> contents s' (lr_source (view (contents s))) = contents s (lr_source (view (contents s)))"
    and "cd_stop_alert r \<Longrightarrow> record_kept (contents s') dismissed (lr_generation loaded) \<and>
      ps_active (ss_occurrence_state dismissed) = None \<and>
      cd_occurrence_id r \<in> to_occurrence_id ` set (ps_terminal (ss_occurrence_state dismissed))"
    and "cd_status r \<in> {CD_disabled, CD_already_disabled} \<Longrightarrow>
       cd_stop_alert r \<and> lr_status (view (contents s')) = LS_loaded \<and>
       lr_snapshot (view (contents s')) = dismissed
         \<lparr>ss_alarms := map (disable_alarm alarm_id) (ss_alarms (lr_snapshot loaded)),
          ss_revision := ss_revision (lr_snapshot loaded) + (if cd_definition_committed r then 1 else 0)\<rparr>"
proof -
  let ?snap = "lr_snapshot loaded" and ?occ = "ao_occurrence_id active"
  obtain d st where eq: "dismiss_active (ss_occurrence_state ?snap) ?occ True = (d, st)" by fastforce
  note gone = dismiss_active_effect [OF active(1) eq]
  obtain committed s2 where sv: "save_occurrence_state storage st (ss_revision ?snap)
      (lr_generation loaded) s1 = (committed, s2)" by fastforce
  then have op: "run_op storage (Op_save_journal st (ss_revision ?snap) (lr_generation loaded)) s1 = (committed, s2)"
    by simp
  have view: "lr_status (view (contents s)) = LS_loaded" "lr_generation (view (contents s)) = lr_generation loaded"
    using stores by (simp_all add: stores_def)
  let ?result = "default_disable\<lparr>cd_schedule_revision := ss_revision ?snap,
    cd_occurrence_id := ?occ, cd_generation := sr_generation committed,
    cd_journal_committed := True, cd_stop_alert := True\<rparr>"
  let ?all = "cd_stop_alert r = cd_journal_committed r \<and>
    cd_status r \<notin> {CD_alarm_not_found, CD_empty_store, CD_invalid_store, CD_io_error} \<and>
    (cd_status r \<notin> {CD_disabled, CD_already_disabled} \<longrightarrow> \<not> cd_definition_committed r) \<and>
    (\<not> cd_stop_alert r \<longrightarrow> contents s' (lr_source (view (contents s))) = contents s (lr_source (view (contents s)))) \<and>
    (cd_stop_alert r \<longrightarrow> record_kept (contents s') dismissed (lr_generation loaded) \<and>
      ps_active (ss_occurrence_state dismissed) = None \<and>
      cd_occurrence_id r \<in> to_occurrence_id ` set (ps_terminal (ss_occurrence_state dismissed))) \<and>
    (cd_status r \<in> {CD_disabled, CD_already_disabled} \<longrightarrow>
       cd_stop_alert r \<and> lr_status (view (contents s')) = LS_loaded \<and>
       lr_snapshot (view (contents s')) = dismissed
         \<lparr>ss_alarms := map (disable_alarm alarm_id) (ss_alarms (lr_snapshot loaded)),
          ss_revision := ss_revision (lr_snapshot loaded) + (if cd_definition_committed r then 1 else 0)\<rparr>)"
  have ?all
  proof (cases "committed_ok committed")
    case False
    then have "s' = s2" "\<not> cd_stop_alert r" "\<not> cd_journal_committed r" "\<not> cd_definition_committed r"
      "cd_status r \<in> {CD_persistence_conflict, CD_persistence_error}"
      using run ld assms(4) target active sv gone(1,2)
      by (auto simp: disable_committed_alarm_def Let_def eq default_disable_def split: if_splits)
    then show ?thesis using run_op_keeps_current [OF assms(1) op] view(1) same by auto
  next
    case True
    then have ok: "sr_status committed = SS_stored \<or> sr_status committed = SS_unchanged"
      by (simp add: committed_ok_def)
    note commit = quiet_backend.journal_commit_stores(2,4) [OF assms(1) stores [folded same] sv ok]
    have stored: "stores (contents s2) (?snap\<lparr>ss_occurrence_state := st\<rparr>) (sr_generation committed)"
      by (rule commit)
    have fresh: "sr_status committed = SS_stored" using ok commit(2) gone(3) active(1) by auto
    have "disable_definition storage ?snap target alarm_id ?result s2 = (r, s')"
      using run ld assms(4) target active sv True gone(1,2)
      by (simp add: disable_committed_alarm_def Let_def eq)
    note effect = disable_definition_effect [OF assms(1) stored target this]
    have r: "cd_stop_alert r" "cd_journal_committed r" "cd_occurrence_id r = ?occ"
      "cd_status r \<notin> {CD_alarm_not_found, CD_empty_store, CD_invalid_store, CD_io_error}"
      using effect(1) by (simp_all add: default_disable_def)
    then have dismissed: "dismissed = ?snap\<lparr>ss_occurrence_state := st\<rparr>" by (simp add: dismissed_def eq)
    have "record_kept (contents s') dismissed (lr_generation loaded)"
      using record_kept_commit [OF assms(1) op fresh, of "contents s'"] effect(4) stored same view(2)
      by (simp add: default_disable_def stores_def dismissed)
    then show ?thesis using r gone(3,4) effect(2,3) by (simp add: default_disable_def dismissed)
  qed
  then show "cd_stop_alert r = cd_journal_committed r"
    "cd_status r \<notin> {CD_alarm_not_found, CD_empty_store, CD_invalid_store, CD_io_error}"
    "cd_status r \<notin> {CD_disabled, CD_already_disabled} \<Longrightarrow> \<not> cd_definition_committed r"
    "\<not> cd_stop_alert r \<Longrightarrow> contents s' (lr_source (view (contents s))) = contents s (lr_source (view (contents s)))"
    "cd_stop_alert r \<Longrightarrow> record_kept (contents s') dismissed (lr_generation loaded) \<and>
      ps_active (ss_occurrence_state dismissed) = None \<and>
      cd_occurrence_id r \<in> to_occurrence_id ` set (ps_terminal (ss_occurrence_state dismissed))"
    "cd_status r \<in> {CD_disabled, CD_already_disabled} \<Longrightarrow>
       cd_stop_alert r \<and> lr_status (view (contents s')) = LS_loaded \<and>
       lr_snapshot (view (contents s')) = dismissed
         \<lparr>ss_alarms := map (disable_alarm alarm_id) (ss_alarms (lr_snapshot loaded)),
          ss_revision := ss_revision (lr_snapshot loaded) + (if cd_definition_committed r then 1 else 0)\<rparr>"
    by blast+
qed

text \<open>
  C17: a confirmed disable, whatever its outcome. The alert is told to stop only when some slot
  holds a newer record of the stored schedule in which the alarm's active occurrence is dismissed
  into a terminal record; otherwise the record that was current is still in its slot. No definition
  counts as changed unless the operation reports the alarm disabled. In that case the alert is told
  to stop exactly when the alarm's occurrence was active, and the store holds the schedule with
  every definition of that identifier disabled and nothing else of it changed, under the next
  revision if a definition changed, with the journal dismissed or as it was. When the alarm or a
  usable schedule was not found, nothing was written and nothing is stopped.
\<close>

theorem disable_committed_effect:
  assumes "quiet_backend storage contents inside unsettled"
    and "disable_committed_alarm storage alarm_id s = (r, s')"
  defines "stored \<equiv> lr_snapshot (view (contents s))"
  defines "dismissed \<equiv> stored\<lparr>ss_occurrence_state :=
      snd (dismiss_active (ss_occurrence_state stored) (cd_occurrence_id r) True)\<rparr>"
  shows "cd_stop_alert r = cd_journal_committed r \<and>
    (if cd_stop_alert r
     then record_kept (contents s') dismissed (lr_generation (view (contents s))) \<and>
       ps_active (ss_occurrence_state dismissed) = None \<and>
       cd_occurrence_id r \<in> to_occurrence_id ` set (ps_terminal (ss_occurrence_state dismissed))
     else contents s' (lr_source (view (contents s))) = contents s (lr_source (view (contents s)))) \<and>
    (cd_status r \<in> {CD_disabled, CD_already_disabled} \<longrightarrow>
       (cd_stop_alert r \<longleftrightarrow>
         (\<exists>a. ps_active (ss_occurrence_state stored) = Some a \<and> ao_alarm_id a = alarm_id)) \<and>
       lr_status (view (contents s')) = LS_loaded \<and>
       lr_snapshot (view (contents s')) = (if cd_stop_alert r then dismissed else stored)
         \<lparr>ss_alarms := map (disable_alarm alarm_id) (ss_alarms stored),
          ss_revision := ss_revision stored + (if cd_definition_committed r then 1 else 0)\<rparr>) \<and>
    (cd_status r \<notin> {CD_disabled, CD_already_disabled} \<longrightarrow> \<not> cd_definition_committed r) \<and>
    (cd_status r \<in> {CD_alarm_not_found, CD_empty_store, CD_invalid_store, CD_io_error} \<longrightarrow>
       contents s' = contents s \<and> \<not> cd_stop_alert r)"
proof -
  obtain loaded s1 where ld: "load storage s = (loaded, s1)" by fastforce
  note same = quiet_backend.load_stores(1) [OF assms(1) ld]
  let ?snap = "lr_snapshot loaded"
  let ?st = "ss_occurrence_state ?snap"
  let ?result = "default_disable\<lparr>cd_schedule_revision := ss_revision ?snap, cd_generation := lr_generation loaded\<rparr>"
  show ?thesis
  proof (cases "lr_status loaded = LS_loaded \<and>
      find (\<lambda>alarm. sa_id alarm = alarm_id) (ss_alarms ?snap) \<noteq> None")
    case False
    then have "contents s' = contents s" "\<not> cd_stop_alert r" "\<not> cd_journal_committed r"
      "\<not> cd_definition_committed r"
      "cd_status r \<in> {CD_alarm_not_found, CD_empty_store, CD_invalid_store, CD_io_error}"
      using assms(2) ld same
      by (auto simp: disable_committed_alarm_def default_disable_def Let_def split: if_splits option.splits)
    then show ?thesis by auto
  next
    case True
    then obtain target where loaded: "lr_status loaded = LS_loaded"
      and target: "find (\<lambda>alarm. sa_id alarm = alarm_id) (ss_alarms ?snap) = Some target" by blast
    have stores: "stores (contents s) ?snap (lr_generation loaded)"
      using quiet_backend.load_stores(2) [OF assms(1) ld loaded] .
    then have snap: "stored = ?snap" "lr_generation (view (contents s)) = lr_generation loaded"
      by (simp_all add: stores_def stored_def)
    show ?thesis
    proof (cases "\<exists>active. ps_active ?st = Some active \<and> ao_alarm_id active = alarm_id")
      case False
      with assms(2) ld loaded target
      have run: "disable_definition storage ?snap target alarm_id ?result s1 = (r, s')"
        by (auto simp: disable_committed_alarm_def Let_def split: option.splits if_splits)
      have "stores (contents s1) (?snap\<lparr>ss_occurrence_state := ?st\<rparr>) (lr_generation loaded)"
        using stores same by simp
      note effect = disable_definition_effect [OF assms(1) this target run]
      have r: "\<not> cd_stop_alert r" "\<not> cd_journal_committed r"
        "cd_status r \<notin> {CD_alarm_not_found, CD_empty_store, CD_invalid_store, CD_io_error}"
        using effect(1) by (simp_all add: default_disable_def)
      show ?thesis using r effect(2-4) False same by (simp add: snap default_disable_def)
    next
      case True
      then obtain active where active: "ps_active ?st = Some active" "ao_alarm_id active = alarm_id"
        by blast
      note effect = disable_active_effect [OF assms(1) stores same loaded target active ld assms(2)]
      show ?thesis
        unfolding dismissed_def snap by (intro conjI impI) (use effect active in \<open>simp_all split: if_splits\<close>)
    qed
  qed
qed

text \<open>Disabling the sample alarm of the concrete partition.\<close>

lemma sample_disable:
  "\<exists>bs bs'. encode_record sample_snapshot 1 = Some bs \<and>
     disable_committed_alarm sample_backend ''wake'' (partition_with [''slot_a'' \<mapsto> bs]) =
       (\<lparr>cd_status = CD_disabled, cd_occurrence_id = [], cd_journal_committed = False,
         cd_definition_committed = True, cd_stop_alert = False, cd_schedule_revision = 2,
         cd_generation = 2\<rparr>,
        partition_with [''slot_a'' \<mapsto> bs, ''slot_b'' \<mapsto> bs'])"
proof -
  let ?new = "disabled_snapshot sample_snapshot ''wake''"
  obtain bs where bs: "encode_record sample_snapshot 1 = Some bs" using sample_save_first by blast
  have valid: "validate_snapshot ?new" by code_simp
  then obtain bs' where bs': "encode_record ?new 2 = Some bs'" using encode_record_total by blast
  have fields: "?new \<noteq> sample_snapshot" "ss_revision sample_snapshot = 1" "ss_revision ?new = 2"
    "?new\<lparr>ss_occurrence_state := ss_occurrence_state sample_snapshot\<rparr> = ?new"
    by code_simp+
  then have "decide_op (Op_save ?new 1) (view (\<lambda>slot. [''slot_a'' \<mapsto> bs] (key_for slot))) =
      Inr (?new, 2, Slot_b)"
    using valid
    by (simp only: sample_saved_view [OF bs])
      (simp add: decide_save_def carried_forward_def current_revision_def unusable_def)
  from sample_run [where f = "[''slot_a'' \<mapsto> bs]", OF readable_single [OF bs] this bs']
  have sv: "save sample_backend ?new 1 (partition_with [''slot_a'' \<mapsto> bs]) =
      (\<lparr>sr_status = SS_stored, sr_generation = 2, sr_destination = Slot_b\<rparr>,
       partition_with [''slot_a'' \<mapsto> bs, ''slot_b'' \<mapsto> bs'])"
    by simp
  have ld: "load sample_backend (partition_with [''slot_a'' \<mapsto> bs]) = (loaded_from Slot_a
      \<lparr>dr_snapshot = sample_snapshot, dr_generation = 1, dr_migrated = False\<rparr> False,
      partition_with [''slot_a'' \<mapsto> bs])"
    using sample_load [OF readable_single [OF bs]] sample_saved_view [OF bs] by simp
  have "find (\<lambda>alarm. sa_id alarm = ''wake'') (ss_alarms sample_snapshot) = Some
      \<lparr>sa_id = ''wake'', sa_schedule_revision = 1, sa_enabled = True, sa_scheduled_utc_seconds = 1000\<rparr>"
    "ps_active (ss_occurrence_state sample_snapshot) = None"
    by (simp_all add: sample_snapshot_def)
  with fields(2,3) bs show ?thesis
    by (intro exI [of _ bs] exI [of _ bs'])
      (simp add: disable_committed_alarm_def ld disable_definition_def Let_def sv committed_ok_def
        default_disable_def)
qed

theorem disable_committed_effect_witness:
  "\<exists>bs bs'. encode_record sample_snapshot 1 = Some bs \<and>
     cd_status (fst (disable_committed_alarm sample_backend ''wake'' (partition_with [''slot_a'' \<mapsto> bs]))) =
       CD_disabled \<and>
     lr_status (view (\<lambda>slot. [''slot_a'' \<mapsto> bs, ''slot_b'' \<mapsto> bs'] (key_for slot))) = LS_loaded"
proof -
  obtain bs bs' where bs: "encode_record sample_snapshot 1 = Some bs"
    and run: "disable_committed_alarm sample_backend ''wake'' (partition_with [''slot_a'' \<mapsto> bs]) =
       (\<lparr>cd_status = CD_disabled, cd_occurrence_id = [], cd_journal_committed = False,
         cd_definition_committed = True, cd_stop_alert = False, cd_schedule_revision = 2,
         cd_generation = 2\<rparr>,
        partition_with [''slot_a'' \<mapsto> bs, ''slot_b'' \<mapsto> bs'])"
    using sample_disable by blast
  from disable_committed_effect [OF sample_quiet run]
  have "lr_status (view (\<lambda>slot. [''slot_a'' \<mapsto> bs, ''slot_b'' \<mapsto> bs'] (key_for slot))) = LS_loaded"
    by simp
  with bs run show ?thesis by auto
qed

end
