(* ===== verification/Invalid_Time_Recovery.thy ===== *)
theory Invalid_Time_Recovery
  imports Store_Session
begin

text \<open>
  The reconciliation of an interval without valid time, \<open>invalid_time_recovery.cpp\<close>: once the
  clock is valid again, the committed occurrences that were crossed meanwhile are journaled in
  one batch; only the newest of them may still ring. The file repeats the engine's
  \<open>checked_elapsed\<close> verbatim, so the model uses that one.
\<close>

section \<open>Types\<close>

datatype invalid_time_recovery_status =
    IR_reconciled
  | IR_nothing_crossed
  | IR_invalid_time
  | IR_active_conflict
  | IR_journal_capacity
  | IR_empty_store
  | IR_invalid_store
  | IR_io_error
  | IR_persistence_conflict
  | IR_persistence_error

record recovered_occurrence =
  ro_alarm_id :: string
  ro_occurrence_id :: string
  ro_outcome :: evaluation_status
  ro_lateness_seconds :: i64

record invalid_time_recovery_result =
  ir_status :: invalid_time_recovery_status
  ir_schedule_revision :: u64
  ir_generation :: u64
  ir_crossed :: "recovered_occurrence list"
  ir_start_alert :: bool
  ir_ringing_occurrence_id :: string
  ir_journal_committed :: bool

record crossed_candidate =
  cc_alarm_id :: string
  cc_occurrence_id :: string
  cc_scheduled_utc_seconds :: i64
  cc_lateness_seconds :: i64

definition default_recovery :: invalid_time_recovery_result where
  "default_recovery =
     \<lparr>ir_status = IR_persistence_error, ir_schedule_revision = 0, ir_generation = 0,
      ir_crossed = [], ir_start_alert = False, ir_ringing_occurrence_id = [],
      ir_journal_committed = False\<rparr>"

section \<open>The crossed occurrences\<close>

definition is_terminal :: "persistent_alarm_state \<Rightarrow> string \<Rightarrow> bool" where
  "is_terminal st occurrence_id =
     list_ex (\<lambda>t. to_occurrence_id t = occurrence_id) (ps_terminal st)"

definition at_or_below_watermark :: "persistent_alarm_state \<Rightarrow> string \<Rightarrow> i64 \<Rightarrow> bool" where
  "at_or_below_watermark st alarm_id scheduled =
     (case find (\<lambda>w. hw_alarm_id w = alarm_id) (ps_watermarks st) of
        None \<Rightarrow> False
      | Some w \<Rightarrow> sint scheduled \<le> sint (hw_scheduled_utc_seconds w))"

definition stored_occurrence_id :: "stored_alarm_definition \<Rightarrow> string" where
  "stored_occurrence_id alarm = make_occurrence_id
     \<lparr>ad_id = sa_id alarm, ad_schedule_revision = sa_schedule_revision alarm,
      ad_enabled = sa_enabled alarm, ad_scheduled_utc_seconds = sa_scheduled_utc_seconds alarm\<rparr>"

fun collect_crossed ::
    "persistent_alarm_state \<Rightarrow> i64 \<Rightarrow> stored_alarm_definition list \<Rightarrow> crossed_candidate list" where
  "collect_crossed st wall [] = []"
| "collect_crossed st wall (alarm # alarms) =
     (if \<not> sa_enabled alarm \<or> sint wall < sint (sa_scheduled_utc_seconds alarm) \<or>
         is_terminal st (stored_occurrence_id alarm) \<or>
         at_or_below_watermark st (sa_id alarm) (sa_scheduled_utc_seconds alarm)
      then collect_crossed st wall alarms
      else \<lparr>cc_alarm_id = sa_id alarm, cc_occurrence_id = stored_occurrence_id alarm,
            cc_scheduled_utc_seconds = sa_scheduled_utc_seconds alarm, cc_lateness_seconds = 0\<rparr>
           # collect_crossed st wall alarms)"

definition crossed_key :: "crossed_candidate \<Rightarrow> int \<times> string" where
  "crossed_key candidate = (sint (cc_scheduled_utc_seconds candidate), cc_alarm_id candidate)"

definition crossed_order :: "crossed_candidate list \<Rightarrow> crossed_candidate list" where
  "crossed_order crossed = sort_key crossed_key crossed"

section \<open>The batch\<close>

text \<open>
  The loop over the sorted candidates on the copied journal. The comparison of addresses with
  \<open>newest\<close> singles out the last element.
\<close>

fun journal_batch ::
    "bool \<Rightarrow> persistent_alarm_state \<Rightarrow> crossed_candidate list \<Rightarrow> persistent_alarm_state option" where
  "journal_batch newest_rings st [] = Some st"
| "journal_batch newest_rings st (candidate # candidates) =
     (if candidates = [] \<and> newest_rings
      then (if journal_can_accept st (cc_alarm_id candidate) then Some st else None)
      else case journal_terminal st (cc_alarm_id candidate) (cc_occurrence_id candidate)
                  (cc_scheduled_utc_seconds candidate) TR_invalid_time of
             (False, st) \<Rightarrow> None
           | (True, st) \<Rightarrow> journal_batch newest_rings st candidates)"

definition batch_journal ::
    "bool \<Rightarrow> persistent_alarm_state \<Rightarrow> crossed_candidate list \<Rightarrow> i64 \<Rightarrow> i64 \<Rightarrow>
     persistent_alarm_state option" where
  "batch_journal newest_rings st crossed wall mt =
     (case journal_batch newest_rings st crossed of
        None \<Rightarrow> None
      | Some st \<Rightarrow>
          if newest_rings
          then (let newest = last crossed in
                case begin_recovered_ring st (cc_alarm_id newest) (cc_occurrence_id newest)
                       (cc_scheduled_utc_seconds newest) wall mt of
                  (False, st) \<Rightarrow> None
                | (True, st) \<Rightarrow> Some st)
          else Some st)"

fun crossed_records :: "bool \<Rightarrow> crossed_candidate list \<Rightarrow> recovered_occurrence list" where
  "crossed_records newest_rings [] = []"
| "crossed_records newest_rings (candidate # candidates) =
     (let newest = (candidates = []); rings = (newest \<and> newest_rings)
      in \<lparr>ro_alarm_id = cc_alarm_id candidate, ro_occurrence_id = cc_occurrence_id candidate,
          ro_outcome = (if rings then ES_ringing else ES_missed),
          ro_lateness_seconds = (if rings \<or> newest then cc_lateness_seconds candidate else 0)\<rparr>)
     # crossed_records newest_rings candidates"

definition reconcile_after_time_valid ::
    "'s slot_storage \<Rightarrow> i64 \<Rightarrow> i64 \<Rightarrow> bool \<Rightarrow> 's \<Rightarrow> invalid_time_recovery_result \<times> 's" where
  "reconcile_after_time_valid storage wall mt time_valid s =
     (if \<not> time_valid then (default_recovery\<lparr>ir_status := IR_invalid_time\<rparr>, s)
      else case load storage s of (loaded, s) \<Rightarrow>
        if lr_status loaded = LS_io_error then (default_recovery\<lparr>ir_status := IR_io_error\<rparr>, s)
        else if lr_status loaded \<noteq> LS_loaded
        then (default_recovery\<lparr>ir_status :=
                (if lr_status loaded = LS_empty then IR_empty_store else IR_invalid_store)\<rparr>, s)
        else
          let snapshot = lr_snapshot loaded; stored = ss_occurrence_state snapshot;
              result = default_recovery\<lparr>ir_schedule_revision := ss_revision snapshot,
                                        ir_generation := lr_generation loaded\<rparr>
          in if ps_active stored \<noteq> None then (result\<lparr>ir_status := IR_active_conflict\<rparr>, s)
             else
               let sorted = crossed_order (collect_crossed stored wall (ss_alarms snapshot))
               in if sorted = [] then (result\<lparr>ir_status := IR_nothing_crossed\<rparr>, s)
                  else case checked_elapsed wall (cc_scheduled_utc_seconds (last sorted)) of
                    None \<Rightarrow> (result\<lparr>ir_status := IR_invalid_time\<rparr>, s)
                  | Some lateness \<Rightarrow>
                      let newest = (last sorted)\<lparr>cc_lateness_seconds := lateness\<rparr>;
                          crossed = butlast sorted @ [newest];
                          newest_rings = (sint lateness \<le> kLateGraceSeconds)
                      in case batch_journal newest_rings stored crossed wall mt of
                           None \<Rightarrow> (result\<lparr>ir_status := IR_journal_capacity\<rparr>, s)
                         | Some journal \<Rightarrow>
                             (case save_occurrence_state storage journal (ss_revision snapshot)
                                     (lr_generation loaded) s of
                                (committed, s) \<Rightarrow>
                                  let result = result\<lparr>ir_generation := sr_generation committed\<rparr> in
                                  if \<not> committed_ok committed
                                  then (result\<lparr>ir_status :=
                                          (if is_conflict (sr_status committed)
                                           then IR_persistence_conflict
                                           else IR_persistence_error)\<rparr>, s)
                                  else (result\<lparr>ir_status := IR_reconciled,
                                          ir_crossed := crossed_records newest_rings crossed,
                                          ir_journal_committed := True,
                                          ir_start_alert := newest_rings,
                                          ir_ringing_occurrence_id :=
                                            (if newest_rings then cc_occurrence_id newest else [])\<rparr>, s)))"

end
