(* ===== verification/Committed_Evaluator.thy ===== *)
theory Committed_Evaluator
  imports Store_Session
begin

text \<open>
  The committed evaluator, \<open>committed_schedule_evaluator.cpp\<close>: one pass over the stored schedule
  that advances or recovers the active occurrence and then evaluates every alarm in a fixed
  order, committing each journal change before its alert edge may be seen.
\<close>

section \<open>Types\<close>

datatype committed_evaluation_status =
    CE_evaluated
  | CE_invalid_time
  | CE_empty_store
  | CE_invalid_store
  | CE_io_error
  | CE_persistence_conflict
  | CE_persistence_error

record committed_alarm_evaluation =
  ce_alarm_id :: string
  ce_result :: evaluation_result
  ce_journal_committed :: bool
  ce_from_active_occurrence :: bool

record committed_schedule_evaluation =
  cs_status :: committed_evaluation_status
  cs_schedule_revision :: u64
  cs_generation :: u64
  cs_alarms :: "committed_alarm_evaluation list"

definition default_evaluation :: committed_schedule_evaluation where
  "default_evaluation =
     \<lparr>cs_status = CE_evaluated, cs_schedule_revision = 0, cs_generation = 0, cs_alarms = []\<rparr>"

definition push_alarm ::
    "committed_schedule_evaluation \<Rightarrow> committed_alarm_evaluation \<Rightarrow> committed_schedule_evaluation" where
  "push_alarm evaluation alarm = evaluation\<lparr>cs_alarms := cs_alarms evaluation @ [alarm]\<rparr>"

section \<open>Operations\<close>

definition alarm_id_from_occurrence_id :: "string \<Rightarrow> string" where
  "alarm_id_from_occurrence_id occurrence_id = takeWhile (\<lambda>c. c \<noteq> CHR '':'') occurrence_id"

text \<open>
  The state passing of \<open>commit_occurrence_transition\<close>: the two referenced results are returned,
  and on failure the alarm's entry has been moved into the evaluation.
\<close>

definition commit_occurrence_transition ::
    "'s slot_storage \<Rightarrow> persistent_alarm_state \<Rightarrow> committed_schedule_evaluation \<Rightarrow>
     committed_alarm_evaluation \<Rightarrow> 's \<Rightarrow>
     (bool \<times> committed_schedule_evaluation \<times> committed_alarm_evaluation) \<times> 's" where
  "commit_occurrence_transition storage st evaluation alarm s =
     (if \<not> er_persist_before_effects (ce_result alarm) then ((True, evaluation, alarm), s)
      else case save_occurrence_state storage st (cs_schedule_revision evaluation)
                  (cs_generation evaluation) s of
        (committed, s) \<Rightarrow>
          let evaluation = evaluation\<lparr>cs_generation := sr_generation committed\<rparr> in
          if sr_status committed \<noteq> SS_stored \<and> sr_status committed \<noteq> SS_unchanged
          then let alarm = alarm\<lparr>ce_result := (ce_result alarm)
                             \<lparr>er_start_alert := False, er_stop_alert := False\<rparr>\<rparr>
               in ((False,
                    (push_alarm evaluation alarm)\<lparr>cs_status :=
                       (if sr_status committed = SS_revision_conflict \<or>
                           sr_status committed = SS_generation_conflict
                        then CE_persistence_conflict else CE_persistence_error)\<rparr>, alarm), s)
          else let result = (ce_result alarm)\<lparr>er_persist_before_effects := False\<rparr>;
                   result = (if sr_status committed = SS_unchanged
                             then result\<lparr>er_status := ES_duplicate, er_start_alert := False,
                                         er_stop_alert := False\<rparr>
                             else result)
               in ((True, evaluation, alarm\<lparr>ce_journal_committed := True, ce_result := result\<rparr>), s))"

text \<open>
  \<open>std::sort\<close> by scheduled instant and identifier. Stored identifiers are distinct, so the
  comparison is a total order on them and the sorted list is unique.
\<close>

definition evaluation_key :: "stored_alarm_definition \<Rightarrow> int \<times> string" where
  "evaluation_key alarm = (sint (sa_scheduled_utc_seconds alarm), sa_id alarm)"

definition evaluation_order :: "stored_alarm_definition list \<Rightarrow> stored_alarm_definition list" where
  "evaluation_order alarms = sort_key evaluation_key alarms"

definition to_definition :: "stored_alarm_definition \<Rightarrow> alarm_definition" where
  "to_definition stored =
     \<lparr>ad_id = sa_id stored, ad_schedule_revision = sa_schedule_revision stored,
      ad_enabled = sa_enabled stored, ad_scheduled_utc_seconds = sa_scheduled_utc_seconds stored\<rparr>"

text \<open>One entry of the pass: freeze on an invalid reading, commit, then record the entry.\<close>

definition settle_entry ::
    "'s slot_storage \<Rightarrow> persistent_alarm_state \<Rightarrow> committed_schedule_evaluation \<Rightarrow>
     committed_alarm_evaluation \<Rightarrow> 's \<Rightarrow> (bool \<times> committed_schedule_evaluation) \<times> 's" where
  "settle_entry storage st evaluation alarm s =
     (if er_status (ce_result alarm) = ES_invalid_time
      then ((False, (push_alarm evaluation alarm)\<lparr>cs_status := CE_invalid_time\<rparr>), s)
      else case commit_occurrence_transition storage st evaluation alarm s of
             ((False, evaluation, alarm), s) \<Rightarrow> ((False, evaluation), s)
           | ((True, evaluation, alarm), s) \<Rightarrow> ((True, push_alarm evaluation alarm), s))"

fun evaluate_alarms ::
    "'s slot_storage \<Rightarrow> i64 \<Rightarrow> i64 \<Rightarrow> stored_alarm_definition list \<Rightarrow> persistent_alarm_state \<Rightarrow>
     committed_schedule_evaluation \<Rightarrow> 's \<Rightarrow> committed_schedule_evaluation \<times> 's" where
  "evaluate_alarms storage wall mt [] st evaluation s = (evaluation, s)"
| "evaluate_alarms storage wall mt (stored # alarms) st evaluation s =
     (case evaluate_due (to_definition stored) st wall mt True of (result, st) \<Rightarrow>
        case settle_entry storage st evaluation
               \<lparr>ce_alarm_id = sa_id stored, ce_result = result, ce_journal_committed = False,
                ce_from_active_occurrence = False\<rparr> s of
          ((False, evaluation), s) \<Rightarrow> (evaluation, s)
        | ((True, evaluation), s) \<Rightarrow> evaluate_alarms storage wall mt alarms st evaluation s)"

definition active_entry ::
    "active_occurrence \<Rightarrow> evaluation_result \<Rightarrow> committed_alarm_evaluation" where
  "active_entry active result =
     (let alarm_id = alarm_id_from_occurrence_id (ao_occurrence_id active)
      in \<lparr>ce_alarm_id = (if alarm_id = [] then ao_occurrence_id active else alarm_id),
          ce_result = result, ce_journal_committed = False, ce_from_active_occurrence = True\<rparr>)"

definition evaluate_committed_schedule ::
    "'s slot_storage \<Rightarrow> i64 \<Rightarrow> i64 \<Rightarrow> bool \<Rightarrow> string \<Rightarrow> 's \<Rightarrow> committed_schedule_evaluation \<times> 's" where
  "evaluate_committed_schedule storage wall mt time_valid boot_id s =
     (if \<not> time_valid then (default_evaluation\<lparr>cs_status := CE_invalid_time\<rparr>, s)
      else case load storage s of (loaded, s) \<Rightarrow>
        if lr_status loaded \<noteq> LS_loaded
        then (default_evaluation\<lparr>cs_status :=
                (if lr_status loaded = LS_empty then CE_empty_store
                 else if lr_status loaded = LS_io_error then CE_io_error else CE_invalid_store)\<rparr>, s)
        else
          let evaluation = default_evaluation
                \<lparr>cs_schedule_revision := ss_revision (lr_snapshot loaded),
                 cs_generation := lr_generation loaded\<rparr>;
              st = ss_occurrence_state (lr_snapshot loaded);
              alarms = evaluation_order (ss_alarms (lr_snapshot loaded))
          in case ps_active st of
               None \<Rightarrow> evaluate_alarms storage wall mt alarms st evaluation s
             | Some active \<Rightarrow>
                (case (if boot_id = [] then advance_active st mt
                       else recover_after_reboot st wall boot_id) of (result, st) \<Rightarrow>
                   case settle_entry storage st evaluation (active_entry active result) s of
                     ((False, evaluation), s) \<Rightarrow> (evaluation, s)
                   | ((True, evaluation), s) \<Rightarrow>
                       evaluate_alarms storage wall mt alarms st evaluation s))"

end
