(* ===== verification/Evaluator_Properties.thy ===== *)
theory Evaluator_Properties
  imports Committed_Evaluator
begin

text \<open>
  What the committed evaluator promises: an alert edge is reported only after its journal change
  is durable, and at most one alarm starts ringing in a pass.
\<close>

section \<open>One entry\<close>

abbreviation starts :: "committed_alarm_evaluation \<Rightarrow> bool" where
  "starts entry \<equiv> er_start_alert (ce_result entry)"

abbreviation edges :: "committed_alarm_evaluation \<Rightarrow> bool" where
  "edges entry \<equiv> er_start_alert (ce_result entry) \<or> er_stop_alert (ce_result entry)"

text \<open>The occurrence that the entry reports is active in the journal, with no snooze running.\<close>

definition rings_in :: "persistent_alarm_state \<Rightarrow> string \<Rightarrow> bool" where
  "rings_in st occurrence_id \<longleftrightarrow>
     (\<exists>a. ps_active st = Some a \<and> ao_occurrence_id a = occurrence_id \<and>
          ao_snooze_deadline_monotonic_seconds a = None)"

lemma evaluate_due_effect:
  assumes "evaluate_due alarm st wall mt valid = (r, st')"
  shows "er_start_alert r \<Longrightarrow> er_persist_before_effects r \<and> ps_active st = None \<and>
      rings_in st' (er_occurrence_id r)"
    and "\<not> er_stop_alert r"
    and "\<not> er_persist_before_effects r \<Longrightarrow> st' = st"
    and "ps_active st \<noteq> None \<Longrightarrow> \<not> er_persist_before_effects r \<and> \<not> er_start_alert r \<and>
      er_status r \<noteq> ES_invalid_time \<or> \<not> valid"
    and "\<not> er_start_alert r \<Longrightarrow> ps_active st' = ps_active st"
  using assms
  by (auto simp: evaluate_due_def Let_def result_defs rings_in_def split: if_splits option.splits)

lemma advance_active_effect:
  assumes "advance_active st mt = (r, st')" and "ps_active st \<noteq> None"
  shows "er_start_alert r \<Longrightarrow> er_persist_before_effects r \<and> rings_in st' (er_occurrence_id r)"
    and "er_stop_alert r \<Longrightarrow> er_persist_before_effects r"
    and "\<not> er_persist_before_effects r \<Longrightarrow> st' = st"
  using assms
  by (auto simp: advance_active_def Let_def result_defs rings_in_def split: if_splits option.splits)

lemma recover_effect:
  assumes "recover_after_reboot st wall boot = (r, st')" and "ps_active st \<noteq> None"
  shows "er_start_alert r \<Longrightarrow> er_persist_before_effects r \<and> rings_in st' (er_occurrence_id r)"
    and "\<not> er_stop_alert r"
    and "\<not> er_persist_before_effects r \<Longrightarrow> st' = st"
  using assms
  by (auto simp: recover_after_reboot_def Let_def result_defs rings_in_def split: if_splits option.splits)

text \<open>The entry that \<open>settle_entry\<close> adds.\<close>

lemma settle_entry_adds:
  assumes "settle_entry storage st evaluation alarm s = ((go, evaluation'), s')"
  shows "\<exists>alarm'. cs_alarms evaluation' = cs_alarms evaluation @ [alarm'] \<and>
    er_occurrence_id (ce_result alarm') = er_occurrence_id (ce_result alarm) \<and>
    (starts alarm' \<longrightarrow> starts alarm) \<and> (edges alarm' \<longrightarrow> edges alarm) \<and>
    (er_persist_before_effects (ce_result alarm) \<and> edges alarm' \<and>
       er_status (ce_result alarm) \<noteq> ES_invalid_time \<longrightarrow> ce_journal_committed alarm' \<and> go) \<and>
    (go \<longrightarrow> er_status (ce_result alarm) \<noteq> ES_invalid_time)"
  using assms
  by (auto simp: settle_entry_def commit_occurrence_transition_def push_alarm_def Let_def
      split: if_splits prod.splits bool.splits)

lemma settle_entry_starts:
  assumes "settle_entry storage st evaluation alarm s = ((go, evaluation'), s')"
  shows "length (filter starts (cs_alarms evaluation')) \<le>
    length (filter starts (cs_alarms evaluation)) + (if starts alarm then 1 else 0)"
proof -
  obtain alarm' where "cs_alarms evaluation' = cs_alarms evaluation @ [alarm']"
    and "starts alarm' \<longrightarrow> starts alarm"
    using settle_entry_adds [OF assms] by blast
  then show ?thesis by (cases "starts alarm'") simp_all
qed

lemma settle_entry_idle:
  assumes "\<not> er_persist_before_effects (ce_result alarm)"
    and "er_status (ce_result alarm) \<noteq> ES_invalid_time"
  shows "settle_entry storage st evaluation alarm s = ((True, push_alarm evaluation alarm), s)"
  using assms by (simp add: settle_entry_def commit_occurrence_transition_def)

text \<open>While an occurrence is active the due pass only reports; it touches nothing.\<close>

lemma evaluate_alarms_active:
  assumes "ps_active st \<noteq> None"
  shows "\<exists>new. evaluate_alarms storage wall mt alarms st evaluation s =
      (evaluation\<lparr>cs_alarms := cs_alarms evaluation @ new\<rparr>, s) \<and> (\<forall>e \<in> set new. \<not> edges e)"
proof (induction alarms arbitrary: evaluation)
  case Nil
  then show ?case by (intro exI [of _ "[]"]) simp
next
  case (Cons stored alarms)
  obtain r st' where due: "evaluate_due (to_definition stored) st wall mt True = (r, st')"
    by fastforce
  let ?alarm = "\<lparr>ce_alarm_id = sa_id stored, ce_result = r, ce_journal_committed = False,
    ce_from_active_occurrence = False\<rparr>"
  note effect = evaluate_due_effect [OF due]
  from effect(2-4) assms have "st' = st" "\<not> edges ?alarm"
    "\<not> er_persist_before_effects r" "er_status r \<noteq> ES_invalid_time"
    by auto
  moreover obtain new where "evaluate_alarms storage wall mt alarms st (push_alarm evaluation ?alarm) s =
      (evaluation\<lparr>cs_alarms := cs_alarms evaluation @ ?alarm # new\<rparr>, s)" "\<forall>e \<in> set new. \<not> edges e"
    using Cons.IH [of "push_alarm evaluation ?alarm"] by (auto simp: push_alarm_def)
  ultimately show ?case
    using due by (intro exI [of _ "?alarm # new"]) (simp add: settle_entry_idle)
qed

section \<open>At most one start\<close>

abbreviation start_count :: "committed_schedule_evaluation \<Rightarrow> nat" where
  "start_count evaluation \<equiv> length (filter starts (cs_alarms evaluation))"

lemma evaluate_alarms_starts:
  assumes "evaluate_alarms storage wall mt alarms st evaluation s = (evaluation', s')"
  shows "start_count evaluation' \<le> start_count evaluation + (if ps_active st = None then 1 else 0)"
  using assms
proof (induction alarms arbitrary: st evaluation s)
  case Nil
  then show ?case by simp
next
  case (Cons stored alarms)
  obtain r st1 where due: "evaluate_due (to_definition stored) st wall mt True = (r, st1)" by fastforce
  let ?alarm = "\<lparr>ce_alarm_id = sa_id stored, ce_result = r, ce_journal_committed = False,
    ce_from_active_occurrence = False\<rparr>"
  obtain go evaluation1 s1 where entry: "settle_entry storage st1 evaluation ?alarm s = ((go, evaluation1), s1)"
    by (metis prod.exhaust)
  note effect = evaluate_due_effect [OF due]
  have one: "start_count evaluation1 \<le> start_count evaluation + (if er_start_alert r then 1 else 0)"
    using settle_entry_starts [OF entry] by simp
  show ?case
  proof (cases go)
    case False
    with Cons.prems due entry one effect(1) show ?thesis by (auto split: if_splits)
  next
    case True
    with Cons.prems due entry
    have rest: "evaluate_alarms storage wall mt alarms st1 evaluation1 s1 = (evaluation', s')" by simp
    from Cons.IH [OF rest] one effect(1,5) show ?thesis
      by (auto simp: rings_in_def split: if_splits)
  qed
qed

lemma evaluate_start_count:
  "length (filter starts (cs_alarms
     (fst (evaluate_committed_schedule storage wall mt time_valid boot_id s)))) \<le> 1"
proof -
  obtain loaded s1 where ld: "load storage s = (loaded, s1)" by fastforce
  let ?st = "ss_occurrence_state (lr_snapshot loaded)"
  let ?alarms = "evaluation_order (ss_alarms (lr_snapshot loaded))"
  let ?ev = "default_evaluation\<lparr>cs_schedule_revision := ss_revision (lr_snapshot loaded),
    cs_generation := lr_generation loaded\<rparr>"
  have none: "start_count ?ev = 0" by (simp add: default_evaluation_def)
  show ?thesis
  proof (cases "\<not> time_valid \<or> lr_status loaded \<noteq> LS_loaded")
    case True
    then show ?thesis using ld by (auto simp: evaluate_committed_schedule_def default_evaluation_def)
  next
    case False
    show ?thesis
    proof (cases "ps_active ?st")
      case None
      with False ld evaluate_alarms_starts [of storage wall mt ?alarms ?st ?ev s1] none show ?thesis
        by (cases "evaluate_alarms storage wall mt ?alarms ?st ?ev s1")
          (simp add: evaluate_committed_schedule_def Let_def)
    next
      case (Some active)
      obtain r st1 where act: "(if boot_id = [] then advance_active ?st mt
          else recover_after_reboot ?st wall boot_id) = (r, st1)" by fastforce
      have ring: "ps_active st1 \<noteq> None" if "er_start_alert r"
        using that act Some advance_active_effect(1) [of ?st mt r st1]
          recover_effect(1) [of ?st wall boot_id r st1]
        by (auto simp: rings_in_def split: if_splits)
      obtain go ev1 s2 where entry: "settle_entry storage st1 ?ev (active_entry active r) s1 = ((go, ev1), s2)"
        by (metis prod.exhaust)
      have one: "start_count ev1 \<le> (if er_start_alert r then 1 else 0)"
        using settle_entry_starts [OF entry] none by (simp add: active_entry_def Let_def)
      show ?thesis
      proof (cases go)
        case False
        with \<open>\<not> (\<not> time_valid \<or> lr_status loaded \<noteq> LS_loaded)\<close> ld Some act entry one show ?thesis
          by (simp add: evaluate_committed_schedule_def Let_def split: if_splits)
      next
        case True
        obtain ev2 s3 where rest: "evaluate_alarms storage wall mt ?alarms st1 ev1 s2 = (ev2, s3)"
          by fastforce
        have "start_count ev2 \<le> 1"
          using evaluate_alarms_starts [OF rest] one ring by (auto split: if_splits)
        with True \<open>\<not> (\<not> time_valid \<or> lr_status loaded \<noteq> LS_loaded)\<close> ld Some act entry rest
        show ?thesis by (simp add: evaluate_committed_schedule_def Let_def)
      qed
    qed
  qed
qed

text \<open>
  In one pass over the committed schedule at most one entry asks to start an alert, on any
  backend, whatever it answers: a re-ring or recovery of the active occurrence excludes every
  due alarm, and of several due alarms only one is admitted.
\<close>

theorem at_most_one_start:
  "length (filter starts (cs_alarms
     (fst (evaluate_committed_schedule storage wall mt time_valid boot_id s)))) \<le> 1"
  by (rule evaluate_start_count)

section \<open>Commit before effect\<close>

lemma settle_entry_stores:
  assumes "quiet_backend storage contents inside unsettled"
    and "stores (contents s) (snapshot\<lparr>ss_occurrence_state := st\<rparr>) (cs_generation evaluation)"
    and "settle_entry storage st' evaluation alarm s = ((True, evaluation'), s')"
    and "\<not> er_persist_before_effects (ce_result alarm) \<Longrightarrow> st' = st"
  shows "stores (contents s') (snapshot\<lparr>ss_occurrence_state := st'\<rparr>) (cs_generation evaluation')"
proof (cases "er_persist_before_effects (ce_result alarm)")
  case False
  with assms(2-4) show ?thesis
    by (auto simp: settle_entry_def commit_occurrence_transition_def push_alarm_def split: if_splits)
next
  case True
  obtain r where sv: "save_occurrence_state storage st' (cs_schedule_revision evaluation)
      (cs_generation evaluation) s = (r, s')" and ok: "sr_status r = SS_stored \<or> sr_status r = SS_unchanged"
    and g: "cs_generation evaluation' = sr_generation r"
    using assms(3) True
    by (auto simp: settle_entry_def commit_occurrence_transition_def push_alarm_def Let_def
        split: if_splits prod.splits bool.splits)
  show ?thesis
    using quiet_backend.journal_commit_stores(2) [OF assms(1,2) sv ok] by (simp add: g)
qed

lemma settle_entry_same:
  "settle_entry storage st evaluation alarm s = ((go, evaluation'), s') \<Longrightarrow>
     cs_schedule_revision evaluation' = cs_schedule_revision evaluation"
  by (auto simp: settle_entry_def commit_occurrence_transition_def push_alarm_def Let_def
      split: if_splits prod.splits bool.splits)

text \<open>The start edges among some entries are rings of the stored journal.\<close>

definition durable ::
    "(storage_slot \<Rightarrow> bytes option) \<Rightarrow> committed_alarm_evaluation list \<Rightarrow> bool" where
  "durable c entries \<longleftrightarrow>
     (\<forall>e \<in> set entries. (edges e \<longrightarrow> ce_journal_committed e) \<and>
        (starts e \<longrightarrow> lr_status (view c) = LS_loaded \<and>
           rings_in (stored_journal c) (er_occurrence_id (ce_result e))))"

text \<open>One settled entry whose edges were persisted, when it starts or when it does not.\<close>

lemma settle_entry_durable:
  assumes "quiet_backend storage contents inside unsettled"
    and "stores (contents s) (snapshot\<lparr>ss_occurrence_state := st\<rparr>) (cs_generation evaluation)"
    and "settle_entry storage st' evaluation alarm s = ((go, evaluation'), s')"
    and "\<not> er_persist_before_effects (ce_result alarm) \<Longrightarrow> st' = st"
    and "edges alarm \<Longrightarrow> er_persist_before_effects (ce_result alarm) \<and>
      er_status (ce_result alarm) \<noteq> ES_invalid_time"
    and "starts alarm \<Longrightarrow> rings_in st' (er_occurrence_id (ce_result alarm))"
  obtains entry where "cs_alarms evaluation' = cs_alarms evaluation @ [entry]"
    and "durable (contents s') [entry]" and "starts entry \<Longrightarrow> go \<and> ps_active st' \<noteq> None"
proof -
  obtain entry where entry: "cs_alarms evaluation' = cs_alarms evaluation @ [entry]"
    "er_occurrence_id (ce_result entry) = er_occurrence_id (ce_result alarm)"
    "starts entry \<longrightarrow> starts alarm" "edges entry \<longrightarrow> edges alarm"
    "er_persist_before_effects (ce_result alarm) \<and> edges entry \<and>
       er_status (ce_result alarm) \<noteq> ES_invalid_time \<longrightarrow> ce_journal_committed entry \<and> go"
    using settle_entry_adds [OF assms(3)] by blast
  have "stores (contents s') (snapshot\<lparr>ss_occurrence_state := st'\<rparr>) (cs_generation evaluation')" if go
    using settle_entry_stores [OF assms(1,2) _ assms(4)] assms(3) that by simp
  with entry assms(5,6) have "durable (contents s') [entry]" and "starts entry \<Longrightarrow> go"
    by (auto simp: durable_def stores_def)
  with entry assms(6) show ?thesis
    by (intro that [of entry]) (auto simp: rings_in_def)
qed

text \<open>An entry followed by the due pass, which is idle while an occurrence is active.\<close>

lemma settle_entry_then_durable:
  assumes quiet: "quiet_backend storage contents inside unsettled"
    and stored: "stores (contents s) (snapshot\<lparr>ss_occurrence_state := st\<rparr>) (cs_generation evaluation)"
    and entry: "settle_entry storage st' evaluation alarm s = ((go, evaluation1), s1)"
    and effect: "\<not> er_persist_before_effects (ce_result alarm) \<Longrightarrow> st' = st"
      "edges alarm \<Longrightarrow> er_persist_before_effects (ce_result alarm) \<and>
        er_status (ce_result alarm) \<noteq> ES_invalid_time"
      "starts alarm \<Longrightarrow> rings_in st' (er_occurrence_id (ce_result alarm))"
    and run: "(if go then evaluate_alarms storage wall mt alarms st' evaluation1 s1
               else (evaluation1, s1)) = (evaluation', s')"
    and tail: "go \<Longrightarrow>
      stores (contents s1) (snapshot\<lparr>ss_occurrence_state := st'\<rparr>) (cs_generation evaluation1) \<Longrightarrow>
      \<exists>new. cs_alarms evaluation' = cs_alarms evaluation1 @ new \<and> durable (contents s') new"
  shows "\<exists>new. cs_alarms evaluation' = cs_alarms evaluation @ new \<and> durable (contents s') new"
proof -
  obtain head where head: "cs_alarms evaluation1 = cs_alarms evaluation @ [head]"
    and durable: "durable (contents s1) [head]" and act: "starts head \<Longrightarrow> go \<and> ps_active st' \<noteq> None"
    by (rule settle_entry_durable [OF quiet stored entry effect]) blast+
  show ?thesis
  proof (cases go)
    case False
    with run head durable show ?thesis by auto
  next
    case True
    with entry have entry': "settle_entry storage st' evaluation alarm s = ((True, evaluation1), s1)"
      by simp
    have "stores (contents s1) (snapshot\<lparr>ss_occurrence_state := st'\<rparr>) (cs_generation evaluation1)"
      by (rule settle_entry_stores [OF quiet stored entry' effect(1)])
    from tail [OF True this] obtain new
      where new: "cs_alarms evaluation' = cs_alarms evaluation1 @ new" "durable (contents s') new"
      by blast
    have "s' = s1" if "starts head"
      using act [OF that] run evaluate_alarms_active [of st' storage wall mt alarms evaluation1 s1]
      by (auto simp: True)
    with durable have "durable (contents s') [head]" by (cases "starts head") (auto simp: durable_def)
    with head new show ?thesis by (auto simp: durable_def)
  qed
qed

lemma evaluate_due_edge_valid:
  "evaluate_due alarm st wall mt valid = (r, st') \<Longrightarrow> er_start_alert r \<Longrightarrow> er_status r \<noteq> ES_invalid_time"
  by (auto simp: evaluate_due_def Let_def result_defs split: if_splits option.splits)

lemma evaluate_alarms_durable:
  assumes "quiet_backend storage contents inside unsettled"
    and "stores (contents s) (snapshot\<lparr>ss_occurrence_state := st\<rparr>) (cs_generation evaluation)"
    and "evaluate_alarms storage wall mt alarms st evaluation s = (evaluation', s')"
  shows "\<exists>new. cs_alarms evaluation' = cs_alarms evaluation @ new \<and> durable (contents s') new"
  using assms(2,3)
proof (induction alarms arbitrary: st evaluation s)
  case Nil
  then show ?case by (simp add: durable_def)
next
  case (Cons stored alarms)
  obtain r st1 where due: "evaluate_due (to_definition stored) st wall mt True = (r, st1)" by fastforce
  obtain go evaluation1 s1 where entry: "settle_entry storage st1 evaluation
      \<lparr>ce_alarm_id = sa_id stored, ce_result = r, ce_journal_committed = False,
       ce_from_active_occurrence = False\<rparr> s = ((go, evaluation1), s1)"
    by (metis prod.exhaust)
  have run: "(if go then evaluate_alarms storage wall mt alarms st1 evaluation1 s1
      else (evaluation1, s1)) = (evaluation', s')"
    using Cons.prems(2) due entry by (cases go) simp_all
  show ?case
    by (rule settle_entry_then_durable [OF assms(1) Cons.prems(1) entry _ _ _ run])
      (use evaluate_due_effect [OF due] evaluate_due_edge_valid [OF due] Cons.IH run in auto)
qed

lemma active_edge_valid:
  assumes "(if boot_id = [] then advance_active st mt else recover_after_reboot st wall boot_id) = (r, st')"
    and "ps_active st \<noteq> None"
  shows "\<not> er_persist_before_effects r \<Longrightarrow> st' = st"
    and "er_start_alert r \<or> er_stop_alert r \<Longrightarrow>
      er_persist_before_effects r \<and> er_status r \<noteq> ES_invalid_time"
    and "er_start_alert r \<Longrightarrow> rings_in st' (er_occurrence_id r)"
  using assms
  by (auto simp: advance_active_def recover_after_reboot_def Let_def result_defs rings_in_def
      split: if_splits option.splits)

lemma evaluate_durable:
  assumes "quiet_backend storage contents inside unsettled"
    and "evaluate_committed_schedule storage wall mt time_valid boot_id s = (evaluation, s')"
  shows "durable (contents s') (cs_alarms evaluation)"
proof (cases "cs_alarms evaluation = []")
  case True
  then show ?thesis by (simp add: durable_def)
next
  case False
  obtain loaded s1 where ld: "load storage s = (loaded, s1)" by fastforce
  let ?snap = "lr_snapshot loaded"
  let ?st = "ss_occurrence_state ?snap" and ?alarms = "evaluation_order (ss_alarms ?snap)"
  let ?ev = "default_evaluation\<lparr>cs_schedule_revision := ss_revision ?snap,
    cs_generation := lr_generation loaded\<rparr>"
  have none: "cs_alarms ?ev = []" by (simp add: default_evaluation_def)
  have valid: time_valid and loaded: "lr_status loaded = LS_loaded"
    using assms(2) False ld by (auto simp: evaluate_committed_schedule_def default_evaluation_def split: if_splits)
  have stores: "stores (contents s1) (?snap\<lparr>ss_occurrence_state := ?st\<rparr>) (cs_generation ?ev)"
    using quiet_backend.load_stores [OF assms(1) ld] loaded by simp
  note due = evaluate_alarms_durable [OF assms(1)]
  have "\<exists>new. cs_alarms evaluation = cs_alarms ?ev @ new \<and> durable (contents s') new"
  proof (cases "ps_active ?st")
    case None
    with assms(2) valid loaded ld
    have "evaluate_alarms storage wall mt ?alarms ?st ?ev s1 = (evaluation, s')"
      by (simp add: evaluate_committed_schedule_def Let_def)
    from due [OF stores this] show ?thesis .
  next
    case (Some active)
    obtain r st1 where act: "(if boot_id = [] then advance_active ?st mt
        else recover_after_reboot ?st wall boot_id) = (r, st1)" by fastforce
    obtain go ev1 s2 where entry1: "settle_entry storage st1 ?ev (active_entry active r) s1 = ((go, ev1), s2)"
      by (metis prod.exhaust)
    have run: "(if go then evaluate_alarms storage wall mt ?alarms st1 ev1 s2 else (ev1, s2)) = (evaluation, s')"
      using assms(2) valid loaded ld Some act entry1
      by (cases go) (simp_all add: evaluate_committed_schedule_def Let_def split: if_splits)
    have result: "ce_result (active_entry active r) = r" by (simp add: active_entry_def Let_def)
    show ?thesis
      by (rule settle_entry_then_durable [OF assms(1) stores entry1 _ _ _ run])
        (use active_edge_valid [OF act] Some due run in \<open>auto simp: result split: if_splits\<close>)
  qed
  with none show ?thesis by simp
qed

text \<open>
  Commit before effect. Every entry of a pass that reports an alert edge is marked as
  committed to the journal, and when the pass returns, an occurrence that it asks to start is
  the active, unsnoozed occurrence of the journal that the store holds; so no alert can sound
  that a reboot would not find again.
\<close>

theorem evaluator_commits_before_effect:
  assumes "quiet_backend storage contents inside unsettled"
    and "evaluate_committed_schedule storage wall mt time_valid boot_id s = (evaluation, s')"
    and "entry \<in> set (cs_alarms evaluation)"
    and "er_start_alert (ce_result entry) \<or> er_stop_alert (ce_result entry)"
  shows "ce_journal_committed entry \<and>
    (er_start_alert (ce_result entry) \<longrightarrow>
       lr_status (view (contents s')) = LS_loaded \<and>
       rings_in (stored_journal (contents s')) (er_occurrence_id (ce_result entry)))"
  using evaluate_durable [OF assms(1,2)] assms(3,4) by (auto simp: durable_def)

text \<open>
  While the stored journal holds an unsnoozed occurrence whose hour is not over, a pass without
  a boot identifier starts nothing and writes nothing.
\<close>

lemma evaluate_silent:
  assumes "quiet_backend storage contents inside unsettled"
    and "evaluate_committed_schedule storage wall mt True [] s = (evaluation, s')"
    and "lr_status (view (contents s)) = LS_loaded"
    and "ps_active (stored_journal (contents s)) = Some a"
    and "ao_snooze_deadline_monotonic_seconds a = None"
    and "\<And>elapsed. checked_elapsed mt (ao_first_ring_monotonic_seconds a) = Some elapsed \<Longrightarrow>
      sint elapsed < kOccurrenceLifetimeSeconds"
  shows "contents s' = contents s \<and> (\<forall>e \<in> set (cs_alarms evaluation). \<not> starts e)"
proof -
  obtain loaded s1 where ld: "load storage s = (loaded, s1)" by fastforce
  note load = quiet_backend.load_stores [OF assms(1) ld]
  show ?thesis
  proof (cases "lr_status loaded = LS_loaded")
    case False
    with assms(2) ld load(1) show ?thesis
      by (auto simp: evaluate_committed_schedule_def default_evaluation_def)
  next
    case True
    let ?st = "ss_occurrence_state (lr_snapshot loaded)"
    have act: "ps_active ?st = Some a" using load(2) [OF True] assms(4) by (auto simp: stores_def)
    obtain r st where adv: "advance_active ?st mt = (r, st)" by fastforce
    have quiet: "\<not> er_start_alert r" "er_status r = ES_invalid_time \<or> \<not> er_persist_before_effects r"
      "\<not> er_persist_before_effects r \<Longrightarrow> st = ?st"
      using adv act assms(5,6)
      by (auto simp: advance_active_def Let_def result_defs not_le split: option.splits if_splits)
    let ?ev = "default_evaluation\<lparr>cs_schedule_revision := ss_revision (lr_snapshot loaded),
      cs_generation := lr_generation loaded\<rparr>"
    let ?alarms = "evaluation_order (ss_alarms (lr_snapshot loaded))"
    have result: "ce_result (active_entry a r) = r" by (simp add: active_entry_def Let_def)
    show ?thesis
    proof (cases "er_status r = ES_invalid_time")
      case invalid: True
      then have "evaluation = (push_alarm ?ev (active_entry a r))\<lparr>cs_status := CE_invalid_time\<rparr>" "s' = s1"
        using assms(2) ld True act adv
        by (simp_all add: evaluate_committed_schedule_def Let_def settle_entry_def result)
      with quiet(1) load(1) show ?thesis
        by (simp add: push_alarm_def default_evaluation_def result)
    next
      case False
      with quiet(2,3) have idle: "\<not> er_persist_before_effects r" "st = ?st" by auto
      obtain new where "evaluate_alarms storage wall mt ?alarms ?st (push_alarm ?ev (active_entry a r)) s1 =
          ((push_alarm ?ev (active_entry a r))
             \<lparr>cs_alarms := cs_alarms (push_alarm ?ev (active_entry a r)) @ new\<rparr>, s1)"
        "\<forall>e \<in> set new. \<not> edges e"
        using evaluate_alarms_active [of ?st storage wall mt ?alarms "push_alarm ?ev (active_entry a r)" s1]
          act by auto
      then have "cs_alarms evaluation = active_entry a r # new" "s' = s1"
        using assms(2) ld True act adv idle False
        by (auto simp: evaluate_committed_schedule_def Let_def settle_entry_idle result push_alarm_def
            default_evaluation_def)
      with \<open>\<forall>e \<in> set new. \<not> edges e\<close> quiet(1) load(1) show ?thesis by (simp add: result)
    qed
  qed
qed

text \<open>A pass at 1005 s over the sample schedule of the concrete partition.\<close>

definition sample_entry :: committed_alarm_evaluation where
  "sample_entry =
     \<lparr>ce_alarm_id = ''wake'',
      ce_result = \<lparr>er_status = ES_ringing, er_occurrence_id = ''wake:1:1000'', er_start_alert = True,
        er_stop_alert = False, er_persist_before_effects = False, er_late = True,
        er_lateness_seconds = 5, er_recovered_after_reboot = False\<rparr>,
      ce_journal_committed = True, ce_from_active_occurrence = False\<rparr>"

lemma sample_evaluate:
  "\<exists>bs bs'. encode_record sample_snapshot 1 = Some bs \<and>
     encode_record (sample_snapshot\<lparr>ss_occurrence_state := sample_journal\<rparr>) 2 = Some bs' \<and>
     evaluate_committed_schedule sample_backend 1005 7 True [] (partition_with [''slot_a'' \<mapsto> bs]) =
       (\<lparr>cs_status = CE_evaluated, cs_schedule_revision = 1, cs_generation = 2,
         cs_alarms = [sample_entry]\<rparr>,
        partition_with [''slot_a'' \<mapsto> bs, ''slot_b'' \<mapsto> bs'])"
proof -
  obtain bs bs' where bs: "encode_record sample_snapshot 1 = Some bs"
    and bs': "encode_record (sample_snapshot\<lparr>ss_occurrence_state := sample_journal\<rparr>) 2 = Some bs'"
    and sv: "save_occurrence_state sample_backend sample_journal 1 1 (partition_with [''slot_a'' \<mapsto> bs]) =
       (\<lparr>sr_status = SS_stored, sr_generation = 2, sr_destination = Slot_b\<rparr>,
        partition_with [''slot_a'' \<mapsto> bs, ''slot_b'' \<mapsto> bs'])"
    using sample_save_journal by blast
  let ?s = "partition_with [''slot_a'' \<mapsto> bs]"
  have ld: "load sample_backend ?s = (loaded_from Slot_a
      \<lparr>dr_snapshot = sample_snapshot, dr_generation = 1, dr_migrated = False\<rparr> False, ?s)"
    using sample_load [OF readable_single [OF bs]] sample_saved_view [OF bs] by simp
  have "evaluation_order (ss_alarms sample_snapshot) =
      [\<lparr>sa_id = ''wake'', sa_schedule_revision = 1, sa_enabled = True, sa_scheduled_utc_seconds = 1000\<rparr>]"
    by (simp add: evaluation_order_def sample_snapshot_def)
  moreover have "ps_active (ss_occurrence_state sample_snapshot) = None" "ss_revision sample_snapshot = 1"
    by (simp_all add: sample_snapshot_def)
  moreover have "evaluate_due (to_definition \<lparr>sa_id = ''wake'', sa_schedule_revision = 1, sa_enabled = True,
        sa_scheduled_utc_seconds = 1000\<rparr>) (ss_occurrence_state sample_snapshot) 1005 7 True =
      ((ce_result sample_entry)\<lparr>er_persist_before_effects := True\<rparr>, sample_journal)"
    by code_simp
  ultimately have "evaluate_committed_schedule sample_backend 1005 7 True [] ?s =
      (\<lparr>cs_status = CE_evaluated, cs_schedule_revision = 1, cs_generation = 2,
         cs_alarms = [sample_entry]\<rparr>,
        partition_with [''slot_a'' \<mapsto> bs, ''slot_b'' \<mapsto> bs'])"
    by (simp add: evaluate_committed_schedule_def ld Let_def settle_entry_def
        commit_occurrence_transition_def sv default_evaluation_def push_alarm_def)
      (simp add: sample_entry_def)
  with bs bs' show ?thesis by blast
qed

theorem evaluator_commits_before_effect_witness:
  "\<exists>bs bs'. encode_record sample_snapshot 1 = Some bs \<and>
     evaluate_committed_schedule sample_backend 1005 7 True [] (partition_with [''slot_a'' \<mapsto> bs]) =
       (\<lparr>cs_status = CE_evaluated, cs_schedule_revision = 1, cs_generation = 2,
         cs_alarms = [sample_entry]\<rparr>,
        partition_with [''slot_a'' \<mapsto> bs, ''slot_b'' \<mapsto> bs']) \<and>
     rings_in (stored_journal (\<lambda>slot. [''slot_a'' \<mapsto> bs, ''slot_b'' \<mapsto> bs'] (key_for slot))) ''wake:1:1000''"
proof -
  obtain bs bs' where bs: "encode_record sample_snapshot 1 = Some bs"
    and run: "evaluate_committed_schedule sample_backend 1005 7 True [] (partition_with [''slot_a'' \<mapsto> bs]) =
       (\<lparr>cs_status = CE_evaluated, cs_schedule_revision = 1, cs_generation = 2,
         cs_alarms = [sample_entry]\<rparr>,
        partition_with [''slot_a'' \<mapsto> bs, ''slot_b'' \<mapsto> bs'])"
    using sample_evaluate by blast
  have "er_start_alert (ce_result sample_entry)" "er_occurrence_id (ce_result sample_entry) = ''wake:1:1000''"
    by (simp_all add: sample_entry_def)
  with evaluator_commits_before_effect [OF sample_quiet run, of sample_entry]
  have "rings_in (stored_journal (\<lambda>slot. [''slot_a'' \<mapsto> bs, ''slot_b'' \<mapsto> bs'] (key_for slot))) ''wake:1:1000''"
    by simp
  with bs run show ?thesis by blast
qed

section \<open>The order of the pass\<close>

text \<open>
  Whatever sorted permutation \<open>std::sort\<close> returns, it is the one that the model computes: the
  identifiers of a valid snapshot are distinct, so the comparison leaves no ties.
\<close>

lemma evaluation_order_unique:
  assumes "validate_snapshot s" and "mset xs = mset (ss_alarms s)"
    and "sorted_wrt (\<lambda>left right. evaluation_key left \<le> evaluation_key right) xs"
  shows "xs = evaluation_order (ss_alarms s)"
  unfolding evaluation_order_def
proof (rule sort_key_unique [OF assms(2)])
  show "sorted (map evaluation_key xs)" using assms(3) by (simp add: sorted_map)
  have "distinct (map sa_id (ss_alarms s))"
    using assms(1) by (simp add: validate_snapshot_def valid_alarms_def)
  then have "distinct (map sa_id xs)"
    using assms(2) by (metis mset_eq_imp_distinct_iff mset_map)
  then have "distinct (map snd (map evaluation_key xs))" by (simp add: comp_def evaluation_key_def)
  then show "distinct (map evaluation_key xs)" using distinct_map by blast
qed

end
