(* ===== verification/Journal_Provenance.thy ===== *)
theory Journal_Provenance
  imports Alarm_Lifecycle
begin

text \<open>
  The journals that the device produces. The batch operations of the engine take an identifier,
  an alarm and an instant as separate arguments; the device calls them only with the three of
  one definition. In such a journal every terminal record is covered by the watermark of its
  alarm, so that a record dropped by the retention is not admitted again.
\<close>

section \<open>Steps of the device\<close>

inductive device_step :: "persistent_alarm_state \<Rightarrow> persistent_alarm_state \<Rightarrow> bool" where
  evaluate: "engine_apply op st = (r, st') \<Longrightarrow> device_step st st'"
| catch_up: "ps_active st = None \<Longrightarrow>
     journal_terminal st (ad_id alarm) (make_occurrence_id alarm) (ad_scheduled_utc_seconds alarm) reason = (ok, st') \<Longrightarrow>
     device_step st st'"
| late_ring: "make_occurrence_id alarm \<notin> to_occurrence_id ` set (ps_terminal st) \<Longrightarrow>
     begin_recovered_ring st (ad_id alarm) (make_occurrence_id alarm) (ad_scheduled_utc_seconds alarm) wall mt =
       (ok, st') \<Longrightarrow> device_step st st'"
| reanchor: "ps_active st = Some a \<Longrightarrow> ao_snooze_deadline_monotonic_seconds a = None \<Longrightarrow>
     device_step st (st\<lparr>ps_active := Some (a\<lparr>ao_first_ring_monotonic_seconds := mt\<rparr>)\<rparr>)"

inductive device_journal :: "persistent_alarm_state \<Rightarrow> bool" where
  fresh: "device_journal empty_journal"
| step: "device_journal st \<Longrightarrow> device_step st st' \<Longrightarrow> device_journal st'"

lemma device_step_engine: "device_step st st' \<Longrightarrow> engine_step st st'"
  by (induction rule: device_step.induct) (auto intro: engine_step.intros)

lemma device_journal_reachable: "device_journal st \<Longrightarrow> journal_reachable st"
  by (induction rule: device_journal.induct) (auto intro: journal_reachable.intros dest: device_step_engine)

section \<open>Terminal records are watermarked\<close>

definition names_alarm :: "active_occurrence \<Rightarrow> alarm_definition \<Rightarrow> bool" where
  "names_alarm a alarm \<longleftrightarrow>
     ao_alarm_id a = ad_id alarm \<and> ao_occurrence_id a = make_occurrence_id alarm \<and>
     ao_scheduled_utc_seconds a = ad_scheduled_utc_seconds alarm"

definition watermarked :: "persistent_alarm_state \<Rightarrow> bool" where
  "watermarked st \<longleftrightarrow>
     (\<forall>alarm. make_occurrence_id alarm \<in> to_occurrence_id ` set (ps_terminal st) \<longrightarrow>
        settled st (ad_id alarm) (sint (ad_scheduled_utc_seconds alarm))) \<and>
     (\<forall>a. ps_active st = Some a \<longrightarrow> (\<exists>alarm. names_alarm a alarm))"

lemma watermarked_settle:
  assumes "watermarked st"
  shows "watermarked (settle_terminal st (ad_id alarm) (make_occurrence_id alarm) (ad_scheduled_utc_seconds alarm) reason)"
    (is "watermarked ?st")
proof -
  have "settled ?st (ad_id b) (sint (ad_scheduled_utc_seconds b))"
    if "make_occurrence_id b \<in> to_occurrence_id ` set (ps_terminal ?st)" for b
  proof (cases "make_occurrence_id b = make_occurrence_id alarm")
    case True
    then show ?thesis by (simp add: make_occurrence_id_eqD [OF True])
  next
    case False
    with subsetD [OF append_terminal_ids that]
    have "make_occurrence_id b \<in> to_occurrence_id ` set (ps_terminal st)" by simp
    with assms show ?thesis by (simp add: watermarked_def)
  qed
  moreover have "\<exists>alarm. names_alarm a alarm" if "ps_active ?st = Some a" for a
    using that assms by (simp add: watermarked_def)
  ultimately show ?thesis unfolding watermarked_def by blast
qed

lemma watermarked_inactive: "watermarked st \<Longrightarrow> watermarked (st\<lparr>ps_active := None\<rparr>)"
  by (simp add: watermarked_def)

lemma watermarked_active: "watermarked st \<Longrightarrow> names_alarm a alarm \<Longrightarrow> watermarked (st\<lparr>ps_active := Some a\<rparr>)"
  by (auto simp: watermarked_def)

text \<open>Settling the active occurrence, in the terms of its own fields.\<close>

lemma watermarked_settle_active:
  assumes "watermarked st" and "ps_active st = Some a"
  shows "watermarked ((settle_terminal st (ao_alarm_id a) (ao_occurrence_id a) (ao_scheduled_utc_seconds a) reason)
    \<lparr>ps_active := None\<rparr>)"
proof -
  obtain alarm where "names_alarm a alarm" using assms by (auto simp: watermarked_def)
  with watermarked_inactive [OF watermarked_settle [OF assms(1)]] show ?thesis by (simp add: names_alarm_def)
qed

lemma watermarked_update_active:
  assumes "watermarked st" and "ps_active st = Some a"
    and "ao_alarm_id b = ao_alarm_id a" "ao_occurrence_id b = ao_occurrence_id a"
      "ao_scheduled_utc_seconds b = ao_scheduled_utc_seconds a"
  shows "watermarked (st\<lparr>ps_active := Some b\<rparr>)"
proof -
  obtain alarm where "names_alarm a alarm" using assms by (auto simp: watermarked_def)
  with assms have "names_alarm b alarm" by (simp add: names_alarm_def)
  with assms(1) show ?thesis by (rule watermarked_active)
qed

lemmas watermarked_rules = watermarked_settle watermarked_settle_active watermarked_update_active

lemma evaluate_due_watermarked:
  assumes "watermarked st"
  shows "watermarked (snd (evaluate_due alarm st wall mt valid))"
proof -
  have "watermarked (st\<lparr>ps_active := Some a\<rparr>)"
    if "ao_alarm_id a = ad_id alarm" "ao_occurrence_id a = make_occurrence_id alarm"
      "ao_scheduled_utc_seconds a = ad_scheduled_utc_seconds alarm" for a
    by (rule watermarked_active [OF assms, of _ alarm]) (simp add: names_alarm_def that)
  then show ?thesis
    using assms by (auto simp: evaluate_due_def Let_def intro!: watermarked_settle split: option.splits)
qed

lemma engine_apply_watermarked:
  assumes "watermarked st"
  shows "watermarked (snd (engine_apply op st))"
proof (cases op)
  case Op_due
  with assms show ?thesis by (simp add: evaluate_due_watermarked)
next
  case Op_snooze
  with assms show ?thesis
    by (auto simp: request_snooze_def Let_def intro!: watermarked_rules split: option.splits)
next
  case Op_advance
  with assms show ?thesis
    by (auto simp: advance_active_def Let_def intro!: watermarked_rules split: option.splits)
next
  case Op_dismiss
  with assms show ?thesis
    by (auto simp: dismiss_active_def Let_def intro!: watermarked_rules split: option.splits)
next
  case Op_recover
  with assms show ?thesis
    by (auto simp: recover_after_reboot_def Let_def intro!: watermarked_rules split: option.splits)
qed

lemma device_step_watermarked: "device_step st st' \<Longrightarrow> watermarked st \<Longrightarrow> watermarked st'"
proof (induction rule: device_step.induct)
  case (evaluate op st r st')
  with engine_apply_watermarked [of st op] show ?case by simp
next
  case (catch_up st alarm reason ok st')
  then show ?case by (auto simp: journal_terminal_def intro!: watermarked_settle split: if_splits)
next
  case (late_ring alarm st wall mt ok st')
  then show ?case
    by (auto simp: begin_recovered_ring_def names_alarm_def intro!: watermarked_active [of _ _ alarm] split: if_splits)
next
  case (reanchor st a mt)
  then show ?case by (auto intro!: watermarked_update_active)
qed

lemma device_journal_watermarked: "device_journal st \<Longrightarrow> watermarked st"
proof (induction rule: device_journal.induct)
  case fresh
  then show ?case by (simp add: watermarked_def empty_journal_def)
next
  case (step st st')
  then show ?case by (blast intro: device_step_watermarked)
qed

lemma terminal_settled:
  "device_journal st \<Longrightarrow> make_occurrence_id alarm \<in> to_occurrence_id ` set (ps_terminal st) \<Longrightarrow>
     settled st (ad_id alarm) (sint (ad_scheduled_utc_seconds alarm))"
  using device_journal_watermarked by (auto simp: watermarked_def)

end
