(* ===== verification/Recovery_Properties.thy ===== *)
theory Recovery_Properties
  imports Invalid_Time_Recovery Evaluator_Properties Journal_Provenance
begin

text \<open>
  What the reconciliation promises: every crossed occurrence is accounted for in the durable
  journal, only the newest may ring and only within the late grace, a repetition writes
  nothing, and every failure is closed.
\<close>

section \<open>The batch\<close>

lemma journal_terminal_True:
  assumes "journal_terminal st a occ t reason = (True, st')"
  shows "settled st' b u \<longleftrightarrow> settled st b u \<or> b = a \<and> u \<le> sint t"
    and "ps_active st' = ps_active st"
  using assms by (auto simp: journal_terminal_def split: if_splits)

lemma journal_batch_ConsE:
  assumes "journal_batch newest_rings st (candidate # candidates) = Some st'"
  obtains (rings) "candidates = []" "newest_rings" "st' = st" "can_track_terminal st (cc_alarm_id candidate)"
    | (missed) st1 where "candidates \<noteq> [] \<or> \<not> newest_rings"
        "journal_terminal st (cc_alarm_id candidate) (cc_occurrence_id candidate)
           (cc_scheduled_utc_seconds candidate) TR_invalid_time = (True, st1)"
        "journal_batch newest_rings st1 candidates = Some st'"
proof (cases "candidates = [] \<and> newest_rings")
  case True
  with assms rings show ?thesis by (simp add: journal_can_accept_def split: if_splits)
next
  case False
  obtain ok st1 where t: "journal_terminal st (cc_alarm_id candidate) (cc_occurrence_id candidate)
      (cc_scheduled_utc_seconds candidate) TR_invalid_time = (ok, st1)" by fastforce
  with assms False have ok by (cases ok) auto
  with assms False t show ?thesis by (intro missed [of st1]) auto
qed

lemma journal_batch_settles:
  assumes "journal_batch newest_rings st crossed = Some st'"
  shows "ps_active st' = ps_active st \<and> (\<forall>b u. settled st b u \<longrightarrow> settled st' b u) \<and>
    (\<forall>c \<in> set (if newest_rings then butlast crossed else crossed).
       settled st' (cc_alarm_id c) (sint (cc_scheduled_utc_seconds c)))"
  using assms
proof (induction crossed arbitrary: st)
  case Nil
  then show ?case by simp
next
  case (Cons candidate candidates)
  from Cons.prems show ?case
  proof (cases rule: journal_batch_ConsE)
    case rings
    then show ?thesis by simp
  next
    case (missed st1)
    note IH = Cons.IH [OF missed(3)] and terminal = journal_terminal_True [OF missed(2)]
    have "settled st' (cc_alarm_id candidate) (sint (cc_scheduled_utc_seconds candidate))"
      using IH terminal(1) by blast
    moreover have "\<forall>b u. settled st b u \<longrightarrow> settled st' b u" using IH terminal(1) by blast
    ultimately show ?thesis using IH terminal(2) missed(1) by auto
  qed
qed

lemma batch_journal_holds:
  assumes "batch_journal newest_rings st crossed wall mt = Some journal"
    and "ps_active st = None" and "crossed \<noteq> []"
  shows "(\<forall>b u. settled st b u \<longrightarrow> settled journal b u) \<and>
    (\<forall>c \<in> set crossed. held journal (cc_alarm_id c) (sint (cc_scheduled_utc_seconds c))) \<and>
    (newest_rings \<longrightarrow> (\<exists>a. ps_active journal = Some a \<and>
       ao_occurrence_id a = cc_occurrence_id (last crossed) \<and>
       ao_scheduled_utc_seconds a = cc_scheduled_utc_seconds (last crossed) \<and>
       ao_snooze_deadline_monotonic_seconds a = None)) \<and>
    (\<not> newest_rings \<longrightarrow> ps_active journal = None)"
proof -
  obtain st' where batch: "journal_batch newest_rings st crossed = Some st'"
    and fin: "(if newest_rings then begin_recovered_ring st' (cc_alarm_id (last crossed))
        (cc_occurrence_id (last crossed)) (cc_scheduled_utc_seconds (last crossed)) wall mt = (True, journal)
      else journal = st')"
    using assms(1) by (auto simp: batch_journal_def Let_def split: option.splits if_splits prod.splits bool.splits)
  note settles = journal_batch_settles [OF batch]
  show ?thesis
  proof (cases newest_rings)
    case False
    with fin settles assms(2) show ?thesis by (simp add: held_def)
  next
    case True
    with fin settles assms(2) have ring: "ps_active journal = Some
        \<lparr>ao_alarm_id = cc_alarm_id (last crossed), ao_occurrence_id = cc_occurrence_id (last crossed),
         ao_scheduled_utc_seconds = cc_scheduled_utc_seconds (last crossed),
         ao_first_ring_utc_seconds = wall, ao_first_ring_monotonic_seconds = mt,
         ao_snooze_deadline_monotonic_seconds = None, ao_snooze_count = 0,
         ao_recovered_after_reboot = False, ao_last_recovery_boot_id = []\<rparr>"
      and same: "settled journal = settled st'"
      by (auto simp: begin_recovered_ring_def split: if_splits)
    have "held journal (cc_alarm_id c) (sint (cc_scheduled_utc_seconds c))" if "c \<in> set crossed" for c
    proof (cases "c = last crossed")
      case True
      with ring show ?thesis by (simp add: held_def)
    next
      case False
      with that assms(3) have "c \<in> set (butlast crossed)"
        by (metis append_butlast_last_id rotate1.simps(2) set_ConsD set_rotate1)
      with settles True same show ?thesis by (simp add: held_def)
    qed
    with True ring same settles show ?thesis by simp
  qed
qed

section \<open>The reconciliation\<close>

lemma at_or_below_settled:
  "at_or_below_watermark st alarm_id t \<longleftrightarrow> settled st alarm_id (sint t)"
  using settled_find [of st alarm_id "sint t"]
  by (simp add: at_or_below_watermark_def find_high_watermark_def split: option.splits)

text \<open>The stored alarms that are due for reconciliation.\<close>

definition crosses :: "persistent_alarm_state \<Rightarrow> i64 \<Rightarrow> stored_alarm_definition \<Rightarrow> bool" where
  "crosses st wall alarm \<longleftrightarrow>
     sa_enabled alarm \<and> sint (sa_scheduled_utc_seconds alarm) \<le> sint wall \<and>
     stored_occurrence_id alarm \<notin> to_occurrence_id ` set (ps_terminal st) \<and>
     \<not> settled st (sa_id alarm) (sint (sa_scheduled_utc_seconds alarm))"

definition candidate_of :: "stored_alarm_definition \<Rightarrow> crossed_candidate" where
  "candidate_of alarm =
     \<lparr>cc_alarm_id = sa_id alarm, cc_occurrence_id = stored_occurrence_id alarm,
      cc_scheduled_utc_seconds = sa_scheduled_utc_seconds alarm, cc_lateness_seconds = 0\<rparr>"

lemma collect_crossed_eq:
  "collect_crossed st wall alarms = map candidate_of (filter (crosses st wall) alarms)"
  by (induction alarms)
    (auto simp: crosses_def candidate_of_def is_terminal_def list_ex_terminal at_or_below_settled)

lemma reconcile_decompose:
  assumes "reconcile_after_time_valid storage wall mt time_valid s = (r, s')"
    and "ir_status r = IR_reconciled"
  obtains loaded s1 lateness newest_rings journal committed sorted crossed where
    "load storage s = (loaded, s1)" "lr_status loaded = LS_loaded"
    "ps_active (ss_occurrence_state (lr_snapshot loaded)) = None"
    "sorted = crossed_order (collect_crossed (ss_occurrence_state (lr_snapshot loaded)) wall
       (ss_alarms (lr_snapshot loaded)))" "sorted \<noteq> []"
    "checked_elapsed wall (cc_scheduled_utc_seconds (last sorted)) = Some lateness"
    "newest_rings = (sint lateness \<le> kLateGraceSeconds)"
    "crossed = butlast sorted @ [(last sorted)\<lparr>cc_lateness_seconds := lateness\<rparr>]"
    "batch_journal newest_rings (ss_occurrence_state (lr_snapshot loaded)) crossed wall mt = Some journal"
    "save_occurrence_state storage journal (ss_revision (lr_snapshot loaded)) (lr_generation loaded) s1 =
       (committed, s')"
    "sr_status committed = SS_stored \<or> sr_status committed = SS_unchanged"
    "ir_start_alert r = newest_rings"
    "ir_ringing_occurrence_id r = (if newest_rings then cc_occurrence_id (last sorted) else [])"
    "ir_crossed r = crossed_records newest_rings crossed"
proof -
  obtain loaded s1 where ld: "load storage s = (loaded, s1)" by fastforce
  let ?snap = "lr_snapshot loaded"
  let ?st = "ss_occurrence_state ?snap"
  let ?sorted = "crossed_order (collect_crossed ?st wall (ss_alarms ?snap))"
  have valid: time_valid "lr_status loaded = LS_loaded" "ps_active ?st = None" "?sorted \<noteq> []"
    using assms ld by (auto simp: reconcile_after_time_valid_def default_recovery_def Let_def split: if_splits)
  then obtain lateness where l: "checked_elapsed wall (cc_scheduled_utc_seconds (last ?sorted)) = Some lateness"
    using assms ld by (cases "checked_elapsed wall (cc_scheduled_utc_seconds (last ?sorted))")
      (auto simp: reconcile_after_time_valid_def default_recovery_def Let_def)
  let ?crossed = "butlast ?sorted @ [(last ?sorted)\<lparr>cc_lateness_seconds := lateness\<rparr>]"
  let ?rings = "sint lateness \<le> kLateGraceSeconds"
  obtain journal where j: "batch_journal ?rings ?st ?crossed wall mt = Some journal"
    using assms ld valid l by (cases "batch_journal ?rings ?st ?crossed wall mt")
      (auto simp: reconcile_after_time_valid_def default_recovery_def Let_def)
  obtain committed s2 where sv: "save_occurrence_state storage journal (ss_revision ?snap)
      (lr_generation loaded) s1 = (committed, s2)" by fastforce
  have "committed_ok committed" "s2 = s'" "ir_start_alert r = ?rings"
    "ir_ringing_occurrence_id r = (if ?rings then cc_occurrence_id (last ?sorted) else [])"
    "ir_crossed r = crossed_records ?rings ?crossed"
    using assms ld valid l j sv
    by (auto simp: reconcile_after_time_valid_def default_recovery_def Let_def split: if_splits)
  then show ?thesis
    using that [OF ld valid(2,3) refl valid(4) l refl refl j] sv by (simp add: committed_ok_def)
qed

text \<open>The newest candidate and the ordering of the others.\<close>

lemma crossed_order_set [simp]: "set (crossed_order cs) = set cs"
  by (simp add: crossed_order_def)

lemma crossed_order_newest:
  assumes "c \<in> set cs"
  shows "sint (cc_scheduled_utc_seconds c) \<le> sint (cc_scheduled_utc_seconds (last (crossed_order cs)))"
proof -
  have "sorted (map crossed_key (crossed_order cs))" by (simp add: crossed_order_def)
  moreover have "crossed_order cs \<noteq> []" using assms crossed_order_set [of cs] by (metis empty_iff set_empty)
  then obtain us where us: "crossed_order cs = us @ [last (crossed_order cs)]"
    by (metis append_butlast_last_id)
  ultimately have "\<forall>d \<in> set us. crossed_key d \<le> crossed_key (last (crossed_order cs))"
    by (metis (no_types, lifting) image_eqI list.set_map map_append sorted_append list.simps(9,8) list.set_intros(1))
  moreover have "c \<in> set us \<or> c = last (crossed_order cs)"
    using assms crossed_order_set [of cs] us by (metis Un_iff insert_iff empty_iff set_append list.set(1,2))
  ultimately show ?thesis by (auto simp: crossed_key_def)
qed

lemma lateness_exact:
  "checked_elapsed wall t = Some lateness \<Longrightarrow> sint lateness = sint wall - sint t"
  using checked_elapsed_SomeD by blast

text \<open>What a successful reconciliation leaves in the store, relative to the newest crossed alarm.\<close>

lemma reconciled_journal:
  assumes "quiet_backend storage contents inside unsettled"
    and "reconcile_after_time_valid storage wall mt time_valid s = (r, s')"
    and "ir_status r = IR_reconciled"
  obtains journal newest where
    "lr_status (view (contents s')) = LS_loaded"
    "lr_snapshot (view (contents s')) =
       (lr_snapshot (view (contents s)))\<lparr>ss_occurrence_state := journal\<rparr>"
    "\<And>b u. settled (stored_journal (contents s)) b u \<Longrightarrow> settled journal b u"
    "\<And>alarm. alarm \<in> set (ss_alarms (lr_snapshot (view (contents s)))) \<Longrightarrow>
       crosses (stored_journal (contents s)) wall alarm \<Longrightarrow>
       held journal (sa_id alarm) (sint (sa_scheduled_utc_seconds alarm)) \<and>
       sint (sa_scheduled_utc_seconds alarm) \<le> sint (sa_scheduled_utc_seconds newest)"
    "newest \<in> set (ss_alarms (lr_snapshot (view (contents s))))"
    "crosses (stored_journal (contents s)) wall newest"
    "ir_start_alert r \<longleftrightarrow> sint wall - sint (sa_scheduled_utc_seconds newest) \<le> 600"
    "ir_start_alert r \<Longrightarrow> ir_ringing_occurrence_id r = stored_occurrence_id newest \<and>
       rings_in journal (stored_occurrence_id newest)"
    "\<not> ir_start_alert r \<Longrightarrow> ps_active journal = None"
proof -
  obtain loaded s1 lateness newest_rings journal committed sorted crossed where
    ld: "load storage s = (loaded, s1)" "lr_status loaded = LS_loaded"
    and idle: "ps_active (ss_occurrence_state (lr_snapshot loaded)) = None"
    and sorted: "sorted = crossed_order (collect_crossed (ss_occurrence_state (lr_snapshot loaded)) wall
       (ss_alarms (lr_snapshot loaded)))" "sorted \<noteq> []"
    and late: "checked_elapsed wall (cc_scheduled_utc_seconds (last sorted)) = Some lateness"
    and rings: "newest_rings = (sint lateness \<le> kLateGraceSeconds)"
    and crossed: "crossed = butlast sorted @ [(last sorted)\<lparr>cc_lateness_seconds := lateness\<rparr>]"
    and batch: "batch_journal newest_rings (ss_occurrence_state (lr_snapshot loaded)) crossed wall mt = Some journal"
    and sv: "save_occurrence_state storage journal (ss_revision (lr_snapshot loaded)) (lr_generation loaded) s1 =
       (committed, s')" "sr_status committed = SS_stored \<or> sr_status committed = SS_unchanged"
    and r: "ir_start_alert r = newest_rings"
      "ir_ringing_occurrence_id r = (if newest_rings then cc_occurrence_id (last sorted) else [])"
    by (rule reconcile_decompose [OF assms(2,3)])
  let ?snap = "lr_snapshot loaded" and ?st = "ss_occurrence_state (lr_snapshot loaded)"
  note load = quiet_backend.load_stores [OF assms(1) ld(1)]
  have snap: "lr_snapshot (view (contents s)) = ?snap" using load(2) [OF ld(2)] by (simp add: stores_def)
  have "stores (contents s1) ?snap (lr_generation loaded)" using load ld(2) by simp
  from quiet_backend.journal_commit_stores(2) [OF assms(1) this sv]
  have after: "lr_status (view (contents s')) = LS_loaded"
    "lr_snapshot (view (contents s')) = ?snap\<lparr>ss_occurrence_state := journal\<rparr>"
    by (simp_all add: stores_def)
  have candidates: "set sorted = candidate_of ` {alarm \<in> set (ss_alarms ?snap). crosses ?st wall alarm}"
    by (simp add: sorted(1) collect_crossed_eq)
  obtain newest where newest: "newest \<in> set (ss_alarms ?snap)" "crosses ?st wall newest"
    "last sorted = candidate_of newest"
    using last_in_set [OF sorted(2)] candidates by auto
  have crossed': "crossed \<noteq> []" "last crossed = (candidate_of newest)\<lparr>cc_lateness_seconds := lateness\<rparr>"
    "set crossed = insert ((candidate_of newest)\<lparr>cc_lateness_seconds := lateness\<rparr>) (set (butlast sorted))"
    by (simp_all add: crossed newest(3))
  note holds = batch_journal_holds [OF batch idle crossed'(1)]
  have held: "held journal (sa_id alarm) (sint (sa_scheduled_utc_seconds alarm))"
    if alarm: "alarm \<in> set (ss_alarms ?snap)" "crosses ?st wall alarm" for alarm
  proof -
    have "candidate_of alarm \<in> set (butlast sorted @ [last sorted])"
      using alarm candidates sorted(2) by (simp add: append_butlast_last_id del: set_append)
    then consider "candidate_of alarm \<in> set crossed" | "candidate_of alarm = candidate_of newest"
      by (auto simp: crossed'(3) newest(3))
    then have "\<exists>c \<in> set crossed. cc_alarm_id c = sa_id alarm \<and>
        cc_scheduled_utc_seconds c = sa_scheduled_utc_seconds alarm"
      by cases (force simp: candidate_of_def, simp add: crossed'(3) candidate_of_def)
    then show ?thesis using holds by auto
  qed
  have latest: "sint (sa_scheduled_utc_seconds other) \<le> sint (sa_scheduled_utc_seconds newest)"
    if "other \<in> set (ss_alarms ?snap)" "crosses ?st wall other" for other
    using that crossed_order_newest [of "candidate_of other" "collect_crossed ?st wall (ss_alarms ?snap)"]
      newest(3) sorted(1) by (simp add: collect_crossed_eq candidate_of_def)
  have exact: "sint lateness = sint wall - sint (sa_scheduled_utc_seconds newest)"
    using lateness_exact [OF late] newest(3) by (simp add: candidate_of_def)
  show ?thesis
    by (rule that [of journal newest])
      (use after holds held latest newest exact rings r crossed'(2) in
        \<open>auto simp: snap rings_in_def candidate_of_def\<close>)
qed

text \<open>
  C18: a reconciliation that succeeded accounts for every crossed occurrence in the journal that
  the store now holds: each is settled by a watermark or is the active occurrence. It asks for
  an alert exactly when the newest crossed occurrence is at most ten minutes late; then that
  occurrence is the active one and no crossed occurrence is newer. Otherwise nothing is active.
\<close>

theorem recovery_accounts_for_all:
  assumes "quiet_backend storage contents inside unsettled"
    and "reconcile_after_time_valid storage wall mt time_valid s = (r, s')"
    and "ir_status r = IR_reconciled"
  shows "lr_status (view (contents s')) = LS_loaded \<and>
    (\<forall>alarm \<in> set (ss_alarms (lr_snapshot (view (contents s)))).
       crosses (stored_journal (contents s)) wall alarm \<longrightarrow>
       held (stored_journal (contents s')) (sa_id alarm) (sint (sa_scheduled_utc_seconds alarm))) \<and>
    (\<exists>newest \<in> set (ss_alarms (lr_snapshot (view (contents s)))).
       crosses (stored_journal (contents s)) wall newest \<and>
       (\<forall>alarm \<in> set (ss_alarms (lr_snapshot (view (contents s)))).
          crosses (stored_journal (contents s)) wall alarm \<longrightarrow>
          sint (sa_scheduled_utc_seconds alarm) \<le> sint (sa_scheduled_utc_seconds newest)) \<and>
       (ir_start_alert r \<longleftrightarrow> sint wall - sint (sa_scheduled_utc_seconds newest) \<le> 600) \<and>
       (if ir_start_alert r
        then ir_ringing_occurrence_id r = stored_occurrence_id newest \<and>
          rings_in (stored_journal (contents s')) (stored_occurrence_id newest)
        else ps_active (stored_journal (contents s')) = None))"
proof -
  obtain journal newest where *: "lr_status (view (contents s')) = LS_loaded"
    "lr_snapshot (view (contents s')) = (lr_snapshot (view (contents s)))\<lparr>ss_occurrence_state := journal\<rparr>"
    "\<And>alarm. alarm \<in> set (ss_alarms (lr_snapshot (view (contents s)))) \<Longrightarrow>
       crosses (stored_journal (contents s)) wall alarm \<Longrightarrow>
       held journal (sa_id alarm) (sint (sa_scheduled_utc_seconds alarm)) \<and>
       sint (sa_scheduled_utc_seconds alarm) \<le> sint (sa_scheduled_utc_seconds newest)"
    "newest \<in> set (ss_alarms (lr_snapshot (view (contents s))))"
    "crosses (stored_journal (contents s)) wall newest"
    "ir_start_alert r \<longleftrightarrow> sint wall - sint (sa_scheduled_utc_seconds newest) \<le> 600"
    "ir_start_alert r \<Longrightarrow> ir_ringing_occurrence_id r = stored_occurrence_id newest \<and>
       rings_in journal (stored_occurrence_id newest)"
    "\<not> ir_start_alert r \<Longrightarrow> ps_active journal = None"
    by (rule reconciled_journal [OF assms]) blast
  show ?thesis
    by (intro conjI bexI [of _ newest] ballI impI) (use * in \<open>simp_all\<close>)
qed

text \<open>
  The reconciliation is closed on failure. Without success it reports no crossed occurrence
  and no alert, and unless the commit itself was attempted no slot has changed.
\<close>

theorem recovery_fails_closed:
  assumes "quiet_backend storage contents inside unsettled"
    and "reconcile_after_time_valid storage wall mt time_valid s = (r, s')"
    and "ir_status r \<noteq> IR_reconciled"
  shows "\<not> ir_start_alert r \<and> ir_crossed r = [] \<and> \<not> ir_journal_committed r \<and>
    (ir_status r \<notin> {IR_persistence_conflict, IR_persistence_error} \<longrightarrow> contents s' = contents s)"
proof -
  obtain loaded s1 where ld: "load storage s = (loaded, s1)" by fastforce
  note same = quiet_backend.load_stores(1) [OF assms(1) ld]
  show ?thesis
    using assms(2,3) ld same
    by (auto simp: reconcile_after_time_valid_def default_recovery_def Let_def
        split: if_splits option.splits prod.splits)
qed

lemma stored_terminal_settled:
  "device_journal st \<Longrightarrow> stored_occurrence_id alarm \<in> to_occurrence_id ` set (ps_terminal st) \<Longrightarrow>
     settled st (sa_id alarm) (sint (sa_scheduled_utc_seconds alarm))"
  unfolding stored_occurrence_id_def by (drule (1) terminal_settled) simp

text \<open>
  C19: when the stored journal is one that the device's own steps produce, repeating a
  successful reconciliation at the same or an earlier clock reading is silent: it finds the
  active occurrence or nothing left to reconcile, asks for no alert and leaves both slots
  untouched.
\<close>

theorem recovery_is_idempotent:
  assumes "quiet_backend storage contents inside unsettled"
    and "reconcile_after_time_valid storage wall mt True s = (r, s')" and "ir_status r = IR_reconciled"
    and "reconcile_after_time_valid storage wall' mt' True s' = (r2, s2)" and "sint wall' \<le> sint wall"
    and "device_journal (stored_journal (contents s))"
  shows "ir_status r2 \<in> {IR_active_conflict, IR_nothing_crossed, IR_io_error} \<and>
    \<not> ir_start_alert r2 \<and> contents s2 = contents s'"
proof -
  obtain journal where after: "lr_status (view (contents s')) = LS_loaded"
    "lr_snapshot (view (contents s')) = (lr_snapshot (view (contents s)))\<lparr>ss_occurrence_state := journal\<rparr>"
    and mono: "\<And>b u. settled (stored_journal (contents s)) b u \<Longrightarrow> settled journal b u"
    and held: "\<And>alarm. alarm \<in> set (ss_alarms (lr_snapshot (view (contents s)))) \<Longrightarrow>
       crosses (stored_journal (contents s)) wall alarm \<Longrightarrow>
       held journal (sa_id alarm) (sint (sa_scheduled_utc_seconds alarm))"
    by (rule reconciled_journal [OF assms(1-3)]) blast
  obtain loaded s3 where ld: "load storage s' = (loaded, s3)" by fastforce
  note load = quiet_backend.load_stores [OF assms(1) ld]
  show ?thesis
  proof (cases "lr_status loaded = LS_loaded")
    case False
    have "loaded = default_load\<lparr>lr_status := LS_io_error\<rparr>"
      using quiet_backend.load_view(2) [OF assms(1) ld] False after(1) by auto
    with assms(4) ld load(1) show ?thesis
      by (auto simp: reconcile_after_time_valid_def default_recovery_def)
  next
    case True
    have snap: "lr_snapshot loaded = (lr_snapshot (view (contents s)))\<lparr>ss_occurrence_state := journal\<rparr>"
      using load(2) [OF True] after(2) by (simp add: stores_def)
    have "\<not> crosses journal wall' alarm"
      if "ps_active journal = None" "alarm \<in> set (ss_alarms (lr_snapshot (view (contents s))))" for alarm
    proof
      assume c: "crosses journal wall' alarm"
      then have "\<not> crosses (stored_journal (contents s)) wall alarm"
        using held [OF that(2)] that(1) by (auto simp: crosses_def held_def)
      with c assms(5) have "stored_occurrence_id alarm \<in> to_occurrence_id ` set (ps_terminal (stored_journal (contents s)))
          \<or> settled (stored_journal (contents s)) (sa_id alarm) (sint (sa_scheduled_utc_seconds alarm))"
        unfolding crosses_def by linarith
      then have "settled journal (sa_id alarm) (sint (sa_scheduled_utc_seconds alarm))"
        using stored_terminal_settled [OF assms(6)] mono by blast
      with c show False by (simp add: crosses_def)
    qed
    then have "collect_crossed journal wall' (ss_alarms (lr_snapshot (view (contents s)))) = []"
      if "ps_active journal = None" using that by (simp add: collect_crossed_eq filter_empty_conv)
    with assms(4) ld True load(1) show ?thesis
      by (auto simp: reconcile_after_time_valid_def default_recovery_def Let_def snap crossed_order_def
          split: if_splits)
  qed
qed

section \<open>The journal stays one of the device\<close>

text \<open>The crossed occurrences of one reconciliation have distinct identifiers.\<close>

lemma collect_crossed_ids:
  assumes "distinct (map sa_id alarms)"
  shows "distinct (map cc_occurrence_id (collect_crossed st wall alarms))"
proof -
  have ids: "map cc_occurrence_id (collect_crossed st wall alarms) =
      map stored_occurrence_id (filter (crosses st wall) alarms)"
    by (simp add: collect_crossed_eq candidate_of_def)
  have "inj_on stored_occurrence_id (set alarms)"
    using assms by (auto simp: inj_on_def distinct_map stored_occurrence_id_def dest!: make_occurrence_id_eqD)
  with assms show ?thesis
    by (auto simp: ids distinct_map intro: inj_on_subset)
qed

lemma crossed_ids:
  assumes "validate_snapshot snapshot"
    and "ordered = crossed_order (collect_crossed st wall (ss_alarms snapshot))" "ordered \<noteq> []"
  shows "distinct (map cc_occurrence_id (butlast ordered @ [(last ordered)\<lparr>cc_lateness_seconds := lateness\<rparr>]))"
proof -
  have "distinct (map sa_id (ss_alarms snapshot))"
    using assms(1) by (simp add: validate_snapshot_def valid_alarms_def)
  then have "distinct (map cc_occurrence_id ordered)"
    using collect_crossed_ids by (simp add: assms(2) crossed_order_def distinct_map_filter distinct_map)
  moreover have "map cc_occurrence_id (butlast ordered @ [(last ordered)\<lparr>cc_lateness_seconds := lateness\<rparr>]) =
      map cc_occurrence_id ordered"
    using append_butlast_last_id [OF assms(3)] by simp (metis list.map(2) map_append list.simps(8))
  ultimately show ?thesis by (simp only:)
qed

text \<open>A candidate names the alarm that it was made from.\<close>

definition from_alarm :: "crossed_candidate \<Rightarrow> bool" where
  "from_alarm c \<longleftrightarrow> (\<exists>alarm. cc_alarm_id c = ad_id alarm \<and> cc_occurrence_id c = make_occurrence_id alarm \<and>
     cc_scheduled_utc_seconds c = ad_scheduled_utc_seconds alarm)"

lemma from_alarm_candidate: "from_alarm (candidate_of alarm)" "from_alarm ((candidate_of alarm)\<lparr>cc_lateness_seconds := l\<rparr>)"
proof -
  let ?alarm = "\<lparr>ad_id = sa_id alarm, ad_schedule_revision = sa_schedule_revision alarm,
    ad_enabled = sa_enabled alarm, ad_scheduled_utc_seconds = sa_scheduled_utc_seconds alarm\<rparr>"
  show "from_alarm (candidate_of alarm)" "from_alarm ((candidate_of alarm)\<lparr>cc_lateness_seconds := l\<rparr>)"
    unfolding from_alarm_def by (intro exI [of _ ?alarm], simp add: candidate_of_def stored_occurrence_id_def)+
qed

lemma journal_batch_device:
  assumes "journal_batch newest_rings st crossed = Some st'" "device_journal st" "ps_active st = None"
    and "\<forall>c \<in> set crossed. from_alarm c"
  shows "device_journal st' \<and> to_occurrence_id ` set (ps_terminal st') \<subseteq> to_occurrence_id ` set (ps_terminal st) \<union>
    cc_occurrence_id ` set (if newest_rings then butlast crossed else crossed)"
  using assms
proof (induction crossed arbitrary: st)
  case (Cons candidate candidates)
  from Cons.prems(1) show ?case
  proof (cases rule: journal_batch_ConsE)
    case rings
    with Cons.prems(2) show ?thesis by simp
  next
    case (missed st1)
    from Cons.prems(4) obtain alarm where "cc_alarm_id candidate = ad_id alarm"
      "cc_occurrence_id candidate = make_occurrence_id alarm"
      "cc_scheduled_utc_seconds candidate = ad_scheduled_utc_seconds alarm" by (auto simp: from_alarm_def)
    with missed(2) Cons.prems(3) have "device_step st st1" by (auto intro: device_step.catch_up)
    with Cons.prems(2) have device: "device_journal st1" by (rule device_journal.step)
    have "to_occurrence_id ` set (ps_terminal st1) \<subseteq>
        insert (cc_occurrence_id candidate) (to_occurrence_id ` set (ps_terminal st))"
      using missed(2) append_terminal_ids [of "record_terminal_high_watermark st (cc_alarm_id candidate)
          (cc_scheduled_utc_seconds candidate)" "\<lparr>to_occurrence_id = cc_occurrence_id candidate, to_reason = TR_invalid_time\<rparr>"]
      by (auto simp: journal_terminal_def split: if_splits)
    moreover have "device_journal st' \<and> to_occurrence_id ` set (ps_terminal st') \<subseteq>
        to_occurrence_id ` set (ps_terminal st1) \<union>
        cc_occurrence_id ` set (if newest_rings then butlast candidates else candidates)"
      by (rule Cons.IH [OF missed(3) device]) (use Cons.prems(3,4) journal_terminal_True(2) [OF missed(2)] in simp_all)
    moreover have "cc_occurrence_id ` set (if newest_rings then butlast (candidate # candidates) else candidate # candidates) =
        insert (cc_occurrence_id candidate)
          (cc_occurrence_id ` set (if newest_rings then butlast candidates else candidates))"
      using missed(1) by auto
    ultimately show ?thesis by blast
  qed
qed simp

text \<open>A successful reconciliation keeps the stored journal one that the device produces.\<close>

theorem reconciliation_keeps_device_journal:
  assumes "quiet_backend storage contents inside unsettled"
    and "reconcile_after_time_valid storage wall mt time_valid s = (r, s')" and "ir_status r = IR_reconciled"
    and "device_journal (stored_journal (contents s))"
  shows "device_journal (stored_journal (contents s'))"
proof -
  obtain loaded s1 lateness newest_rings journal committed sorted crossed where
    ld: "load storage s = (loaded, s1)" "lr_status loaded = LS_loaded"
    and idle: "ps_active (ss_occurrence_state (lr_snapshot loaded)) = None"
    and sorted: "sorted = crossed_order (collect_crossed (ss_occurrence_state (lr_snapshot loaded)) wall
       (ss_alarms (lr_snapshot loaded)))" "sorted \<noteq> []"
    and crossed: "crossed = butlast sorted @ [(last sorted)\<lparr>cc_lateness_seconds := lateness\<rparr>]"
    and batch: "batch_journal newest_rings (ss_occurrence_state (lr_snapshot loaded)) crossed wall mt = Some journal"
    and sv: "save_occurrence_state storage journal (ss_revision (lr_snapshot loaded)) (lr_generation loaded) s1 =
       (committed, s')" "sr_status committed = SS_stored \<or> sr_status committed = SS_unchanged"
    by (rule reconcile_decompose [OF assms(2,3)])
  let ?st = "ss_occurrence_state (lr_snapshot loaded)"
  note load = quiet_backend.load_stores [OF assms(1) ld(1)]
  have device: "device_journal ?st" using assms(4) load(2) [OF ld(2)] by (simp add: stores_def)
  have "stores (contents s1) (lr_snapshot loaded) (lr_generation loaded)" using load ld(2) by simp
  from quiet_backend.journal_commit_stores(2) [OF assms(1) this sv]
  have after: "stored_journal (contents s') = journal" by (simp add: stores_def)
  have ids: "distinct (map cc_occurrence_id crossed)"
    unfolding crossed by (rule crossed_ids [OF stores_valid [OF load(2) [OF ld(2)]] sorted])
  have candidates: "\<exists>alarm. c = candidate_of alarm \<and> crosses ?st wall alarm" if "c \<in> set sorted" for c
    using that by (auto simp: sorted(1) collect_crossed_eq)
  have members: "set (butlast sorted) \<subseteq> set sorted" "last sorted \<in> set sorted"
    using sorted(2) by (auto dest: in_set_butlastD)
  obtain newest where newest: "last sorted = candidate_of newest" "crosses ?st wall newest"
    using candidates [OF members(2)] by blast
  have named: "\<forall>c \<in> set crossed. from_alarm c"
    using candidates members newest(1) from_alarm_candidate by (auto simp: crossed)
  obtain st' where run: "journal_batch newest_rings ?st crossed = Some st'"
    and fin: "(if newest_rings then begin_recovered_ring st' (cc_alarm_id (last crossed))
        (cc_occurrence_id (last crossed)) (cc_scheduled_utc_seconds (last crossed)) wall mt = (True, journal)
      else journal = st')"
    using batch by (auto simp: batch_journal_def Let_def split: option.splits if_splits prod.splits bool.splits)
  note held = journal_batch_device [OF run device idle named]
  show ?thesis
  proof (cases newest_rings)
    case False
    with fin held show ?thesis by (simp add: after)
  next
    case True
    obtain alarm where alarm: "cc_alarm_id (last crossed) = ad_id alarm"
      "cc_occurrence_id (last crossed) = make_occurrence_id alarm"
      "cc_scheduled_utc_seconds (last crossed) = ad_scheduled_utc_seconds alarm"
      using named by (auto simp: crossed from_alarm_def)
    have "cc_occurrence_id (last crossed) \<notin> to_occurrence_id ` set (ps_terminal ?st)"
      using newest by (simp add: crossed crosses_def candidate_of_def)
    moreover have "cc_occurrence_id (last crossed) \<notin> cc_occurrence_id ` set (butlast crossed)"
      using ids by (simp add: crossed)
    ultimately have "make_occurrence_id alarm \<notin> to_occurrence_id ` set (ps_terminal st')"
      using held True alarm(2) by auto
    then have "device_step st' journal"
      using fin True alarm by (intro device_step.late_ring) simp_all
    with held show ?thesis by (auto simp: after intro: device_journal.step)
  qed
qed

section \<open>A concrete reconciliation\<close>

lemma sample_loads:
  assumes "encode_record sample_snapshot 1 = Some bs"
  shows "load sample_backend (partition_with [''slot_a'' \<mapsto> bs]) = (loaded_from Slot_a
      \<lparr>dr_snapshot = sample_snapshot, dr_generation = 1, dr_migrated = False\<rparr> False,
      partition_with [''slot_a'' \<mapsto> bs])"
    and "encode_record (sample_snapshot\<lparr>ss_occurrence_state := sample_journal\<rparr>) 2 = Some bs' \<Longrightarrow>
      load sample_backend (partition_with [''slot_a'' \<mapsto> bs, ''slot_b'' \<mapsto> bs']) = (loaded_from Slot_b
        \<lparr>dr_snapshot = sample_snapshot\<lparr>ss_occurrence_state := sample_journal\<rparr>, dr_generation = 2,
         dr_migrated = False\<rparr> False,
        partition_with [''slot_a'' \<mapsto> bs, ''slot_b'' \<mapsto> bs'])"
  using sample_load [OF readable_single [OF assms]] sample_saved_view [OF assms]
    sample_load [OF readable_encoded [OF readable_single [OF assms]]] sample_journal_view [OF assms]
  by simp_all

definition sample_recovered :: invalid_time_recovery_result where
  "sample_recovered =
     \<lparr>ir_status = IR_reconciled, ir_schedule_revision = 1, ir_generation = 2,
      ir_crossed = [\<lparr>ro_alarm_id = ''wake'', ro_occurrence_id = ''wake:1:1000'',
                     ro_outcome = ES_ringing, ro_lateness_seconds = 5\<rparr>],
      ir_start_alert = True, ir_ringing_occurrence_id = ''wake:1:1000'', ir_journal_committed = True\<rparr>"

lemma sample_reconcile:
  "\<exists>bs bs'. encode_record sample_snapshot 1 = Some bs \<and>
     encode_record (sample_snapshot\<lparr>ss_occurrence_state := sample_journal\<rparr>) 2 = Some bs' \<and>
     reconcile_after_time_valid sample_backend 1005 7 True (partition_with [''slot_a'' \<mapsto> bs]) =
       (sample_recovered, partition_with [''slot_a'' \<mapsto> bs, ''slot_b'' \<mapsto> bs'])"
proof -
  obtain bs bs' where bs: "encode_record sample_snapshot 1 = Some bs"
    and bs': "encode_record (sample_snapshot\<lparr>ss_occurrence_state := sample_journal\<rparr>) 2 = Some bs'"
    and sv: "save_occurrence_state sample_backend sample_journal 1 1 (partition_with [''slot_a'' \<mapsto> bs]) =
       (\<lparr>sr_status = SS_stored, sr_generation = 2, sr_destination = Slot_b\<rparr>,
        partition_with [''slot_a'' \<mapsto> bs, ''slot_b'' \<mapsto> bs'])"
    using sample_save_journal by blast
  let ?c = "\<lparr>cc_alarm_id = ''wake'', cc_occurrence_id = ''wake:1:1000'',
    cc_scheduled_utc_seconds = 1000, cc_lateness_seconds = 0\<rparr> :: crossed_candidate"
  have "crossed_order (collect_crossed (ss_occurrence_state sample_snapshot) 1005
      (ss_alarms sample_snapshot)) = [?c]" by code_simp
  moreover have "ps_active (ss_occurrence_state sample_snapshot) = None" "ss_revision sample_snapshot = 1"
    by (simp_all add: sample_snapshot_def)
  moreover have "checked_elapsed 1005 1000 = Some 5" by code_simp
  moreover have "batch_journal True (ss_occurrence_state sample_snapshot)
      [?c\<lparr>cc_lateness_seconds := 5\<rparr>] 1005 7 = Some sample_journal" by code_simp
  ultimately have "reconcile_after_time_valid sample_backend 1005 7 True (partition_with [''slot_a'' \<mapsto> bs]) =
       (sample_recovered, partition_with [''slot_a'' \<mapsto> bs, ''slot_b'' \<mapsto> bs'])"
    by (simp add: reconcile_after_time_valid_def sample_loads(1) [OF bs] Let_def sv committed_ok_def
        default_recovery_def sample_recovered_def)
  with bs bs' show ?thesis by blast
qed

theorem recovery_accounts_for_all_witness:
  "\<exists>bs bs'. encode_record sample_snapshot 1 = Some bs \<and>
     reconcile_after_time_valid sample_backend 1005 7 True (partition_with [''slot_a'' \<mapsto> bs]) =
       (sample_recovered, partition_with [''slot_a'' \<mapsto> bs, ''slot_b'' \<mapsto> bs']) \<and>
     lr_status (view (\<lambda>slot. [''slot_a'' \<mapsto> bs, ''slot_b'' \<mapsto> bs'] (key_for slot))) = LS_loaded"
proof -
  obtain bs bs' where bs: "encode_record sample_snapshot 1 = Some bs"
    and run: "reconcile_after_time_valid sample_backend 1005 7 True (partition_with [''slot_a'' \<mapsto> bs]) =
       (sample_recovered, partition_with [''slot_a'' \<mapsto> bs, ''slot_b'' \<mapsto> bs'])"
    using sample_reconcile by blast
  have "ir_status sample_recovered = IR_reconciled" by (simp add: sample_recovered_def)
  from recovery_accounts_for_all [OF sample_quiet run this] bs run show ?thesis by auto
qed

theorem recovery_fails_closed_witness:
  "\<exists>bs. encode_record sample_snapshot 1 = Some bs \<and>
     ir_status (fst (reconcile_after_time_valid sample_backend 999 7 True
       (partition_with [''slot_a'' \<mapsto> bs]))) = IR_nothing_crossed \<and>
     ir_crossed (fst (reconcile_after_time_valid sample_backend 999 7 True
       (partition_with [''slot_a'' \<mapsto> bs]))) = []"
proof -
  obtain bs where bs: "encode_record sample_snapshot 1 = Some bs" using sample_save_first by blast
  have "crossed_order (collect_crossed (ss_occurrence_state sample_snapshot) 999
      (ss_alarms sample_snapshot)) = []" by code_simp
  moreover have "ps_active (ss_occurrence_state sample_snapshot) = None"
    by (simp add: sample_snapshot_def)
  ultimately have status: "ir_status (fst (reconcile_after_time_valid sample_backend 999 7 True
      (partition_with [''slot_a'' \<mapsto> bs]))) = IR_nothing_crossed"
    by (simp add: reconcile_after_time_valid_def sample_loads(1) [OF bs] Let_def)
  with recovery_fails_closed [OF sample_quiet surjective_pairing] bs show ?thesis by auto
qed

theorem recovery_is_idempotent_witness:
  "\<exists>bs bs'. encode_record sample_snapshot 1 = Some bs \<and>
     reconcile_after_time_valid sample_backend 1005 7 True (partition_with [''slot_a'' \<mapsto> bs]) =
       (sample_recovered, partition_with [''slot_a'' \<mapsto> bs, ''slot_b'' \<mapsto> bs']) \<and>
     \<not> ir_start_alert (fst (reconcile_after_time_valid sample_backend 1005 8 True
       (partition_with [''slot_a'' \<mapsto> bs, ''slot_b'' \<mapsto> bs'])))"
proof -
  obtain bs bs' where bs: "encode_record sample_snapshot 1 = Some bs"
    and run: "reconcile_after_time_valid sample_backend 1005 7 True (partition_with [''slot_a'' \<mapsto> bs]) =
       (sample_recovered, partition_with [''slot_a'' \<mapsto> bs, ''slot_b'' \<mapsto> bs'])"
    using sample_reconcile by blast
  have "\<not> ir_start_alert (fst (reconcile_after_time_valid sample_backend 1005 8 True
      (partition_with [''slot_a'' \<mapsto> bs, ''slot_b'' \<mapsto> bs'])))"
  proof (rule recovery_is_idempotent [OF sample_quiet run _ surjective_pairing, THEN conjunct2, THEN conjunct1])
    show "ir_status sample_recovered = IR_reconciled" by (simp add: sample_recovered_def)
    have "stored_journal (sample_contents (partition_with [''slot_a'' \<mapsto> bs])) = empty_journal"
      by (simp only: sample_contents_simp sample_saved_view [OF bs]) (simp add: sample_snapshot_def empty_journal_def)
    then show "device_journal (stored_journal (sample_contents (partition_with [''slot_a'' \<mapsto> bs])))"
      by (simp only: device_journal.fresh)
  qed simp
  with bs run show ?thesis by blast
qed

end
