(* ===== verification/Runtime_Coordinator.thy ===== *)
theory Runtime_Coordinator
  imports Alarm_Disable Recovery_Properties
begin

text \<open>
  The runtime coordinator, \<open>runtime_coordinator.cpp\<close>: one tick composes the freeze on invalid
  time, the boot-gated settling of the active occurrence, the reconciliation of an invalid
  interval behind a latch, and the committed evaluation.
\<close>

section \<open>Types\<close>

record runtime_tick_observation =
  rt_time_valid :: bool
  rt_wall_utc_seconds :: i64
  rt_monotonic_seconds :: i64
  rt_boot_id :: string

record runtime_coordinator_state =
  rc_last_handled_boot_id :: string
  rc_reconciliation_pending :: bool

datatype runtime_tick_status =
    RS_evaluated
  | RS_frozen_invalid_time
  | RS_reconciliation_blocked
  | RS_empty_store
  | RS_invalid_store
  | RS_io_error
  | RS_persistence_conflict
  | RS_persistence_error

datatype runtime_effect_stage = Stage_evaluation | Stage_active_lifecycle | Stage_reconciliation

record runtime_tick_effect =
  re_alarm_id :: string
  re_occurrence_id :: string
  re_status :: evaluation_status
  re_start_alert :: bool
  re_stop_alert :: bool
  re_late :: bool
  re_lateness_seconds :: i64
  re_recovered_after_reboot :: bool
  re_stage :: runtime_effect_stage

record runtime_tick_result =
  rr_status :: runtime_tick_status
  rr_schedule_revision :: u64
  rr_generation :: u64
  rr_reconciliation_attempted :: bool
  rr_reconciliation_status :: invalid_time_recovery_status
  rr_reconciliation_crossed :: "recovered_occurrence list"
  rr_effects :: "runtime_tick_effect list"

definition default_effect :: runtime_tick_effect where
  "default_effect =
     \<lparr>re_alarm_id = [], re_occurrence_id = [], re_status = ES_armed, re_start_alert = False,
      re_stop_alert = False, re_late = False, re_lateness_seconds = 0,
      re_recovered_after_reboot = False, re_stage = Stage_evaluation\<rparr>"

definition default_tick :: runtime_tick_result where
  "default_tick =
     \<lparr>rr_status = RS_evaluated, rr_schedule_revision = 0, rr_generation = 0,
      rr_reconciliation_attempted = False, rr_reconciliation_status = IR_nothing_crossed,
      rr_reconciliation_crossed = [], rr_effects = []\<rparr>"

section \<open>Stages\<close>

fun status_from_evaluation :: "committed_evaluation_status \<Rightarrow> runtime_tick_status" where
  "status_from_evaluation CE_evaluated = RS_evaluated"
| "status_from_evaluation CE_invalid_time = RS_frozen_invalid_time"
| "status_from_evaluation CE_empty_store = RS_empty_store"
| "status_from_evaluation CE_invalid_store = RS_invalid_store"
| "status_from_evaluation CE_io_error = RS_io_error"
| "status_from_evaluation CE_persistence_conflict = RS_persistence_conflict"
| "status_from_evaluation CE_persistence_error = RS_persistence_error"

definition crossed_effect ::
    "invalid_time_recovery_result \<Rightarrow> recovered_occurrence \<Rightarrow> runtime_tick_effect" where
  "crossed_effect recovery crossed =
     (let effect = default_effect\<lparr>re_alarm_id := ro_alarm_id crossed,
            re_occurrence_id := ro_occurrence_id crossed, re_status := ro_outcome crossed,
            re_stage := Stage_reconciliation\<rparr>
      in if ir_start_alert recovery \<and> ro_occurrence_id crossed = ir_ringing_occurrence_id recovery
         then effect\<lparr>re_start_alert := True, re_late := 0 < sint (ro_lateness_seconds crossed),
                     re_lateness_seconds := ro_lateness_seconds crossed\<rparr>
         else effect)"

definition apply_reconciliation_outcome ::
    "invalid_time_recovery_result \<Rightarrow> runtime_tick_result \<Rightarrow> runtime_tick_result" where
  "apply_reconciliation_outcome recovery result0 =
     (let result = result0\<lparr>rr_reconciliation_status := ir_status recovery,
                          rr_reconciliation_crossed := ir_crossed recovery,
                          rr_generation := ir_generation recovery\<rparr>
      in case ir_status recovery of
           IR_reconciled \<Rightarrow>
             result\<lparr>rr_effects := rr_effects result @ map (crossed_effect recovery) (ir_crossed recovery),
                    rr_status := RS_evaluated\<rparr>
         | IR_nothing_crossed \<Rightarrow> result\<lparr>rr_status := RS_evaluated\<rparr>
         | IR_invalid_time \<Rightarrow> result\<lparr>rr_status := RS_reconciliation_blocked\<rparr>
         | IR_journal_capacity \<Rightarrow> result\<lparr>rr_status := RS_reconciliation_blocked\<rparr>
         | IR_active_conflict \<Rightarrow> result\<lparr>rr_status := RS_evaluated\<rparr>
         | IR_empty_store \<Rightarrow> result\<lparr>rr_status := RS_empty_store\<rparr>
         | IR_invalid_store \<Rightarrow> result\<lparr>rr_status := RS_invalid_store\<rparr>
         | IR_io_error \<Rightarrow> result\<lparr>rr_status := RS_io_error\<rparr>
         | IR_persistence_conflict \<Rightarrow> result\<lparr>rr_status := RS_persistence_conflict\<rparr>
         | IR_persistence_error \<Rightarrow> result\<lparr>rr_status := RS_persistence_error\<rparr>)"

definition reconciliation_clears_latch :: "invalid_time_recovery_result \<Rightarrow> bool" where
  "reconciliation_clears_latch recovery \<longleftrightarrow>
     ir_status recovery = IR_reconciled \<or> ir_status recovery = IR_nothing_crossed"

datatype settle_stage = Settled | Frozen | Failed

text \<open>
  The anchor translation of a resumed occurrence. Signed subtraction is taken modulo
  \<open>2 ^ 64\<close>; the C++ has it undefined outside the signed range.
\<close>

definition translate_anchor ::
    "runtime_tick_observation \<Rightarrow> persistent_alarm_state \<Rightarrow> persistent_alarm_state" where
  "translate_anchor observation st =
     (case ps_active st of
        None \<Rightarrow> st
      | Some a \<Rightarrow>
          let wall_elapsed_since_ring =
                rt_wall_utc_seconds observation - ao_first_ring_utc_seconds a
          in st\<lparr>ps_active := Some (a\<lparr>ao_first_ring_monotonic_seconds :=
                  rt_monotonic_seconds observation - wall_elapsed_since_ring\<rparr>)\<rparr>)"

definition settle_active_occurrence ::
    "'s slot_storage \<Rightarrow> persistent_alarm_state \<Rightarrow> runtime_tick_observation \<Rightarrow> bool \<Rightarrow> u64 \<Rightarrow> u64 \<Rightarrow>
     runtime_tick_result \<Rightarrow> 's \<Rightarrow> (settle_stage \<times> runtime_tick_result) \<times> 's" where
  "settle_active_occurrence storage st observation boot_pending revision generation result s =
     (case ps_active st of
        None \<Rightarrow> ((Settled, result), s)
      | Some active \<Rightarrow>
         (case (if boot_pending
                then recover_after_reboot st (rt_wall_utc_seconds observation) (rt_boot_id observation)
                else advance_active st (rt_monotonic_seconds observation)) of
            (settle, st) \<Rightarrow>
              if er_status settle = ES_invalid_time
              then ((Frozen, result\<lparr>rr_status := RS_frozen_invalid_time\<rparr>), s)
              else
                let st = (if boot_pending then translate_anchor observation st else st);
                    effect = default_effect\<lparr>re_alarm_id := ao_alarm_id active,
                      re_occurrence_id := er_occurrence_id settle, re_status := er_status settle,
                      re_start_alert := er_start_alert settle, re_stop_alert := er_stop_alert settle,
                      re_recovered_after_reboot := er_recovered_after_reboot settle,
                      re_stage := Stage_active_lifecycle\<rparr>
                in if er_persist_before_effects settle
                   then (case save_occurrence_state storage st revision generation s of
                           (committed, s) \<Rightarrow>
                             if \<not> committed_ok committed
                             then ((Failed, result\<lparr>rr_status :=
                                      (if is_conflict (sr_status committed)
                                       then RS_persistence_conflict else RS_persistence_error)\<rparr>), s)
                             else ((Settled, result\<lparr>rr_generation := sr_generation committed,
                                      rr_effects := rr_effects result @ [effect]\<rparr>), s))
                   else ((Settled, result\<lparr>rr_effects := rr_effects result @ [effect]\<rparr>), s)))"

definition evaluation_effect :: "committed_alarm_evaluation \<Rightarrow> runtime_tick_effect" where
  "evaluation_effect alarm =
     \<lparr>re_alarm_id = ce_alarm_id alarm, re_occurrence_id = er_occurrence_id (ce_result alarm),
      re_status = er_status (ce_result alarm), re_start_alert = er_start_alert (ce_result alarm),
      re_stop_alert = er_stop_alert (ce_result alarm), re_late = er_late (ce_result alarm),
      re_lateness_seconds = er_lateness_seconds (ce_result alarm),
      re_recovered_after_reboot = er_recovered_after_reboot (ce_result alarm),
      re_stage = (if ce_from_active_occurrence alarm then Stage_active_lifecycle else Stage_evaluation)\<rparr>"

text \<open>The last stage of a tick without a pending latch.\<close>

definition evaluation_stage ::
    "'s slot_storage \<Rightarrow> runtime_tick_observation \<Rightarrow> runtime_tick_result \<Rightarrow> 's \<Rightarrow>
     runtime_tick_result \<times> 's" where
  "evaluation_stage storage observation result s =
     (case evaluate_committed_schedule storage (rt_wall_utc_seconds observation)
             (rt_monotonic_seconds observation) True [] s of
        (evaluation, s) \<Rightarrow>
          (result\<lparr>rr_status := status_from_evaluation (cs_status evaluation),
                  rr_schedule_revision := cs_schedule_revision evaluation,
                  rr_generation := cs_generation evaluation,
                  rr_effects := rr_effects result @ map evaluation_effect (cs_alarms evaluation)\<rparr>, s))"

text \<open>
  Loading and settling, the common beginning of the two stages that need it: \<open>Inl\<close> is an
  early return of the tick.
\<close>

definition load_and_settle ::
    "'s slot_storage \<Rightarrow> runtime_tick_observation \<Rightarrow> bool \<Rightarrow> runtime_tick_result \<Rightarrow> 's \<Rightarrow>
     (runtime_tick_result + runtime_tick_result) \<times> 's" where
  "load_and_settle storage observation boot_pending result s =
     (case load storage s of (loaded, s) \<Rightarrow>
        if lr_status loaded = LS_io_error then (Inl (result\<lparr>rr_status := RS_io_error\<rparr>), s)
        else if lr_status loaded \<noteq> LS_loaded
        then (Inl (result\<lparr>rr_status :=
                (if lr_status loaded = LS_empty then RS_empty_store else RS_invalid_store)\<rparr>), s)
        else
          case settle_active_occurrence storage (ss_occurrence_state (lr_snapshot loaded)) observation
                 boot_pending (ss_revision (lr_snapshot loaded)) (lr_generation loaded)
                 (result\<lparr>rr_schedule_revision := ss_revision (lr_snapshot loaded),
                         rr_generation := lr_generation loaded\<rparr>) s of
            ((stage, result), s) \<Rightarrow>
              if stage = Frozen \<or> stage = Failed then (Inl result, s) else (Inr result, s))"

definition run_runtime_tick ::
    "'s slot_storage \<Rightarrow> runtime_coordinator_state \<Rightarrow> runtime_tick_observation \<Rightarrow> 's \<Rightarrow>
     (runtime_tick_result \<times> runtime_coordinator_state) \<times> 's" where
  "run_runtime_tick storage state observation s =
     (if \<not> rt_time_valid observation
      then ((default_tick\<lparr>rr_status := RS_frozen_invalid_time\<rparr>,
             state\<lparr>rc_reconciliation_pending := True\<rparr>), s)
      else
        let boot_pending = (rt_boot_id observation \<noteq> [] \<and>
              rc_last_handled_boot_id state \<noteq> rt_boot_id observation);
            handled = (if boot_pending
              then state\<lparr>rc_last_handled_boot_id := rt_boot_id observation\<rparr> else state)
        in if rc_reconciliation_pending state
           then case load_and_settle storage observation boot_pending
                       (default_tick\<lparr>rr_reconciliation_attempted := True\<rparr>) s of
             (Inl result, s) \<Rightarrow> ((result, state), s)
           | (Inr result, s) \<Rightarrow>
              (case reconcile_after_time_valid storage (rt_wall_utc_seconds observation)
                      (rt_monotonic_seconds observation) True s of
                 (recovery, s) \<Rightarrow>
                   ((apply_reconciliation_outcome recovery result,
                     if reconciliation_clears_latch recovery
                     then handled\<lparr>rc_reconciliation_pending := False\<rparr> else handled), s))
           else if boot_pending
           then case load_and_settle storage observation True default_tick s of
             (Inl result, s) \<Rightarrow> ((result, state), s)
           | (Inr result, s) \<Rightarrow>
              (case evaluation_stage storage observation result s of
                 (result, s) \<Rightarrow> ((result, handled), s))
           else case evaluation_stage storage observation default_tick s of
             (result, s) \<Rightarrow> ((result, state), s))"

end
