(* ===== verification/Coordinator_Properties.thy ===== *)
theory Coordinator_Properties
  imports Runtime_Coordinator
begin

text \<open>
  What the coordinator promises: the reconciliation latch and the boot gate move only as their
  stages complete, a tick asks to start at most one alert, and every alert that it asks to start
  rings in the stored journal when the tick returns.
\<close>

section \<open>The latch and the boot gate\<close>

lemma settle_active_effects:
  assumes "settle_active_occurrence storage st observation boot_pending revision generation result s =
      ((stage, result'), s')"
  shows "\<exists>effects. rr_effects result' = rr_effects result @ effects \<and> length effects \<le> 1 \<and>
    (\<forall>e \<in> set effects. re_stage e = Stage_active_lifecycle) \<and> (stage \<noteq> Settled \<longrightarrow> effects = []) \<and>
    rr_reconciliation_attempted result' = rr_reconciliation_attempted result"
  using assms
  by (auto simp: settle_active_occurrence_def Let_def default_effect_def
      split: option.splits if_splits prod.splits)

lemma load_and_settle_effects:
  assumes "load_and_settle storage observation boot_pending result s = (out, s')"
    and "rr_effects result = []"
  shows "out = Inl result1 \<Longrightarrow> rr_effects result1 = [] \<and>
      rr_reconciliation_attempted result1 = rr_reconciliation_attempted result"
    and "out = Inr result1 \<Longrightarrow> length (rr_effects result1) \<le> 1 \<and>
      (\<forall>e \<in> set (rr_effects result1). re_stage e = Stage_active_lifecycle) \<and>
      rr_reconciliation_attempted result1 = rr_reconciliation_attempted result"
  using assms
  by (auto simp: load_and_settle_def Let_def split: prod.splits if_splits dest!: settle_active_effects)

lemma apply_reconciliation_effects:
  "rr_effects (apply_reconciliation_outcome recovery result) = rr_effects result @
     (if ir_status recovery = IR_reconciled then map (crossed_effect recovery) (ir_crossed recovery) else [])"
  "rr_reconciliation_attempted (apply_reconciliation_outcome recovery result) =
     rr_reconciliation_attempted result"
  by (simp_all add: apply_reconciliation_outcome_def Let_def split: invalid_time_recovery_status.split)

lemma crossed_effect_fields [simp]:
  "re_stage (crossed_effect recovery crossed) = Stage_reconciliation"
  "re_occurrence_id (crossed_effect recovery crossed) = ro_occurrence_id crossed"
  "re_start_alert (crossed_effect recovery crossed) \<longleftrightarrow>
     ir_start_alert recovery \<and> ro_occurrence_id crossed = ir_ringing_occurrence_id recovery"
  by (simp_all add: crossed_effect_def default_effect_def Let_def)

text \<open>
  C20: the latch discipline of a tick, on any backend. Without valid time the tick touches no
  storage, asks for nothing and arms the latch. While the latch is armed no due alarm is
  evaluated, and the latch falls only when the reconciliation ran and succeeded or found nothing
  crossed; a tick with valid time never arms it. The boot identifier is taken over only from a
  valid observation.
\<close>

theorem coordinator_latch:
  assumes "run_runtime_tick storage state observation s = ((result, state'), s')"
  shows "(\<not> rt_time_valid observation \<longrightarrow>
       s' = s \<and> rr_effects result = [] \<and> rr_status result = RS_frozen_invalid_time \<and>
       state' = state\<lparr>rc_reconciliation_pending := True\<rparr>) \<and>
    (rt_time_valid observation \<and> \<not> rc_reconciliation_pending state \<longrightarrow>
       \<not> rc_reconciliation_pending state' \<and> \<not> rr_reconciliation_attempted result) \<and>
    (rt_time_valid observation \<and> rc_reconciliation_pending state \<longrightarrow>
       rr_reconciliation_attempted result \<and>
       (\<forall>e \<in> set (rr_effects result). re_stage e \<noteq> Stage_evaluation) \<and>
       (\<not> rc_reconciliation_pending state' \<longrightarrow>
          (\<exists>s1 recovery. reconcile_after_time_valid storage (rt_wall_utc_seconds observation)
               (rt_monotonic_seconds observation) True s1 = (recovery, s') \<and>
             ir_status recovery \<in> {IR_reconciled, IR_nothing_crossed} \<and>
             rr_reconciliation_crossed result = ir_crossed recovery))) \<and>
    (rc_last_handled_boot_id state' = rc_last_handled_boot_id state \<or>
     rt_time_valid observation \<and> rc_last_handled_boot_id state' = rt_boot_id observation)"
proof (cases "rt_time_valid observation \<and> rc_reconciliation_pending state")
  case False
  have attempted: "\<not> rr_reconciliation_attempted default_tick" "rr_effects default_tick = []"
    by (simp_all add: default_tick_def)
  from False assms show ?thesis
    by (auto simp: run_runtime_tick_def evaluation_stage_def Let_def attempted
        split: if_splits prod.splits sum.splits dest: load_and_settle_effects)
next
  case True
  let ?pending = "rt_boot_id observation \<noteq> [] \<and> rc_last_handled_boot_id state \<noteq> rt_boot_id observation"
  let ?result0 = "default_tick\<lparr>rr_reconciliation_attempted := True\<rparr>"
  obtain out s1 where ls: "load_and_settle storage observation ?pending ?result0 s = (out, s1)" by fastforce
  have start: "rr_effects ?result0 = []" "rr_reconciliation_attempted ?result0"
    by (simp_all add: default_tick_def)
  note effects = load_and_settle_effects [OF ls start(1)]
  show ?thesis
  proof (cases out)
    case (Inl result1)
    with True assms ls effects(1) [OF Inl] show ?thesis
      by (simp add: run_runtime_tick_def Let_def)
  next
    case (Inr result1)
    obtain recovery s2 where rec: "reconcile_after_time_valid storage (rt_wall_utc_seconds observation)
        (rt_monotonic_seconds observation) True s1 = (recovery, s2)" by fastforce
    have crossed: "rr_reconciliation_crossed (apply_reconciliation_outcome recovery result1) = ir_crossed recovery"
      by (simp add: apply_reconciliation_outcome_def Let_def split: invalid_time_recovery_status.split)
    have run: "result = apply_reconciliation_outcome recovery result1" "s' = s2"
      "rc_reconciliation_pending state' \<longleftrightarrow> \<not> reconciliation_clears_latch recovery"
      "rc_last_handled_boot_id state' =
        (if ?pending then rt_boot_id observation else rc_last_handled_boot_id state)"
      using True assms ls Inr rec by (auto simp: run_runtime_tick_def Let_def)
    have parts: "rr_reconciliation_attempted result" "rr_reconciliation_crossed result = ir_crossed recovery"
      "\<forall>e \<in> set (rr_effects result). re_stage e \<noteq> Stage_evaluation"
      using effects(2) [OF Inr] crossed by (auto simp: run(1) apply_reconciliation_effects)
    have latch: "\<not> rc_reconciliation_pending state' \<longrightarrow> ir_status recovery \<in> {IR_reconciled, IR_nothing_crossed}"
      by (simp add: run(3) reconciliation_clears_latch_def)
    show ?thesis
      using True parts latch rec run(2,4) by auto
  qed
qed

section \<open>Alerts of one tick\<close>

text \<open>The start edges among some effects are few, and rings of the stored journal.\<close>

definition alerts :: "(storage_slot \<Rightarrow> bytes option) \<Rightarrow> runtime_tick_effect list \<Rightarrow> bool" where
  "alerts c effects \<longleftrightarrow>
     length (filter re_start_alert effects) \<le> 1 \<and>
     (\<forall>e \<in> set effects. re_start_alert e \<longrightarrow>
        lr_status (view c) = LS_loaded \<and> rings_in (stored_journal c) (re_occurrence_id e))"

lemma alerts_Nil [simp]: "alerts c []"
  by (simp add: alerts_def)

text \<open>
  The occurrence of a resumed ring is younger than its hour on the translated anchor, also when
  the translation leaves the signed range.
\<close>

lemma translated_anchor_young:
  fixes mt wall ring e elapsed :: i64
  assumes "checked_elapsed mt (mt - (wall - ring)) = Some elapsed"
    and "checked_elapsed wall ring = Some e" and "sint e < kOccurrenceLifetimeSeconds"
  shows "sint elapsed < kOccurrenceLifetimeSeconds"
proof -
  have "e = wall - ring" using assms(2) by (simp add: checked_elapsed_def split: if_splits)
  moreover have "elapsed = mt - (mt - (wall - ring))"
    using assms(1) by (simp add: checked_elapsed_def split: if_splits)
  ultimately show ?thesis using assms(3) by simp
qed

text \<open>What settling a loaded journal leaves.\<close>

lemma settle_active_alerts:
  assumes "quiet_backend storage contents inside unsettled"
    and "stores (contents s) snapshot generation"
    and "settle_active_occurrence storage (ss_occurrence_state snapshot) observation boot_pending
      (ss_revision snapshot) generation result s = ((Settled, result'), s')"
    and "rr_effects result = []"
  shows "(\<forall>e \<in> set (rr_effects result'). \<not> re_start_alert e) \<or>
    (\<exists>e a. rr_effects result' = [e] \<and> re_start_alert e \<and>
       lr_status (view (contents s')) = LS_loaded \<and> ps_active (stored_journal (contents s')) = Some a \<and>
       ao_occurrence_id a = re_occurrence_id e \<and> ao_snooze_deadline_monotonic_seconds a = None \<and>
       (boot_pending \<longrightarrow> (\<forall>elapsed. checked_elapsed (rt_monotonic_seconds observation)
          (ao_first_ring_monotonic_seconds a) = Some elapsed \<longrightarrow> sint elapsed < kOccurrenceLifetimeSeconds)))"
proof (cases "ps_active (ss_occurrence_state snapshot)")
  case None
  with assms(3,4) show ?thesis by (simp add: settle_active_occurrence_def)
next
  case (Some active)
  let ?st = "ss_occurrence_state snapshot"
  obtain r st1 where act: "(if boot_pending
      then recover_after_reboot ?st (rt_wall_utc_seconds observation) (rt_boot_id observation)
      else advance_active ?st (rt_monotonic_seconds observation)) = (r, st1)" by fastforce
  let ?st' = "if boot_pending then translate_anchor observation st1 else st1"
  show ?thesis
  proof (cases "er_start_alert r")
    case False
    with assms(3,4) Some act show ?thesis
      by (auto simp: settle_active_occurrence_def Let_def default_effect_def split: if_splits prod.splits)
  next
    case True
    have persist: "er_persist_before_effects r" "er_status r \<noteq> ES_invalid_time"
      using act True Some
      by (auto simp: recover_after_reboot_def advance_active_def result_defs Let_def
          split: if_splits option.splits)
    have "\<exists>a. ps_active ?st' = Some a \<and> ao_occurrence_id a = er_occurrence_id r \<and>
        ao_snooze_deadline_monotonic_seconds a = None \<and>
        (boot_pending \<longrightarrow> (\<forall>elapsed. checked_elapsed (rt_monotonic_seconds observation)
          (ao_first_ring_monotonic_seconds a) = Some elapsed \<longrightarrow> sint elapsed < kOccurrenceLifetimeSeconds))"
      using act True Some
      by (auto simp: recover_after_reboot_def advance_active_def result_defs Let_def translate_anchor_def not_le
          split: if_splits option.splits) (erule translated_anchor_young, assumption+)
    then obtain a where a: "ps_active ?st' = Some a" "ao_occurrence_id a = er_occurrence_id r"
        "ao_snooze_deadline_monotonic_seconds a = None"
      and young: "boot_pending \<longrightarrow> (\<forall>elapsed. checked_elapsed (rt_monotonic_seconds observation)
          (ao_first_ring_monotonic_seconds a) = Some elapsed \<longrightarrow> sint elapsed < kOccurrenceLifetimeSeconds)"
      by blast
    obtain committed where sv: "save_occurrence_state storage ?st' (ss_revision snapshot) generation s =
        (committed, s')" "committed_ok committed"
      and eff: "\<exists>e. rr_effects result' = [e] \<and> re_start_alert e \<and> re_occurrence_id e = er_occurrence_id r"
      using assms(3,4) Some act persist True
      by (auto simp: settle_active_occurrence_def Let_def default_effect_def split: if_splits prod.splits)
    have "stores (contents s') (snapshot\<lparr>ss_occurrence_state := ?st'\<rparr>) (sr_generation committed)"
      using quiet_backend.journal_commit_stores(2) [OF assms(1,2) sv(1)] sv(2) by (simp add: committed_ok_def)
    then have "lr_status (view (contents s')) = LS_loaded" "stored_journal (contents s') = ?st'"
      by (simp_all add: stores_def)
    with a young eff show ?thesis by metis
  qed
qed

lemma evaluation_stage_alerts:
  assumes "quiet_backend storage contents inside unsettled"
    and "evaluation_stage storage observation result s = (result', s')"
    and "\<forall>e \<in> set (rr_effects result). \<not> re_start_alert e"
  shows "alerts (contents s') (rr_effects result')"
proof -
  obtain evaluation where ev: "evaluate_committed_schedule storage (rt_wall_utc_seconds observation)
      (rt_monotonic_seconds observation) True [] s = (evaluation, s')"
    and effects: "rr_effects result' = rr_effects result @ map evaluation_effect (cs_alarms evaluation)"
    using assms(2) by (auto simp: evaluation_stage_def split: prod.splits)
  have start: "re_start_alert (evaluation_effect entry) = starts entry"
    "re_occurrence_id (evaluation_effect entry) = er_occurrence_id (ce_result entry)" for entry
    by (simp_all add: evaluation_effect_def)
  have none: "filter re_start_alert (rr_effects result) = []" using assms(3) by (simp add: filter_empty_conv)
  have "length (filter starts (cs_alarms evaluation)) \<le> 1"
    using evaluate_start_count [of storage "rt_wall_utc_seconds observation"
      "rt_monotonic_seconds observation" True "[]" s] ev by simp
  with evaluate_durable [OF assms(1) ev] assms(3) none show ?thesis
    by (auto simp: alerts_def effects durable_def filter_map comp_def start)
qed

text \<open>After a resumed ring the evaluation adds no alert and leaves the journal alone.\<close>

lemma evaluation_stage_after_ring:
  assumes "quiet_backend storage contents inside unsettled"
    and "evaluation_stage storage observation result s = (result', s')"
    and "rr_effects result = [e]" and "lr_status (view (contents s)) = LS_loaded"
    and "ps_active (stored_journal (contents s)) = Some a" and "ao_occurrence_id a = re_occurrence_id e"
    and "ao_snooze_deadline_monotonic_seconds a = None"
    and "\<forall>elapsed. checked_elapsed (rt_monotonic_seconds observation)
      (ao_first_ring_monotonic_seconds a) = Some elapsed \<longrightarrow> sint elapsed < kOccurrenceLifetimeSeconds"
  shows "alerts (contents s') (rr_effects result')"
proof -
  obtain evaluation where ev: "evaluate_committed_schedule storage (rt_wall_utc_seconds observation)
      (rt_monotonic_seconds observation) True [] s = (evaluation, s')"
    and effects: "rr_effects result' = [e] @ map evaluation_effect (cs_alarms evaluation)"
    using assms(2,3) by (auto simp: evaluation_stage_def split: prod.splits)
  have "contents s' = contents s \<and> (\<forall>entry \<in> set (cs_alarms evaluation). \<not> starts entry)"
    by (rule evaluate_silent [OF assms(1) ev assms(4,5,7)]) (use assms(8) in blast)
  with assms(4-7) show ?thesis
    by (auto simp: alerts_def effects rings_in_def filter_map comp_def evaluation_effect_def filter_empty_conv)
qed

text \<open>The crossed occurrences of one reconciliation have distinct identifiers.\<close>

lemma crossed_records_ids: "map ro_occurrence_id (crossed_records rings cs) = map cc_occurrence_id cs"
  by (induction cs) (simp_all add: Let_def)

lemma reconcile_ids:
  assumes "quiet_backend storage contents inside unsettled"
    and "reconcile_after_time_valid storage wall mt time_valid s = (r, s')"
    and "ir_status r = IR_reconciled"
  shows "distinct (map ro_occurrence_id (ir_crossed r))"
proof -
  obtain loaded s1 lateness newest_rings journal committed sorted crossed where
    ld: "load storage s = (loaded, s1)" "lr_status loaded = LS_loaded"
    and sorted: "sorted = crossed_order (collect_crossed (ss_occurrence_state (lr_snapshot loaded)) wall
       (ss_alarms (lr_snapshot loaded)))" "sorted \<noteq> []"
    and crossed: "crossed = butlast sorted @ [(last sorted)\<lparr>cc_lateness_seconds := lateness\<rparr>]"
    and r: "ir_crossed r = crossed_records newest_rings crossed"
    by (rule reconcile_decompose [OF assms(2,3)])
  from stores_valid [OF quiet_backend.load_stores(2) [OF assms(1) ld]] sorted
  show ?thesis unfolding r crossed crossed_records_ids by (rule crossed_ids)
qed

lemma distinct_filter_one: "distinct (map f xs) \<Longrightarrow> length (filter (\<lambda>x. f x = y) xs) \<le> 1"
proof (induction xs)
  case (Cons a xs)
  have "filter (\<lambda>x. f x = y) xs = []" if "f a = y"
    using Cons.prems that by (simp add: filter_empty_conv) (metis image_eqI)
  with Cons show ?case by (cases "f a = y") simp_all
qed simp

lemma apply_reconciliation_alerts:
  assumes "quiet_backend storage contents inside unsettled"
    and "reconcile_after_time_valid storage wall mt True s = (recovery, s')"
    and "\<forall>e \<in> set (rr_effects result). \<not> re_start_alert e"
  shows "alerts (contents s') (rr_effects (apply_reconciliation_outcome recovery result))"
proof (cases "ir_status recovery = IR_reconciled \<and> ir_start_alert recovery")
  case False
  with assms(3) show ?thesis by (auto simp: alerts_def apply_reconciliation_effects filter_empty_conv)
next
  case True
  have none: "filter re_start_alert (rr_effects result) = []" using assms(3) by (simp add: filter_empty_conv)
  obtain journal newest where after: "lr_status (view (contents s')) = LS_loaded"
    "lr_snapshot (view (contents s')) = (lr_snapshot (view (contents s)))\<lparr>ss_occurrence_state := journal\<rparr>"
    and ring: "ir_start_alert recovery \<Longrightarrow> ir_ringing_occurrence_id recovery = stored_occurrence_id newest \<and>
       rings_in journal (stored_occurrence_id newest)"
    by (rule reconciled_journal [OF assms(1,2) conjunct1 [OF True]]) blast
  have "length (filter (\<lambda>c. ro_occurrence_id c = ir_ringing_occurrence_id recovery) (ir_crossed recovery)) \<le> 1"
    using distinct_filter_one [OF reconcile_ids [OF assms(1,2) conjunct1 [OF True]]] .
  with after ring True assms(3) none show ?thesis
    by (auto simp: alerts_def apply_reconciliation_effects filter_map comp_def)
qed

text \<open>While an occurrence is active in the store, the reconciliation writes nothing.\<close>

lemma reconcile_active:
  assumes "quiet_backend storage contents inside unsettled"
    and "reconcile_after_time_valid storage wall mt True s = (recovery, s')"
    and "lr_status (view (contents s)) = LS_loaded" and "ps_active (stored_journal (contents s)) \<noteq> None"
  shows "ir_status recovery \<noteq> IR_reconciled \<and> contents s' = contents s"
proof -
  obtain loaded s1 where ld: "load storage s = (loaded, s1)" by fastforce
  note load = quiet_backend.load_stores [OF assms(1) ld]
  have "ps_active (ss_occurrence_state (lr_snapshot loaded)) \<noteq> None" if "lr_status loaded = LS_loaded"
    using load(2) [OF that] assms(4) by (simp add: stores_def)
  with assms(2) ld load(1) show ?thesis
    by (auto simp: reconcile_after_time_valid_def default_recovery_def Let_def split: if_splits)
qed

lemma load_and_settle_alerts:
  assumes "quiet_backend storage contents inside unsettled"
    and "load_and_settle storage observation boot_pending result s = (Inr result', s')"
    and "rr_effects result = []"
  shows "(\<forall>e \<in> set (rr_effects result'). \<not> re_start_alert e) \<or>
    (\<exists>e a. rr_effects result' = [e] \<and> re_start_alert e \<and>
       lr_status (view (contents s')) = LS_loaded \<and> ps_active (stored_journal (contents s')) = Some a \<and>
       ao_occurrence_id a = re_occurrence_id e \<and> ao_snooze_deadline_monotonic_seconds a = None \<and>
       (boot_pending \<longrightarrow> (\<forall>elapsed. checked_elapsed (rt_monotonic_seconds observation)
          (ao_first_ring_monotonic_seconds a) = Some elapsed \<longrightarrow> sint elapsed < kOccurrenceLifetimeSeconds)))"
proof -
  obtain loaded s1 where ld: "load storage s = (loaded, s1)" by fastforce
  note load = quiet_backend.load_stores [OF assms(1) ld]
  have loaded: "lr_status loaded = LS_loaded"
    using assms(2) ld by (auto simp: load_and_settle_def split: if_splits)
  have "\<exists>stage. stage = Settled \<and> settle_active_occurrence storage (ss_occurrence_state (lr_snapshot loaded))
      observation boot_pending (ss_revision (lr_snapshot loaded)) (lr_generation loaded)
      (result\<lparr>rr_schedule_revision := ss_revision (lr_snapshot loaded), rr_generation := lr_generation loaded\<rparr>)
      s1 = ((stage, result'), s')"
    using assms(2) ld loaded
    by (auto simp: load_and_settle_def split: prod.splits if_splits) (metis settle_stage.exhaust)
  then show ?thesis
    using settle_active_alerts [OF assms(1), of s1] load assms(3) loaded by auto
qed

lemma tick_alerts:
  assumes "quiet_backend storage contents inside unsettled"
    and "run_runtime_tick storage state observation s = ((result, state'), s')"
  shows "alerts (contents s') (rr_effects result)"
proof -
  let ?boot = "rt_boot_id observation \<noteq> [] \<and> rc_last_handled_boot_id state \<noteq> rt_boot_id observation"
  have start: "rr_effects default_tick = []"
    "rr_effects (default_tick\<lparr>rr_reconciliation_attempted := True\<rparr>) = []"
    by (simp_all add: default_tick_def)
  consider (frozen) "\<not> rt_time_valid observation"
    | (pending) "rt_time_valid observation" "rc_reconciliation_pending state"
    | (boot) "rt_time_valid observation" "\<not> rc_reconciliation_pending state" ?boot
    | (plain) "rt_time_valid observation" "\<not> rc_reconciliation_pending state" "\<not> ?boot" by blast
  then show ?thesis
  proof cases
    case frozen
    with assms(2) start show ?thesis by (auto simp: run_runtime_tick_def)
  next
    case pending
    obtain out s1 where ls: "load_and_settle storage observation ?boot
        (default_tick\<lparr>rr_reconciliation_attempted := True\<rparr>) s = (out, s1)" by fastforce
    show ?thesis
    proof (cases out)
      case (Inl early)
      with load_and_settle_effects(1) [OF ls start(2) Inl] pending assms(2) ls show ?thesis
        by (simp add: run_runtime_tick_def Let_def)
    next
      case (Inr result1)
      obtain recovery s2 where rec: "reconcile_after_time_valid storage (rt_wall_utc_seconds observation)
          (rt_monotonic_seconds observation) True s1 = (recovery, s2)" by fastforce
      have run: "result = apply_reconciliation_outcome recovery result1" "s' = s2"
        using pending assms(2) ls Inr rec by (auto simp: run_runtime_tick_def Let_def)
      from load_and_settle_alerts [OF assms(1) ls [unfolded Inr] start(2)] show ?thesis
      proof (elim disjE exE conjE)
        assume "\<forall>e \<in> set (rr_effects result1). \<not> re_start_alert e"
        from apply_reconciliation_alerts [OF assms(1) rec this] show ?thesis by (simp add: run)
      next
        fix e a assume *: "rr_effects result1 = [e]" "lr_status (view (contents s1)) = LS_loaded"
          "ps_active (stored_journal (contents s1)) = Some a" "ao_occurrence_id a = re_occurrence_id e"
          "ao_snooze_deadline_monotonic_seconds a = None"
        then show ?thesis
          using reconcile_active [OF assms(1) rec]
          by (simp add: run apply_reconciliation_effects alerts_def rings_in_def)
      qed
    qed
  next
    case boot
    obtain out s1 where ls: "load_and_settle storage observation True default_tick s = (out, s1)"
      by fastforce
    show ?thesis
    proof (cases out)
      case (Inl early)
      with load_and_settle_effects(1) [OF ls start(1) Inl] boot assms(2) ls show ?thesis
        by (simp add: run_runtime_tick_def Let_def)
    next
      case (Inr result1)
      have stage: "evaluation_stage storage observation result1 s1 = (result, s')"
        using boot assms(2) ls Inr by (auto simp: run_runtime_tick_def Let_def split: prod.splits)
      from load_and_settle_alerts [OF assms(1) ls [unfolded Inr] start(1)] show ?thesis
        using evaluation_stage_alerts [OF assms(1) stage] evaluation_stage_after_ring [OF assms(1) stage]
        by blast
    qed
  next
    case plain
    then have "evaluation_stage storage observation default_tick s = (result, s')"
      using assms(2) by (auto simp: run_runtime_tick_def Let_def split: prod.splits)
    from evaluation_stage_alerts [OF assms(1) this] show ?thesis by (simp add: start)
  qed
qed

text \<open>
  C21: a tick asks to start at most one alert, whichever of its stages asked for it: a settled
  occurrence that rings again excludes both the reconciliation's ring and every due alarm.
\<close>

theorem tick_starts_at_most_one:
  assumes "quiet_backend storage contents inside unsettled"
    and "run_runtime_tick storage state observation s = ((result, state'), s')"
  shows "length (filter re_start_alert (rr_effects result)) \<le> 1"
  using tick_alerts [OF assms] by (simp add: alerts_def)

text \<open>
  C22: whatever alert a tick asks to start, in any stage, is the active and unsnoozed occurrence
  of the journal that the store holds when the tick returns.
\<close>

theorem tick_commits_before_effect:
  assumes "quiet_backend storage contents inside unsettled"
    and "run_runtime_tick storage state observation s = ((result, state'), s')"
    and "effect \<in> set (rr_effects result)" and "re_start_alert effect"
  shows "lr_status (view (contents s')) = LS_loaded \<and>
    rings_in (stored_journal (contents s')) (re_occurrence_id effect)"
  using tick_alerts [OF assms(1,2)] assms(3,4) by (simp add: alerts_def)

section \<open>A concrete tick\<close>

text \<open>
  The first valid tick after an interval without time, at 1005 s over the sample schedule: the
  alarm of 1000 s was crossed, rings late, and the latch falls.
\<close>

definition sample_observation :: runtime_tick_observation where
  "sample_observation =
     \<lparr>rt_time_valid = True, rt_wall_utc_seconds = 1005, rt_monotonic_seconds = 7, rt_boot_id = ''b''\<rparr>"

definition sample_effect :: runtime_tick_effect where
  "sample_effect =
     \<lparr>re_alarm_id = ''wake'', re_occurrence_id = ''wake:1:1000'', re_status = ES_ringing,
      re_start_alert = True, re_stop_alert = False, re_late = True, re_lateness_seconds = 5,
      re_recovered_after_reboot = False, re_stage = Stage_reconciliation\<rparr>"

definition sample_tick :: runtime_tick_result where
  "sample_tick =
     \<lparr>rr_status = RS_evaluated, rr_schedule_revision = 1, rr_generation = 2,
      rr_reconciliation_attempted = True, rr_reconciliation_status = IR_reconciled,
      rr_reconciliation_crossed = ir_crossed sample_recovered, rr_effects = [sample_effect]\<rparr>"

abbreviation armed :: runtime_coordinator_state where
  "armed \<equiv> \<lparr>rc_last_handled_boot_id = [], rc_reconciliation_pending = True\<rparr>"

lemma sample_tick_run:
  "\<exists>bs bs'. encode_record sample_snapshot 1 = Some bs \<and>
     encode_record (sample_snapshot\<lparr>ss_occurrence_state := sample_journal\<rparr>) 2 = Some bs' \<and>
     run_runtime_tick sample_backend armed sample_observation (partition_with [''slot_a'' \<mapsto> bs]) =
       ((sample_tick, \<lparr>rc_last_handled_boot_id = ''b'', rc_reconciliation_pending = False\<rparr>),
        partition_with [''slot_a'' \<mapsto> bs, ''slot_b'' \<mapsto> bs'])"
proof -
  obtain bs bs' where bs: "encode_record sample_snapshot 1 = Some bs"
    and bs': "encode_record (sample_snapshot\<lparr>ss_occurrence_state := sample_journal\<rparr>) 2 = Some bs'"
    and rec: "reconcile_after_time_valid sample_backend 1005 7 True (partition_with [''slot_a'' \<mapsto> bs]) =
       (sample_recovered, partition_with [''slot_a'' \<mapsto> bs, ''slot_b'' \<mapsto> bs'])"
    using sample_reconcile by blast
  have "ps_active (ss_occurrence_state sample_snapshot) = None" "ss_revision sample_snapshot = 1"
    by (simp_all add: sample_snapshot_def)
  then have "run_runtime_tick sample_backend armed sample_observation (partition_with [''slot_a'' \<mapsto> bs]) =
       ((sample_tick, \<lparr>rc_last_handled_boot_id = ''b'', rc_reconciliation_pending = False\<rparr>),
        partition_with [''slot_a'' \<mapsto> bs, ''slot_b'' \<mapsto> bs'])"
    by (simp add: run_runtime_tick_def sample_observation_def load_and_settle_def sample_loads(1) [OF bs]
        settle_active_occurrence_def rec Let_def default_tick_def apply_reconciliation_outcome_def
        reconciliation_clears_latch_def crossed_effect_def default_effect_def sample_recovered_def
        sample_tick_def sample_effect_def)
  with bs bs' show ?thesis by blast
qed

theorem coordinator_latch_witness:
  "\<exists>bs s1 recovery. encode_record sample_snapshot 1 = Some bs \<and>
     reconcile_after_time_valid sample_backend 1005 7 True s1 =
       (recovery, snd (run_runtime_tick sample_backend armed sample_observation
          (partition_with [''slot_a'' \<mapsto> bs]))) \<and>
     ir_status recovery \<in> {IR_reconciled, IR_nothing_crossed}"
proof -
  obtain bs bs' where bs: "encode_record sample_snapshot 1 = Some bs"
    and run: "run_runtime_tick sample_backend armed sample_observation (partition_with [''slot_a'' \<mapsto> bs]) =
       ((sample_tick, \<lparr>rc_last_handled_boot_id = ''b'', rc_reconciliation_pending = False\<rparr>),
        partition_with [''slot_a'' \<mapsto> bs, ''slot_b'' \<mapsto> bs'])"
    using sample_tick_run by blast
  from coordinator_latch [OF run] bs run show ?thesis
    by (simp add: sample_observation_def) blast
qed

theorem tick_starts_at_most_one_witness:
  "\<exists>bs. encode_record sample_snapshot 1 = Some bs \<and>
     length (filter re_start_alert (rr_effects (fst (fst (run_runtime_tick sample_backend armed
       sample_observation (partition_with [''slot_a'' \<mapsto> bs])))))) \<le> 1 \<and>
     rr_effects (fst (fst (run_runtime_tick sample_backend armed
       sample_observation (partition_with [''slot_a'' \<mapsto> bs])))) = [sample_effect]"
proof -
  obtain bs bs' where bs: "encode_record sample_snapshot 1 = Some bs"
    and run: "run_runtime_tick sample_backend armed sample_observation (partition_with [''slot_a'' \<mapsto> bs]) =
       ((sample_tick, \<lparr>rc_last_handled_boot_id = ''b'', rc_reconciliation_pending = False\<rparr>),
        partition_with [''slot_a'' \<mapsto> bs, ''slot_b'' \<mapsto> bs'])"
    using sample_tick_run by blast
  have "rr_effects sample_tick = [sample_effect]" by (simp add: sample_tick_def)
  with tick_starts_at_most_one [OF sample_quiet run] bs run show ?thesis by auto
qed

theorem tick_commits_before_effect_witness:
  "\<exists>bs bs'. encode_record sample_snapshot 1 = Some bs \<and>
     run_runtime_tick sample_backend armed sample_observation (partition_with [''slot_a'' \<mapsto> bs]) =
       ((sample_tick, \<lparr>rc_last_handled_boot_id = ''b'', rc_reconciliation_pending = False\<rparr>),
        partition_with [''slot_a'' \<mapsto> bs, ''slot_b'' \<mapsto> bs']) \<and>
     rings_in (stored_journal (\<lambda>slot. [''slot_a'' \<mapsto> bs, ''slot_b'' \<mapsto> bs'] (key_for slot))) ''wake:1:1000''"
proof -
  obtain bs bs' where bs: "encode_record sample_snapshot 1 = Some bs"
    and run: "run_runtime_tick sample_backend armed sample_observation (partition_with [''slot_a'' \<mapsto> bs]) =
       ((sample_tick, \<lparr>rc_last_handled_boot_id = ''b'', rc_reconciliation_pending = False\<rparr>),
        partition_with [''slot_a'' \<mapsto> bs, ''slot_b'' \<mapsto> bs'])"
    using sample_tick_run by blast
  have "sample_effect \<in> set (rr_effects sample_tick)" "re_start_alert sample_effect"
    "re_occurrence_id sample_effect = ''wake:1:1000''"
    by (simp_all add: sample_tick_def sample_effect_def)
  with tick_commits_before_effect [OF sample_quiet run, of sample_effect] bs run show ?thesis by auto
qed

end
