(* ===== verification/Control_Debounce.thy ===== *)
theory Control_Debounce
  imports Dawn_Prelude
begin

text \<open>
  The debounce policy of the push inputs, \<open>control_debounce.cpp\<close>: a level counts once it has
  been held for 20 ms, and only a confirmed press after a confirmed level is reported.
\<close>

section \<open>The policy\<close>

definition kDebounceStableMilliseconds :: u64 where
  "kDebounceStableMilliseconds = 20"

record control_debounce =
  db_stable_pressed :: "bool option"
  db_candidate_pressed :: "bool option"
  db_candidate_started_ms :: i64

definition debounce_init :: control_debounce where
  "debounce_init =
     \<lparr>db_stable_pressed = None, db_candidate_pressed = None, db_candidate_started_ms = 0\<rparr>"

definition debounce_sample :: "bool \<Rightarrow> i64 \<Rightarrow> control_debounce \<Rightarrow> bool \<times> control_debounce" where
  "debounce_sample pressed now_ms d =
     (if db_stable_pressed d = Some pressed
      then (False, d\<lparr>db_candidate_pressed := None\<rparr>)
      else if db_candidate_pressed d \<noteq> Some pressed \<or>
              sint now_ms < sint (db_candidate_started_ms d)
      then (False, d\<lparr>db_candidate_pressed := Some pressed, db_candidate_started_ms := now_ms\<rparr>)
      else
        let elapsed = (now_ms :: u64) - db_candidate_started_ms d
        in if elapsed < kDebounceStableMilliseconds then (False, d)
           else (db_stable_pressed d \<noteq> None \<and> pressed,
                 d\<lparr>db_stable_pressed := Some pressed, db_candidate_pressed := None\<rparr>))"

text \<open>A line over a whole sequence of polls.\<close>

fun debounce_run :: "control_debounce \<Rightarrow> (bool \<times> i64) list \<Rightarrow> bool list \<times> control_debounce" where
  "debounce_run d [] = ([], d)"
| "debounce_run d ((pressed, now_ms) # polls) =
     (case debounce_sample pressed now_ms d of
        (event, d) \<Rightarrow> (case debounce_run d polls of (events, d) \<Rightarrow> (event # events, d)))"

section \<open>Elapsed time\<close>

text \<open>The unsigned difference is exact at any distance.\<close>

lemma elapsed_exact:
  fixes now start :: i64
  assumes "sint start \<le> sint now"
  shows "uint (now - start) = sint now - sint start"
proof -
  have "uint (now - start) = (sint now - sint start) mod 2 ^ 64"
    using uint_word_of_int [of "sint now - sint start", where 'a = 64]
    by (simp add: wi_hom_sub [symmetric] take_bit_eq_mod)
  moreover have "sint now - sint start < 2 ^ 64"
    using sint_range_size [of now] sint_range_size [of start] by (simp add: word_size)
  ultimately show ?thesis using assms by simp
qed

lemma debounce_run_append:
  "debounce_run d (xs @ ys) =
     (case debounce_run d xs of (e1, d1) \<Rightarrow> (case debounce_run d1 ys of (e2, d2) \<Rightarrow> (e1 @ e2, d2)))"
  by (induction xs arbitrary: d) (auto split: prod.splits)

lemma length_debounce_run: "debounce_run d xs = (events, d') \<Longrightarrow> length events = length xs"
  by (induction xs arbitrary: d events) (auto split: prod.splits)

section \<open>What a report stands for\<close>

text \<open>
  \<open>holding level w\<close>: every poll of the window saw the level, none earlier than the first.
  \<open>confirmed\<close> adds that at least 20 ms lie between its first and its last poll.
\<close>

definition holding :: "bool \<Rightarrow> (bool \<times> i64) list \<Rightarrow> bool" where
  "holding level w \<longleftrightarrow> w \<noteq> [] \<and> (\<forall>(p, t) \<in> set w. p = level \<and> sint (snd (hd w)) \<le> sint t)"

definition confirmed :: "bool \<Rightarrow> (bool \<times> i64) list \<Rightarrow> bool" where
  "confirmed level w \<longleftrightarrow> holding level w \<and> 20 \<le> sint (snd (last w)) - sint (snd (hd w))"

text \<open>How the history of a line explains its state.\<close>

definition since ::
    "bool \<Rightarrow> (bool \<times> i64) list \<Rightarrow> bool list \<Rightarrow> bool" where
  "since level before events \<longleftrightarrow>
     (\<exists>h1 window h2. before = h1 @ window @ h2 \<and> confirmed level window \<and>
        True \<notin> set (drop (length h1 + length window) events))"

definition explains :: "(bool \<times> i64) list \<Rightarrow> bool list \<Rightarrow> control_debounce \<Rightarrow> bool" where
  "explains h events d \<longleftrightarrow>
     (\<exists>before w. h = before @ w \<and>
        (case db_candidate_pressed d of
           None \<Rightarrow> w = []
         | Some level \<Rightarrow> holding level w \<and> snd (hd w) = db_candidate_started_ms d \<and>
             db_stable_pressed d \<noteq> Some level) \<and>
        (\<forall>level. db_stable_pressed d = Some level \<longrightarrow> since level before events))"

lemma sinceI:
  "before = h1 @ window @ h2 \<Longrightarrow> confirmed level window \<Longrightarrow>
     True \<notin> set (drop (length h1 + length window) events) \<Longrightarrow> since level before events"
  by (auto simp: since_def)

lemma since_later:
  assumes "since level before events" and "length before \<le> length events"
  shows "since level (before @ rest) (events @ [False])"
proof -
  obtain h1 window h2 where *: "before = h1 @ window @ h2" "confirmed level window"
    "True \<notin> set (drop (length h1 + length window) events)"
    using assms(1) by (auto simp: since_def)
  show ?thesis
    by (rule sinceI [of _ h1 window "h2 @ rest"]) (use * assms(2) in simp_all)
qed

lemma explainsI:
  assumes "h = before @ w"
    and "case db_candidate_pressed d of None \<Rightarrow> w = []
       | Some level \<Rightarrow> holding level w \<and> snd (hd w) = db_candidate_started_ms d \<and>
           db_stable_pressed d \<noteq> Some level"
    and "\<And>level. db_stable_pressed d = Some level \<Longrightarrow> since level before events"
  shows "explains h events d"
  using assms unfolding explains_def by blast

lemma holding_snoc:
  "holding level w \<Longrightarrow> sint (snd (hd w)) \<le> sint now \<Longrightarrow> holding level (w @ [(level, now)])"
  by (auto simp: holding_def)

lemma explains_init: "explains [] [] debounce_init"
  by (simp add: explains_def debounce_init_def)

text \<open>One poll keeps the explanation, and its report is explained.\<close>

lemma debounce_sample_explains:
  assumes "explains h events d" and "length events = length h"
    and "debounce_sample pressed now d = (event, d')"
  shows "explains (h @ [(pressed, now)]) (events @ [event]) d'"
    and "event \<Longrightarrow> \<exists>h1 release h2 press. h @ [(pressed, now)] = h1 @ release @ h2 @ press \<and>
      confirmed False release \<and> confirmed True press \<and>
      True \<notin> set (drop (length h1 + length release) events)"
proof -
  obtain before w where h: "h = before @ w"
    and cand: "case db_candidate_pressed d of None \<Rightarrow> w = []
       | Some level \<Rightarrow> holding level w \<and> snd (hd w) = db_candidate_started_ms d \<and>
           db_stable_pressed d \<noteq> Some level"
    and stable: "\<And>level. db_stable_pressed d = Some level \<Longrightarrow> since level before events"
    using assms(1) unfolding explains_def by blast
  let ?poll = "(pressed, now)"
  note later = since_later [OF stable]
  have len: "length before \<le> length events" using h assms(2) by simp
  consider (settled) "db_stable_pressed d = Some pressed"
    | (restart) "db_stable_pressed d \<noteq> Some pressed" "db_candidate_pressed d \<noteq> Some pressed \<or>
        sint now < sint (db_candidate_started_ms d)"
    | (counting) "db_stable_pressed d \<noteq> Some pressed" "db_candidate_pressed d = Some pressed"
        "sint (db_candidate_started_ms d) \<le> sint now" by linarith
  then have "explains (h @ [?poll]) (events @ [event]) d' \<and>
    (event \<longrightarrow> (\<exists>h1 release h2 press. h @ [?poll] = h1 @ release @ h2 @ press \<and>
      confirmed False release \<and> confirmed True press \<and>
      True \<notin> set (drop (length h1 + length release) events)))"
  proof cases
    case settled
    with assms(3) have "event = False" "d' = d\<lparr>db_candidate_pressed := None\<rparr>"
      by (simp_all add: debounce_sample_def)
    with later [OF _ len] h show ?thesis
      by (auto intro!: explainsI [of _ "before @ w @ [?poll]" "[]"])
  next
    case restart
    with assms(3) have "event = False"
      "d' = d\<lparr>db_candidate_pressed := Some pressed, db_candidate_started_ms := now\<rparr>"
      by (auto simp: debounce_sample_def)
    with later [OF _ len] h restart(1) show ?thesis
      by (auto simp: holding_def intro!: explainsI [of _ "before @ w" "[?poll]"])
  next
    case counting
    let ?w = "w @ [?poll]"
    have w: "holding pressed w" "snd (hd w) = db_candidate_started_ms d" "w \<noteq> []"
      using cand counting(2) by (auto simp: holding_def)
    then have hold: "holding pressed ?w" "snd (hd ?w) = db_candidate_started_ms d"
      using counting(3) holding_snoc by auto
    note exact = elapsed_exact [OF counting(3)]
    show ?thesis
    proof (cases "now - db_candidate_started_ms d < kDebounceStableMilliseconds")
      case True
      with assms(3) counting have "event = False" "d' = d"
        by (auto simp: debounce_sample_def Let_def)
      with later [OF _ len, of _ "[]"] h counting hold show ?thesis
        by (auto intro!: explainsI [of _ before ?w])
    next
      case False
      then have "20 \<le> sint now - sint (db_candidate_started_ms d)"
        using exact by (simp add: word_less_def kDebounceStableMilliseconds_def)
      with hold have conf: "confirmed pressed ?w" by (simp add: confirmed_def)
      have result: "event \<longleftrightarrow> db_stable_pressed d \<noteq> None \<and> pressed"
        "d' = d\<lparr>db_stable_pressed := Some pressed, db_candidate_pressed := None\<rparr>"
        using assms(3) counting False by (auto simp: debounce_sample_def Let_def)
      have "since pressed (h @ [?poll]) (events @ [event])"
        by (rule sinceI [of _ before ?w "[]"]) (use h conf assms(2) in simp_all)
      with result(2) have "explains (h @ [?poll]) (events @ [event]) d'"
        by (auto intro!: explainsI [of _ "h @ [?poll]" "[]"])
      moreover have "\<exists>h1 release h2 press. h @ [?poll] = h1 @ release @ h2 @ press \<and>
        confirmed False release \<and> confirmed True press \<and>
        True \<notin> set (drop (length h1 + length release) events)" if event
      proof -
        from that result(1) counting(1) have "db_stable_pressed d = Some False" pressed by auto
        then have "since False before events" using stable by blast
        then obtain h1 release h2 where "before = h1 @ release @ h2" "confirmed False release"
          "True \<notin> set (drop (length h1 + length release) events)" by (auto simp: since_def)
        with conf h \<open>pressed\<close> have "h @ [?poll] = h1 @ release @ h2 @ ?w \<and> confirmed False release \<and>
          confirmed True ?w \<and> True \<notin> set (drop (length h1 + length release) events)" by simp
        then show ?thesis by blast
      qed
      ultimately show ?thesis by blast
    qed
  qed
  then show "explains (h @ [?poll]) (events @ [event]) d'"
    and "event \<Longrightarrow> \<exists>h1 release h2 press. h @ [?poll] = h1 @ release @ h2 @ press \<and>
      confirmed False release \<and> confirmed True press \<and>
      True \<notin> set (drop (length h1 + length release) events)"
    by blast+
qed

lemma debounce_run_explains:
  "debounce_run debounce_init h = (events, d) \<Longrightarrow> explains h events d"
proof (induction h arbitrary: events d rule: rev_induct)
  case Nil
  then show ?case by (simp add: explains_init)
next
  case (snoc poll h)
  obtain events0 d0 where run: "debounce_run debounce_init h = (events0, d0)" by fastforce
  obtain event d1 where "debounce_sample (fst poll) (snd poll) d0 = (event, d1)" by fastforce
  with debounce_sample_explains(1) [OF snoc.IH [OF run] length_debounce_run [OF run] this]
    snoc.prems run show ?case
    by (cases poll) (simp add: debounce_run_append)
qed

text \<open>
  C23: a reported press is real. When a line, polled from power-on over any history, reports a
  press, the history ends with a window of pressed polls at least 20 ms long, before it lies a
  window of released polls at least 20 ms long, and since that release nothing was reported. So
  a bounce, a control held at power-on and a held control never report, and every report needs
  a release of its own.
\<close>

theorem debounce_reports_one_press_per_release:
  assumes "debounce_run debounce_init h = (events, d)"
    and "debounce_sample pressed now d = (True, d')"
  shows "\<exists>h1 release h2 press. h @ [(pressed, now)] = h1 @ release @ h2 @ press \<and>
    confirmed False release \<and> confirmed True press \<and>
    True \<notin> set (drop (length h1 + length release) events)"
  using debounce_sample_explains(2) [OF debounce_run_explains [OF assms(1)]
    length_debounce_run [OF assms(1)] assms(2)] by simp

text \<open>A confirmed release, then a bouncing press.\<close>

lemma sample_press:
  "debounce_run debounce_init [(False, 0), (False, 20), (True, 25), (False, 26), (True, 30)] =
    ([False, False, False, False, False], \<lparr>db_stable_pressed = Some False,
       db_candidate_pressed = Some True, db_candidate_started_ms = 30\<rparr>)"
  "debounce_sample True 50 \<lparr>db_stable_pressed = Some False,
       db_candidate_pressed = Some True, db_candidate_started_ms = 30\<rparr> =
    (True, \<lparr>db_stable_pressed = Some True, db_candidate_pressed = None, db_candidate_started_ms = 30\<rparr>)"
  by (simp_all add: debounce_init_def debounce_sample_def kDebounceStableMilliseconds_def Let_def)

theorem debounce_reports_one_press_per_release_witness:
  "\<exists>h1 release h2 press. [(False, 0), (False, 20), (True, 25), (False, 26), (True, 30)] @ [(True, 50)] =
      h1 @ release @ h2 @ press \<and>
    confirmed False release \<and> confirmed True press \<and>
    True \<notin> set (drop (length h1 + length release) [False, False, False, False, False])"
  by (rule debounce_reports_one_press_per_release [OF sample_press])

end
