(* ===== verification/Quadrature_Encoder.thy ===== *)
theory Quadrature_Encoder
  imports Dawn_Prelude
begin

text \<open>
  The rotation policy of the knob, \<open>quadrature_encoder.cpp\<close>: single-bit Gray transitions are
  summed, a complete cycle of four is one detent, and everything doubtful is dropped.
\<close>

section \<open>The policy\<close>

text \<open>The table of signed steps, indexed by the previous and the new phase.\<close>

definition kStep :: "int list list" where
  "kStep = [[0, 1, -1, 2], [-1, 0, 2, 1], [1, 2, 0, -1], [2, -1, 1, 0]]"

record quadrature_encoder =
  qe_phase :: "nat option"
  qe_progress :: int
  qe_was_pressed :: bool

definition quadrature_init :: quadrature_encoder where
  "quadrature_init = \<lparr>qe_phase = None, qe_progress = 0, qe_was_pressed = False\<rparr>"

definition phase_of :: "bool \<Rightarrow> bool \<Rightarrow> nat" where
  "phase_of a_high b_high = (if a_high then 2 else 0) + (if b_high then 1 else 0)"

definition quadrature_sample ::
    "bool \<Rightarrow> bool \<Rightarrow> bool \<Rightarrow> quadrature_encoder \<Rightarrow> int option \<times> quadrature_encoder" where
  "quadrature_sample a_high b_high pressed q =
     (let phase = phase_of a_high b_high in
      case qe_phase q of
        None \<Rightarrow> (None, q\<lparr>qe_phase := Some phase, qe_was_pressed := pressed\<rparr>)
      | Some previous \<Rightarrow>
          if pressed
          then (None, q\<lparr>qe_phase := Some phase, qe_progress := 0, qe_was_pressed := True\<rparr>)
          else if qe_was_pressed q
          then (None, q\<lparr>qe_phase := Some phase, qe_progress := 0, qe_was_pressed := False\<rparr>)
          else
            let step = kStep ! previous ! phase
            in if step = 0 then (None, q)
               else if step = 2 \<or> step = -2
               then (None, q\<lparr>qe_progress := 0, qe_phase := Some phase\<rparr>)
               else
                 let progress = qe_progress q + step
                 in if progress = 4 then (Some 1, q\<lparr>qe_phase := Some phase, qe_progress := 0\<rparr>)
                    else if progress = -4
                    then (Some (-1), q\<lparr>qe_phase := Some phase, qe_progress := 0\<rparr>)
                    else (None, q\<lparr>qe_phase := Some phase, qe_progress := progress\<rparr>))"

text \<open>A sequence of samples \<open>(a_high, b_high, pressed)\<close>, newest last, and the events of each.\<close>

fun quadrature_run ::
    "quadrature_encoder \<Rightarrow> (bool \<times> bool \<times> bool) list \<Rightarrow> int option list \<times> quadrature_encoder" where
  "quadrature_run q [] = ([], q)"
| "quadrature_run q ((a_high, b_high, pressed) # samples) =
     (case quadrature_sample a_high b_high pressed q of
        (event, q) \<Rightarrow> (case quadrature_run q samples of (events, q) \<Rightarrow> (event # events, q)))"

section \<open>The Gray cycle\<close>

text \<open>The place of a phase in the Gray order \<open>00, 01, 11, 10\<close>, as an angle in quarter turns.\<close>

definition gray_index :: "nat \<Rightarrow> int" where
  "gray_index phase = [0, 1, 3, 2] ! phase"

text \<open>
  The turn that a single-bit transition makes: the difference of the two places modulo a whole
  cycle, when it is one quarter in either direction.
\<close>

definition quarter_turn :: "nat \<Rightarrow> nat \<Rightarrow> int option" where
  "quarter_turn previous phase =
     (let d = (gray_index phase - gray_index previous) mod 4
      in if d = 0 then Some 0 else if d = 1 then Some 1 else if d = 3 then Some (-1) else None)"

lemma phase_of_less [simp]: "phase_of a b < 4"
  by (simp add: phase_of_def)

lemma kStep_quarter_turn:
  assumes "previous < 4" and "phase < 4"
  shows "kStep ! previous ! phase = (case quarter_turn previous phase of None \<Rightarrow> 2 | Some t \<Rightarrow> t)"
proof -
  have "previous \<in> {0, 1, 2, 3}" "phase \<in> {0, 1, 2, 3}" using assms by auto
  then show ?thesis
    by (auto simp: kStep_def quarter_turn_def gray_index_def Let_def)
qed

text \<open>
  The quarter turns that a window of released samples makes, starting from a phase; \<open>None\<close> when
  two consecutive phases differ in both bits.
\<close>

fun turned :: "nat \<Rightarrow> (bool \<times> bool \<times> bool) list \<Rightarrow> int option" where
  "turned phase [] = Some 0"
| "turned phase ((a_high, b_high, pressed) # samples) =
     (case quarter_turn phase (phase_of a_high b_high) of
        None \<Rightarrow> None
      | Some t \<Rightarrow>
          if pressed then None
          else (case turned (phase_of a_high b_high) samples of None \<Rightarrow> None | Some u \<Rightarrow> Some (t + u)))"

fun last_phase :: "nat \<Rightarrow> (bool \<times> bool \<times> bool) list \<Rightarrow> nat" where
  "last_phase phase [] = phase"
| "last_phase phase ((a_high, b_high, pressed) # samples) = last_phase (phase_of a_high b_high) samples"

lemma last_phase_snoc [simp]: "last_phase p (xs @ [(a, b, c)]) = phase_of a b"
  by (induction p xs rule: last_phase.induct) auto

lemma turned_snoc:
  "turned p (xs @ [(a, b, c)]) =
     (case turned p xs of
        None \<Rightarrow> None
      | Some n \<Rightarrow> if c then None
          else (case quarter_turn (last_phase p xs) (phase_of a b) of None \<Rightarrow> None | Some t \<Rightarrow> Some (n + t)))"
  by (cases c; induction p xs rule: last_phase.induct; auto split: option.splits)

text \<open>
  How the history of samples explains the state: the last sample fixed the phase, and the
  progress is the exact turn of a window of released samples at its end, begun at the phase of
  the sample before it.
\<close>

definition tracks ::
    "(bool \<times> bool \<times> bool) list \<Rightarrow> int option list \<Rightarrow> quadrature_encoder \<Rightarrow> bool" where
  "tracks h events q \<longleftrightarrow>
     (case qe_phase q of
        None \<Rightarrow> h = [] \<and> qe_progress q = 0
      | Some phase \<Rightarrow> phase < 4 \<and> \<bar>qe_progress q\<bar> \<le> 3 \<and>
          (\<exists>before a b c window. h = before @ (a, b, c) # window \<and>
             phase = last_phase (phase_of a b) window \<and>
             turned (phase_of a b) window = Some (qe_progress q) \<and>
             set (drop (Suc (length before)) events) \<subseteq> {None}))"

lemma tracksI:
  assumes "h = before @ (a, b, c) # window" and "qe_phase q = Some (last_phase (phase_of a b) window)"
    and "turned (phase_of a b) window = Some (qe_progress q)" and "\<bar>qe_progress q\<bar> \<le> 3"
    and "set (drop (Suc (length before)) events) \<subseteq> {None}"
  shows "tracks h events q"
proof -
  have "last_phase (phase_of a b) window < 4"
    by (cases window rule: rev_cases) auto
  moreover have "\<exists>before a' b' c' window'. h = before @ (a', b', c') # window' \<and>
      last_phase (phase_of a b) window = last_phase (phase_of a' b') window' \<and>
      turned (phase_of a' b') window' = Some (qe_progress q) \<and>
      set (drop (Suc (length before)) events) \<subseteq> {None}"
    using assms(1,3,5) by blast
  ultimately show ?thesis using assms(2,4) by (simp add: tracks_def)
qed

text \<open>A fresh window begins at the newest sample.\<close>

lemma tracks_fresh:
  assumes "length events = length h" and "qe_phase q = Some (phase_of a b)" and "qe_progress q = 0"
  shows "tracks (h @ [(a, b, c)]) (events @ [event]) q"
  by (rule tracksI [of _ h a b c "[]"]) (use assms in simp_all)

lemma quarter_turn_values: "quarter_turn p p' = Some t \<Longrightarrow> t \<in> {0, 1, -1}"
  by (auto simp: quarter_turn_def Let_def split: if_splits)

lemma quadrature_sample_tracks:
  assumes "tracks h events q" and "length events = length h"
    and "quadrature_sample a b pressed q = (event, q')"
  shows "tracks (h @ [(a, b, pressed)]) (events @ [event]) q' \<and>
    (\<forall>d. event = Some d \<longrightarrow> d \<in> {1, -1} \<and>
      (\<exists>before a0 b0 c0 window. h @ [(a, b, pressed)] = before @ (a0, b0, c0) # window \<and>
         turned (phase_of a0 b0) window = Some (4 * d) \<and>
         set (drop (Suc (length before)) events) \<subseteq> {None}))"
proof (cases "qe_phase q")
  case None
  with assms show ?thesis
    by (auto simp: quadrature_sample_def Let_def tracks_def intro!: exI [of _ "[]"])
next
  case (Some previous)
  show ?thesis
  proof (cases "pressed \<or> qe_was_pressed q")
    case True
    with Some assms(2,3) show ?thesis
      by (auto simp: quadrature_sample_def Let_def intro!: tracks_fresh split: if_splits)
  next
    case False
    obtain before a0 b0 c0 window where h: "h = before @ (a0, b0, c0) # window"
      and previous: "previous = last_phase (phase_of a0 b0) window" "previous < 4"
      and sum: "turned (phase_of a0 b0) window = Some (qe_progress q)" "\<bar>qe_progress q\<bar> \<le> 3"
      and none: "set (drop (Suc (length before)) events) \<subseteq> {None}"
      using assms(1) Some unfolding tracks_def by auto
    let ?window = "window @ [(a, b, pressed)]"
    note step = kStep_quarter_turn [OF previous(2) phase_of_less [of a b]]
    show ?thesis
    proof (cases "quarter_turn previous (phase_of a b)")
      case None
      with Some False assms(2,3) step show ?thesis
        by (auto simp: quadrature_sample_def Let_def intro!: tracks_fresh)
    next
      case (Some t)
      have grown: "turned (phase_of a0 b0) ?window = Some (qe_progress q + t)"
        using sum(1) Some previous(1) False by (simp add: turned_snoc)
      have t: "t \<in> {0, 1, -1}" using quarter_turn_values [OF Some] .
      have split: "h @ [(a, b, pressed)] = before @ (a0, b0, c0) # ?window" using h by simp
      have later: "set (drop (Suc (length before)) (events @ [None])) \<subseteq> {None}"
        using none by (auto dest: in_set_dropD)
      consider (still) "t = 0" | (cycle) d where "d \<in> {1, -1}" "t \<noteq> 0" "qe_progress q + t = 4 * d"
        | (part) "t \<noteq> 0" "\<bar>qe_progress q + t\<bar> \<le> 3"
        using t sum(2) by fastforce
      then show ?thesis
      proof cases
        case still
        with \<open>qe_phase q = Some previous\<close> False assms(3) step Some
        have "event = None" "q' = q" by (simp_all add: quadrature_sample_def Let_def)
        moreover have "previous = phase_of a b"
          using still Some previous(2) phase_of_less [of a b]
          by (auto simp: quarter_turn_def gray_index_def Let_def less_Suc_eq numeral_eq_Suc split: if_splits)
        ultimately show ?thesis
          using later sum grown \<open>qe_phase q = Some previous\<close> still by (auto intro!: tracksI [OF split])
      next
        case cycle
        with \<open>qe_phase q = Some previous\<close> False assms(3) step Some t
        have "event = Some d" "qe_phase q' = Some (phase_of a b)" "qe_progress q' = 0"
          by (auto simp: quadrature_sample_def Let_def)
        have "tracks (h @ [(a, b, pressed)]) (events @ [event]) q'"
          by (rule tracks_fresh) fact+
        moreover have "turned (phase_of a0 b0) ?window = Some (4 * d)" using grown cycle(3) by simp
        ultimately show ?thesis using cycle(1) none split \<open>event = Some d\<close> by blast
      next
        case part
        with \<open>qe_phase q = Some previous\<close> False assms(3) step Some t
        have "event = None" "qe_phase q' = Some (phase_of a b)" "qe_progress q' = qe_progress q + t"
          by (auto simp: quadrature_sample_def Let_def split: if_splits)
        with part grown later show ?thesis
          by (auto intro!: tracksI [OF split])
      qed
    qed
  qed
qed

lemma quadrature_run_append:
  "quadrature_run q (xs @ ys) =
     (case quadrature_run q xs of (e1, q1) \<Rightarrow>
        (case quadrature_run q1 ys of (e2, q2) \<Rightarrow> (e1 @ e2, q2)))"
  by (induction q xs rule: quadrature_run.induct) (auto split: prod.splits)

lemma length_quadrature_run: "quadrature_run q xs = (events, q') \<Longrightarrow> length events = length xs"
  by (induction q xs arbitrary: events rule: quadrature_run.induct) (auto split: prod.splits)

lemma quadrature_run_tracks:
  "quadrature_run quadrature_init h = (events, q) \<Longrightarrow> tracks h events q"
proof (induction h arbitrary: events q rule: rev_induct)
  case Nil
  then show ?case by (auto simp: tracks_def quadrature_init_def)
next
  case (snoc sample h)
  obtain events0 q0 where run: "quadrature_run quadrature_init h = (events0, q0)" by fastforce
  obtain a b c where sample: "sample = (a, b, c)" by (cases sample)
  obtain event q1 where one: "quadrature_sample a b c q0 = (event, q1)" by fastforce
  with quadrature_sample_tracks [OF snoc.IH [OF run] length_quadrature_run [OF run] one]
    snoc.prems run show ?case
    by (simp add: sample quadrature_run_append)
qed

text \<open>
  No motion is invented. Polled from power-on over any history, the encoder reports a detent
  only at the end of a window of released samples, without a jump over both bits, whose quarter
  turns sum up to one whole cycle in the reported direction; and no event was reported inside
  that window before, so no turn is counted twice.
\<close>

theorem quadrature_reports_whole_cycles:
  assumes "quadrature_run quadrature_init h = (events, q)"
    and "quadrature_sample a b pressed q = (Some d, q')"
  shows "d \<in> {1, -1} \<and>
    (\<exists>before a0 b0 c0 window. h @ [(a, b, pressed)] = before @ (a0, b0, c0) # window \<and>
       turned (phase_of a0 b0) window = Some (4 * d) \<and>
       set (drop (Suc (length before)) events) \<subseteq> {None})"
  using quadrature_sample_tracks [OF quadrature_run_tracks [OF assms(1)]
    length_quadrature_run [OF assms(1)] assms(2)] by simp

text \<open>One cycle in the positive direction.\<close>

lemma sample_cycle:
  "quadrature_run quadrature_init [(False, False, False), (False, True, False), (True, True, False),
      (True, False, False)] =
    ([None, None, None, None], \<lparr>qe_phase = Some 2, qe_progress = 3, qe_was_pressed = False\<rparr>)"
  "quadrature_sample False False False \<lparr>qe_phase = Some 2, qe_progress = 3, qe_was_pressed = False\<rparr> =
    (Some 1, \<lparr>qe_phase = Some 0, qe_progress = 0, qe_was_pressed = False\<rparr>)"
  by (simp_all add: quadrature_init_def quadrature_sample_def phase_of_def kStep_def Let_def)

theorem quadrature_reports_whole_cycles_witness:
  "\<exists>before a0 b0 c0 window.
     [(False, False, False), (False, True, False), (True, True, False), (True, False, False)] @
       [(False, False, False)] = before @ (a0, b0, c0) # window \<and>
     turned (phase_of a0 b0) window = Some (4 * 1) \<and>
     set (drop (Suc (length before)) [None, None, None, None]) \<subseteq> {None :: int option}"
  by (rule quadrature_reports_whole_cycles [OF sample_cycle, THEN conjunct2])

fun detents :: "int option list \<Rightarrow> int" where
  "detents [] = 0"
| "detents (None # events) = detents events"
| "detents (Some d # events) = d + detents events"

lemma quadrature_sample_exact:
  assumes "qe_phase q = Some phase" and "phase < 4" and "\<not> qe_was_pressed q" and "\<bar>qe_progress q\<bar> \<le> 3"
    and "quarter_turn phase (phase_of a b) = Some t"
    and "quadrature_sample a b False q = (event, q')"
  shows "4 * detents [event] + qe_progress q' = qe_progress q + t \<and> qe_phase q' = Some (phase_of a b) \<and>
    \<not> qe_was_pressed q' \<and> \<bar>qe_progress q'\<bar> \<le> 3"
proof -
  have t: "t \<in> {0, 1, -1}" using quarter_turn_values [OF assms(5)] .
  have same: "t = 0 \<Longrightarrow> phase = phase_of a b"
    using assms(2,5) phase_of_less [of a b]
    by (auto simp: quarter_turn_def gray_index_def Let_def less_Suc_eq numeral_eq_Suc split: if_splits)
  show ?thesis
    using assms kStep_quarter_turn [OF assms(2) phase_of_less [of a b]] t same
    by (auto simp: quadrature_sample_def Let_def split: if_splits)
qed

text \<open>
  C24: no motion is lost either. From any state that follows a released sample, over
  a window of released samples without a jump over both bits, four times the sum of the reported detents and the progress left over are exactly the
  quarter turns made, and less than one cycle is ever left over.
\<close>

theorem quadrature_counts_exactly:
  assumes "qe_phase q = Some phase" and "phase < 4" and "\<not> qe_was_pressed q" and "\<bar>qe_progress q\<bar> \<le> 3"
    and "turned phase window = Some n" and "quadrature_run q window = (events, q')"
  shows "4 * detents events + qe_progress q' = qe_progress q + n \<and> \<bar>qe_progress q'\<bar> \<le> 3"
  using assms
proof (induction phase window arbitrary: q n events rule: turned.induct)
  case (2 phase a b pressed samples)
  obtain t u where turn: "quarter_turn phase (phase_of a b) = Some t" "\<not> pressed"
    "turned (phase_of a b) samples = Some u" "n = t + u"
    using "2.prems"(5) by (auto split: option.splits if_splits)
  obtain event q1 where one: "quadrature_sample a b False q = (event, q1)" by fastforce
  obtain rest where rest: "quadrature_run q1 samples = (rest, q')" "events = event # rest"
    using "2.prems"(6) one turn(2) by (auto split: prod.splits)
  note step = quadrature_sample_exact [OF "2.prems"(1-4) turn(1) one]
  with "2.IH" [OF turn(1,2), of q1 u rest] turn(3,4) rest phase_of_less [of a b] show ?case
    by (cases event) auto
qed simp

theorem quadrature_counts_exactly_witness:
  "4 * detents [None, None, Some 1, None] + 1 = 2 + (3 :: int)"
  using quadrature_counts_exactly
    [of "\<lparr>qe_phase = Some 3, qe_progress = 2, qe_was_pressed = False\<rparr>" 3
      "[(True, True, False), (True, False, False), (False, False, False), (False, True, False)]" 3]
  by (simp add: quadrature_sample_def phase_of_def kStep_def Let_def quarter_turn_def gray_index_def)

end
