(* ===== verification/Recurrence_Resolver.thy ===== *)
theory Recurrence_Resolver
  imports Dawn_Prelude "HOL-Library.Signed_Division"
begin

text \<open>
  The recurrence resolver, \<open>recurrence_resolver.cpp\<close>: the next instant at which a weekly local
  time is reached under a table of UTC offset transitions.

  Data is kept at its width (\<open>64 word\<close> and \<open>32 word\<close>, read with \<open>sint\<close>). The 64-bit arithmetic
  of the function bodies is done on integers, which is what the C++ computes as long as no
  intermediate value leaves the signed range; the section on 64 bits in \<open>Recurrence_Properties\<close>
  shows it for the sums that depend on the table.
\<close>

type_synonym i32 = "32 word"

section \<open>Types\<close>

datatype iso_weekday = Monday | Tuesday | Wednesday | Thursday | Friday | Saturday | Sunday

fun weekday_index :: "iso_weekday \<Rightarrow> nat" where
  "weekday_index Monday = 0"
| "weekday_index Tuesday = 1"
| "weekday_index Wednesday = 2"
| "weekday_index Thursday = 3"
| "weekday_index Friday = 4"
| "weekday_index Saturday = 5"
| "weekday_index Sunday = 6"

definition weekday_bit :: "iso_weekday \<Rightarrow> u8" where
  "weekday_bit weekday = push_bit (weekday_index weekday) 1"

record civil_date =
  dt_year :: int
  dt_month :: int
  dt_day :: int

record utc_offset_transition =
  tr_at_utc_seconds :: i64
  tr_offset_before_seconds :: i32
  tr_offset_after_seconds :: i32

record timezone_rules =
  tz_name :: string
  tz_version :: string
  tz_initial_utc_offset_seconds :: i32
  tz_transitions :: "utc_offset_transition list"

record weekly_alarm_schedule =
  ws_local_hour :: u8
  ws_local_minute :: u8
  ws_iso_weekday_mask :: u8
  ws_timezone_name :: string
  ws_timezone_rules_version :: string

datatype occurrence_resolution_status =
    OR_resolved
  | OR_no_occurrence
  | OR_invalid_schedule
  | OR_invalid_rules
  | OR_out_of_range

record resolved_occurrence =
  or_status :: occurrence_resolution_status
  or_scheduled_utc_seconds :: i64
  or_local_date :: civil_date
  or_resolved_local_hour :: u8
  or_resolved_local_minute :: u8
  or_utc_offset_seconds :: i32
  or_shifted_for_gap :: bool
  or_ambiguous_fold :: bool

definition failed_resolution :: "occurrence_resolution_status \<Rightarrow> resolved_occurrence" where
  "failed_resolution status =
     \<lparr>or_status = status, or_scheduled_utc_seconds = 0,
      or_local_date = \<lparr>dt_year = 0, dt_month = 0, dt_day = 0\<rparr>, or_resolved_local_hour = 0,
      or_resolved_local_minute = 0, or_utc_offset_seconds = 0, or_shifted_for_gap = False,
      or_ambiguous_fold = False\<rparr>"

section \<open>Calendar\<close>

definition kSecondsPerDay :: int where
  "kSecondsPerDay = 24 * 60 * 60"

definition kAllIsoWeekdays :: u8 where
  "kAllIsoWeekdays = 0x7f"

text \<open>\<open>sdiv\<close> and \<open>smod\<close> truncate towards zero, as the operators of C++ do.\<close>

definition civil_from_days :: "int \<Rightarrow> civil_date option" where
  "civil_from_days days0 =
     (let days = days0 + 719468;
          era = (if 0 \<le> days then days else days - 146096) sdiv 146097;
          day_of_era = days - era * 146097;
          year_of_era = (day_of_era - day_of_era div 1460 + day_of_era div 36524 -
                         day_of_era div 146096) div 365;
          day_of_year = day_of_era - (365 * year_of_era + year_of_era div 4 - year_of_era div 100);
          month_prime = (5 * day_of_year + 2) div 153;
          day = day_of_year - (153 * month_prime + 2) div 5 + 1;
          month = (if month_prime < 10 then month_prime + 3 else month_prime - 9);
          year = year_of_era + era * 400 + (if month \<le> 2 then 1 else 0)
      in if year < - 2147483648 \<or> 2147483647 < year then None
         else Some \<lparr>dt_year = year, dt_month = month, dt_day = day\<rparr>)"

definition floor_div :: "int \<Rightarrow> int \<Rightarrow> int" where
  "floor_div numerator denominator =
     (let quotient = numerator sdiv denominator; remainder = numerator smod denominator
      in if remainder < 0 then quotient - 1 else quotient)"

definition weekday_from_days :: "int \<Rightarrow> iso_weekday" where
  "weekday_from_days days =
     (let index0 = (days + 3) smod 7; index = (if index0 < 0 then index0 + 7 else index0)
      in [Monday, Tuesday, Wednesday, Thursday, Friday, Saturday, Sunday] ! nat index)"

definition start_of_day_seconds :: "int \<Rightarrow> int option" where
  "start_of_day_seconds day =
     (if i64_max sdiv kSecondsPerDay < day \<or> day < i64_min sdiv kSecondsPerDay then None
      else Some (day * kSecondsPerDay))"

section \<open>Offset tables\<close>

definition valid_utc_offset :: "i32 \<Rightarrow> bool" where
  "valid_utc_offset offset \<longleftrightarrow> - kSecondsPerDay \<le> sint offset \<and> sint offset \<le> kSecondsPerDay"

definition can_add :: "int \<Rightarrow> int \<Rightarrow> bool" where
  "can_add v offset \<longleftrightarrow>
     (0 \<le> offset \<and> v \<le> i64_max - offset) \<or> (offset < 0 \<and> i64_min - offset \<le> v)"

fun offset_walk :: "i32 \<Rightarrow> utc_offset_transition list \<Rightarrow> int \<Rightarrow> i32" where
  "offset_walk offset [] utc_seconds = offset"
| "offset_walk offset (transition # transitions) utc_seconds =
     (if utc_seconds < sint (tr_at_utc_seconds transition) then offset
      else offset_walk (tr_offset_after_seconds transition) transitions utc_seconds)"

definition offset_at_utc :: "timezone_rules \<Rightarrow> int \<Rightarrow> i32" where
  "offset_at_utc rules utc_seconds =
     offset_walk (tz_initial_utc_offset_seconds rules) (tz_transitions rules) utc_seconds"

fun chain_walk :: "i32 \<Rightarrow> int option \<Rightarrow> utc_offset_transition list \<Rightarrow> bool" where
  "chain_walk active_offset previous [] = True"
| "chain_walk active_offset previous (transition # transitions) =
     (if (case previous of None \<Rightarrow> False | Some p \<Rightarrow> sint (tr_at_utc_seconds transition) \<le> p) \<or>
         tr_offset_before_seconds transition \<noteq> active_offset \<or>
         \<not> valid_utc_offset (tr_offset_before_seconds transition) \<or>
         \<not> valid_utc_offset (tr_offset_after_seconds transition) \<or>
         \<not> can_add (sint (tr_at_utc_seconds transition)) (sint (tr_offset_before_seconds transition)) \<or>
         \<not> can_add (sint (tr_at_utc_seconds transition)) (sint (tr_offset_after_seconds transition)) \<or>
         tr_offset_before_seconds transition = tr_offset_after_seconds transition
      then False
      else chain_walk (tr_offset_after_seconds transition)
             (Some (sint (tr_at_utc_seconds transition))) transitions)"

definition has_valid_transition_chain :: "timezone_rules \<Rightarrow> bool" where
  "has_valid_transition_chain rules \<longleftrightarrow>
     valid_utc_offset (tz_initial_utc_offset_seconds rules) \<and>
     chain_walk (tz_initial_utc_offset_seconds rules) None (tz_transitions rules)"

section \<open>From a local reading to an instant\<close>

record local_mapping =
  lm_utc_seconds :: int
  lm_resolved_local_seconds :: int
  lm_offset_seconds :: i32
  lm_shifted_for_gap :: bool
  lm_ambiguous_fold :: bool

fun find_gap :: "utc_offset_transition list \<Rightarrow> int \<Rightarrow> local_mapping option" where
  "find_gap [] local_seconds = None"
| "find_gap (transition # transitions) local_seconds =
     (if sint (tr_offset_after_seconds transition) \<le> sint (tr_offset_before_seconds transition)
      then find_gap transitions local_seconds
      else
        let gap_start = sint (tr_at_utc_seconds transition) + sint (tr_offset_before_seconds transition);
            gap_end = sint (tr_at_utc_seconds transition) + sint (tr_offset_after_seconds transition)
        in if gap_start \<le> local_seconds \<and> local_seconds < gap_end
           then Some \<lparr>lm_utc_seconds = sint (tr_at_utc_seconds transition),
                      lm_resolved_local_seconds = gap_end,
                      lm_offset_seconds = tr_offset_after_seconds transition,
                      lm_shifted_for_gap = True, lm_ambiguous_fold = False\<rparr>
           else find_gap transitions local_seconds)"

definition add_offset :: "i32 list \<Rightarrow> i32 \<Rightarrow> i32 list" where
  "add_offset offsets offset =
     (if List.find (\<lambda>known. known = offset) offsets = None then offsets @ [offset] else offsets)"

definition rule_offsets :: "timezone_rules \<Rightarrow> i32 list" where
  "rule_offsets rules =
     foldl add_offset [] (tz_initial_utc_offset_seconds rules #
       map tr_offset_after_seconds (tz_transitions rules))"

text \<open>The loop over the offsets: the earliest mapping so far and the number of mappings.\<close>

fun scan_offsets ::
    "timezone_rules \<Rightarrow> int \<Rightarrow> i32 list \<Rightarrow> local_mapping option \<Rightarrow> nat \<Rightarrow>
     local_mapping option \<times> nat" where
  "scan_offsets rules local_seconds [] earliest n = (earliest, n)"
| "scan_offsets rules local_seconds (offset # offsets) earliest n =
     (let inverse_offset = - sint offset in
      if \<not> can_add local_seconds inverse_offset
      then scan_offsets rules local_seconds offsets earliest n
      else
        let candidate_utc = local_seconds + inverse_offset in
        if offset_at_utc rules candidate_utc \<noteq> offset
        then scan_offsets rules local_seconds offsets earliest n
        else scan_offsets rules local_seconds offsets
               (if (case earliest of None \<Rightarrow> True | Some m \<Rightarrow> candidate_utc < lm_utc_seconds m)
                then Some \<lparr>lm_utc_seconds = candidate_utc,
                           lm_resolved_local_seconds = local_seconds,
                           lm_offset_seconds = offset, lm_shifted_for_gap = False,
                           lm_ambiguous_fold = False\<rparr>
                else earliest)
               (Suc n))"

definition map_local :: "timezone_rules \<Rightarrow> int \<Rightarrow> local_mapping option" where
  "map_local rules local_seconds =
     (case find_gap (tz_transitions rules) local_seconds of
        Some mapping \<Rightarrow> Some mapping
      | None \<Rightarrow>
          (case scan_offsets rules local_seconds (rule_offsets rules) None 0 of
             (earliest, valid_mapping_count) \<Rightarrow>
               map_option (\<lambda>m. m\<lparr>lm_ambiguous_fold := 1 < valid_mapping_count\<rparr>) earliest))"

section \<open>The next occurrence\<close>

definition seconds_in_requested_day :: "weekly_alarm_schedule \<Rightarrow> int" where
  "seconds_in_requested_day schedule =
     uint (ws_local_hour schedule) * 60 * 60 + uint (ws_local_minute schedule) * 60"

text \<open>The loop over the fifteen days from the anchor on.\<close>

fun resolve_days ::
    "weekly_alarm_schedule \<Rightarrow> timezone_rules \<Rightarrow> int \<Rightarrow> int \<Rightarrow> int list \<Rightarrow> resolved_occurrence" where
  "resolve_days schedule rules after_utc anchor_day [] = failed_resolution OR_no_occurrence"
| "resolve_days schedule rules after_utc anchor_day (day_delta # deltas) =
     (let candidate_day = anchor_day + day_delta in
      if ws_iso_weekday_mask schedule AND weekday_bit (weekday_from_days candidate_day) = 0
      then resolve_days schedule rules after_utc anchor_day deltas
      else case start_of_day_seconds candidate_day of
        None \<Rightarrow> failed_resolution OR_out_of_range
      | Some day_start \<Rightarrow>
          if i64_max - seconds_in_requested_day schedule < day_start
          then failed_resolution OR_out_of_range
          else
            let local_seconds = day_start + seconds_in_requested_day schedule in
            (case map_local rules local_seconds of
               None \<Rightarrow> resolve_days schedule rules after_utc anchor_day deltas
             | Some mapping \<Rightarrow>
                if lm_utc_seconds mapping \<le> after_utc
                then resolve_days schedule rules after_utc anchor_day deltas
                else
                  let resolved_day = floor_div (lm_resolved_local_seconds mapping) kSecondsPerDay in
                  if lm_shifted_for_gap mapping \<and> resolved_day \<noteq> candidate_day
                  then resolve_days schedule rules after_utc anchor_day deltas
                  else
                    let seconds_in_day =
                          lm_resolved_local_seconds mapping - resolved_day * kSecondsPerDay
                    in case civil_from_days candidate_day of
                         None \<Rightarrow> failed_resolution OR_out_of_range
                       | Some local_date \<Rightarrow>
                           \<lparr>or_status = OR_resolved,
                            or_scheduled_utc_seconds = word_of_int (lm_utc_seconds mapping),
                            or_local_date = local_date,
                            or_resolved_local_hour = word_of_int (seconds_in_day sdiv (60 * 60)),
                            or_resolved_local_minute = word_of_int ((seconds_in_day sdiv 60) smod 60),
                            or_utc_offset_seconds = lm_offset_seconds mapping,
                            or_shifted_for_gap = lm_shifted_for_gap mapping,
                            or_ambiguous_fold = lm_ambiguous_fold mapping\<rparr>))"

definition resolve_next_occurrence ::
    "weekly_alarm_schedule \<Rightarrow> timezone_rules \<Rightarrow> i64 \<Rightarrow> resolved_occurrence" where
  "resolve_next_occurrence schedule rules after_utc_seconds =
     (let after_utc = sint after_utc_seconds in
      if 23 < ws_local_hour schedule \<or> 59 < ws_local_minute schedule \<or>
         ws_iso_weekday_mask schedule = 0 \<or>
         ws_iso_weekday_mask schedule AND NOT kAllIsoWeekdays \<noteq> 0
      then failed_resolution OR_invalid_schedule
      else if ws_timezone_name schedule = [] \<or> ws_timezone_rules_version schedule = [] \<or>
         tz_name rules = [] \<or> tz_version rules = [] \<or>
         ws_timezone_name schedule \<noteq> tz_name rules \<or>
         ws_timezone_rules_version schedule \<noteq> tz_version rules \<or>
         \<not> has_valid_transition_chain rules
      then failed_resolution OR_invalid_rules
      else if after_utc = i64_max then failed_resolution OR_out_of_range
      else
        let anchor_offset = sint (offset_at_utc rules after_utc) in
        if (0 < anchor_offset \<and> i64_max - anchor_offset < after_utc) \<or>
           (anchor_offset < 0 \<and> after_utc < i64_min - anchor_offset)
        then failed_resolution OR_out_of_range
        else
          let anchor_local_seconds = after_utc + anchor_offset;
              anchor_day = floor_div anchor_local_seconds kSecondsPerDay
          in resolve_days schedule rules after_utc anchor_day [0..14])"

end
