(* ===== verification/Protocol_Service.thy ===== *)
theory Protocol_Service
  imports Dawn_Prelude
begin

text \<open>
  The envelope preflight of the protocol, \<open>protocol_service.cpp\<close>: the syntactic checks on an
  envelope, the UTC instant syntax, and the bounded duplicate detector.
\<close>

section \<open>Types\<close>

definition kProtocolEnvelopeMaximumBytes :: nat where
  "kProtocolEnvelopeMaximumBytes = 64 * 1024"

definition kProtocolMessageIdMaximumBytes :: nat where
  "kProtocolMessageIdMaximumBytes = 128"

record protocol_envelope =
  pe_protocol :: string
  pe_message_id :: string
  pe_sent_at_utc :: string
  pe_type :: string
  pe_expected_revision :: "u64 option"
  pe_serialized_size_bytes :: nat

datatype protocol_validation_code =
    PV_accepted
  | PV_invalid_protocol
  | PV_unknown_type
  | PV_invalid_message_id
  | PV_duplicate_message_id
  | PV_invalid_sent_at
  | PV_expected_revision_required
  | PV_envelope_too_large

record protocol_validation_result =
  pv_code :: protocol_validation_code
  pv_accepted :: bool
  pv_retryable :: bool

text \<open>The unordered set of the detector is a set of strings; only membership is asked of it.\<close>

record replay_window =
  rw_capacity :: nat
  rw_order :: "string list"
  rw_set :: "string set"

definition new_replay_window :: "nat \<Rightarrow> replay_window" where
  "new_replay_window capacity = \<lparr>rw_capacity = capacity, rw_order = [], rw_set = {}\<rparr>"

section \<open>Syntax of the fields\<close>

definition isdigit :: "char \<Rightarrow> bool" where
  "isdigit c \<longleftrightarrow> (of_char c :: nat) \<in> {48..57}"

definition isalnum :: "char \<Rightarrow> bool" where
  "isalnum c \<longleftrightarrow> isdigit c \<or> (of_char c :: nat) \<in> {65..90} \<or> (of_char c :: nat) \<in> {97..122}"

definition is_valid_message_id_char :: "char \<Rightarrow> bool" where
  "is_valid_message_id_char c \<longleftrightarrow>
     isalnum c \<or> c = CHR ''-'' \<or> c = CHR ''_'' \<or> c = CHR '':'' \<or> c = CHR ''.''"

definition is_valid_message_id :: "string \<Rightarrow> bool" where
  "is_valid_message_id message_id \<longleftrightarrow>
     message_id \<noteq> [] \<and> length message_id \<le> kProtocolMessageIdMaximumBytes \<and>
     list_all is_valid_message_id_char message_id"

definition all_digits :: "string \<Rightarrow> bool" where
  "all_digits s \<longleftrightarrow> s \<noteq> [] \<and> list_all isdigit s"

definition digits_to_int :: "string \<Rightarrow> int" where
  "digits_to_int digits = foldl (\<lambda>n c. n * 10 + (of_char c - 48)) 0 digits"

definition kKnownTypes :: "string list" where
  "kKnownTypes =
     [''device.status.get'', ''time.configure'', ''schedule.preview'',
      ''schedule.apply'', ''schedule.get'', ''diagnostics.get'',
      ''backup.export'', ''factory.reset'', ''event.syncReceipt'',
      ''event.alarmState'', ''error.response'']"

definition is_known_request_type :: "string \<Rightarrow> bool" where
  "is_known_request_type type \<longleftrightarrow> find (\<lambda>known. known = type) kKnownTypes \<noteq> None"

definition requires_expected_revision :: "string \<Rightarrow> bool" where
  "requires_expected_revision type \<longleftrightarrow> type = ''schedule.preview'' \<or> type = ''schedule.apply''"

text \<open>\<open>substr(position, n)\<close>.\<close>

definition substr :: "nat \<Rightarrow> nat \<Rightarrow> string \<Rightarrow> string" where
  "substr position n s = take n (drop position s)"

definition days_per_month :: "nat list" where
  "days_per_month = [31, 28, 31, 30, 31, 30, 31, 31, 30, 31, 30, 31]"

definition leap_year :: "int \<Rightarrow> bool" where
  "leap_year year \<longleftrightarrow> year mod 4 = 0 \<and> (year mod 100 \<noteq> 0 \<or> year mod 400 = 0)"

definition is_valid_protocol_utc_instant :: "string \<Rightarrow> bool" where
  "is_valid_protocol_utc_instant v =
     (if length v \<noteq> 20 \<or> v ! 4 \<noteq> CHR ''-'' \<or> v ! 7 \<noteq> CHR ''-'' \<or> v ! 10 \<noteq> CHR ''T'' \<or>
         v ! 13 \<noteq> CHR '':'' \<or> v ! 16 \<noteq> CHR '':'' \<or> v ! 19 \<noteq> CHR ''Z'' \<or>
         \<not> all_digits (substr 0 4 v) \<or> \<not> all_digits (substr 5 2 v) \<or> \<not> all_digits (substr 8 2 v) \<or>
         \<not> all_digits (substr 11 2 v) \<or> \<not> all_digits (substr 14 2 v) \<or> \<not> all_digits (substr 17 2 v)
      then False
      else
        let year = digits_to_int (substr 0 4 v); month = digits_to_int (substr 5 2 v);
            day = digits_to_int (substr 8 2 v); hour = digits_to_int (substr 11 2 v);
            minute = digits_to_int (substr 14 2 v); seconds = digits_to_int (substr 17 2 v)
        in if year = 0 \<or> month < 1 \<or> 12 < month \<or> 23 < hour \<or> 59 < minute \<or> 59 < seconds
           then False
           else 1 \<le> day \<and>
             day \<le> int (days_per_month ! nat (month - 1)) + (if month = 2 \<and> leap_year year then 1 else 0))"

section \<open>The duplicate detector\<close>

definition replay_contains :: "replay_window \<Rightarrow> string \<Rightarrow> bool" where
  "replay_contains w message_id \<longleftrightarrow> message_id \<in> rw_set w"

text \<open>The eviction loop: while the queue is longer than the capacity, the front leaves both.\<close>

fun evict :: "nat \<Rightarrow> string list \<Rightarrow> string set \<Rightarrow> string list \<times> string set" where
  "evict capacity [] ids = ([], ids)"
| "evict capacity (front # order) ids =
     (if capacity < length (front # order) then evict capacity order (ids - {front})
      else (front # order, ids))"

definition replay_remember :: "string \<Rightarrow> replay_window \<Rightarrow> replay_window" where
  "replay_remember message_id w =
     (if rw_capacity w = 0 then w
      else if replay_contains w message_id then w
      else case evict (rw_capacity w) (rw_order w @ [message_id]) (insert message_id (rw_set w)) of
             (order, ids) \<Rightarrow> w\<lparr>rw_order := order, rw_set := ids\<rparr>)"

section \<open>The preflight\<close>

definition refuse_envelope :: "protocol_validation_code \<Rightarrow> bool \<Rightarrow> protocol_validation_result" where
  "refuse_envelope code retryable =
     \<lparr>pv_code = code, pv_accepted = False, pv_retryable = retryable\<rparr>"

text \<open>\<open>None\<close> is the null pointer for the window.\<close>

definition validate_protocol_envelope ::
    "protocol_envelope \<Rightarrow> replay_window option \<Rightarrow> bool \<Rightarrow>
     protocol_validation_result \<times> replay_window option" where
  "validate_protocol_envelope envelope window remember_accepted =
     (if pe_protocol envelope \<noteq> ''dawn-dock/1''
      then (refuse_envelope PV_invalid_protocol False, window)
      else if \<not> is_known_request_type (pe_type envelope)
      then (refuse_envelope PV_unknown_type False, window)
      else if \<not> is_valid_message_id (pe_message_id envelope)
      then (refuse_envelope PV_invalid_message_id False, window)
      else if (case window of None \<Rightarrow> False | Some w \<Rightarrow> replay_contains w (pe_message_id envelope))
      then (refuse_envelope PV_duplicate_message_id True, window)
      else if \<not> is_valid_protocol_utc_instant (pe_sent_at_utc envelope)
      then (refuse_envelope PV_invalid_sent_at False, window)
      else if requires_expected_revision (pe_type envelope) \<and> pe_expected_revision envelope = None
      then (refuse_envelope PV_expected_revision_required True, window)
      else if kProtocolEnvelopeMaximumBytes < pe_serialized_size_bytes envelope
      then (refuse_envelope PV_envelope_too_large False, window)
      else (\<lparr>pv_code = PV_accepted, pv_accepted = True, pv_retryable = False\<rparr>,
            if remember_accepted
            then map_option (replay_remember (pe_message_id envelope)) window else window))"

fun protocol_code_string :: "protocol_validation_code \<Rightarrow> string" where
  "protocol_code_string PV_accepted = ''accepted''"
| "protocol_code_string PV_invalid_protocol = ''invalid_protocol''"
| "protocol_code_string PV_unknown_type = ''unknown_type''"
| "protocol_code_string PV_invalid_message_id = ''invalid_message_id''"
| "protocol_code_string PV_duplicate_message_id = ''duplicate_message_id''"
| "protocol_code_string PV_invalid_sent_at = ''invalid_sent_at''"
| "protocol_code_string PV_expected_revision_required = ''expected_revision_required''"
| "protocol_code_string PV_envelope_too_large = ''envelope_too_large''"

section \<open>The detector as a bounded queue\<close>

text \<open>
  The contract of a duplicate detector: what a client that only asks and remembers may rely on.
  \<open>keeps w\<close> is the list of the identifiers that the detector knows, oldest first.
\<close>

locale duplicate_detector =
  fixes known :: "'w \<Rightarrow> string \<Rightarrow> bool"
    and note_id :: "string \<Rightarrow> 'w \<Rightarrow> 'w"
    and ok :: "'w \<Rightarrow> bool"
    and bound :: "'w \<Rightarrow> nat"
    and keeps :: "'w \<Rightarrow> string list"
  assumes known_keeps: "ok w \<Longrightarrow> known w x \<longleftrightarrow> x \<in> set (keeps w)"
    and note_ok: "ok w \<Longrightarrow> ok (note_id x w)"
    and note_bound: "ok w \<Longrightarrow> bound (note_id x w) = bound w"
    and keeps_bound: "ok w \<Longrightarrow> length (keeps w) \<le> bound w"
    and note_keeps: "ok w \<Longrightarrow> keeps (note_id x w) =
      (if bound w = 0 \<or> x \<in> set (keeps w) then keeps w
       else let q = keeps w @ [x] in drop (length q - bound w) q)"
begin

lemma fold_ok: "ok w \<Longrightarrow> ok (fold note_id xs w)"
  by (induction xs arbitrary: w) (auto simp: note_ok)

lemma fold_bound: "ok w \<Longrightarrow> bound (fold note_id xs w) = bound w"
  by (induction xs arbitrary: w) (auto simp: note_ok note_bound)

lemma note_set: "ok w \<Longrightarrow> set (keeps (note_id x w)) \<subseteq> insert x (set (keeps w))"
  by (auto simp: note_keeps Let_def dest: in_set_dropD split: if_splits)

lemma fold_known:
  assumes "ok w" and "known (fold note_id xs w) x"
  shows "x \<in> set xs \<or> known w x"
  using assms
proof (induction xs arbitrary: w)
  case (Cons y xs)
  then have "x \<in> set xs \<or> known (note_id y w) x" by (simp add: note_ok)
  with Cons.prems(1) note_set [of w y] note_ok [of w y] show ?case
    by (auto simp: known_keeps)
qed simp

text \<open>An identifier is forgotten only after as many fresh ones as the detector has room for.\<close>

lemma fold_keeps_suffix:
  assumes "ok w" and "keeps w = before @ x # after" and "length after + length xs < bound w"
  shows "known (fold note_id xs w) x"
  using assms
proof (induction xs arbitrary: w before "after")
  case Nil
  then show ?case by (simp add: known_keeps)
next
  case (Cons y xs)
  show ?case
  proof (cases "y \<in> set (keeps w)")
    case True
    with Cons.IH [of "note_id y w" before "after"] Cons.prems show ?thesis
      by (simp add: note_ok note_bound note_keeps)
  next
    case False
    let ?q = "before @ x # after @ [y]"
    have "length ?q - bound w \<le> length before" using Cons.prems(3) by simp
    then have "keeps (note_id y w) = drop (length ?q - bound w) before @ x # (after @ [y])"
      using False Cons.prems by (simp add: note_keeps Let_def)
    with Cons.IH [of "note_id y w" _ "after @ [y]"] Cons.prems show ?thesis
      by (simp add: note_ok note_bound)
  qed
qed

lemma note_known: "ok w \<Longrightarrow> bound w \<noteq> 0 \<Longrightarrow> known (note_id x w) x"
  using note_ok [of w x]
  by (cases "bound w") (auto simp: known_keeps note_keeps Let_def Suc_diff_le)

text \<open>So a noted identifier is known through any \<open>bound - 1\<close> further notes.\<close>

lemma note_then_fold_known:
  assumes "ok w" and "bound w \<noteq> 0" and "\<not> known w x" and "length xs < bound w"
  shows "known (fold note_id xs (note_id x w)) x"
proof -
  have "keeps (note_id x w) = drop (Suc (length (keeps w)) - bound w) (keeps w) @ [x]"
    using assms(1-3) by (cases "bound w") (auto simp: known_keeps note_keeps Let_def)
  with fold_keeps_suffix [of "note_id x w" _ x "[]" xs] assms show ?thesis
    by (simp add: note_ok note_bound)
qed

end

text \<open>The representation: the set mirrors the queue, which has no duplicates and fits.\<close>

definition replay_ok :: "replay_window \<Rightarrow> bool" where
  "replay_ok w \<longleftrightarrow>
     rw_set w = set (rw_order w) \<and> distinct (rw_order w) \<and> length (rw_order w) \<le> rw_capacity w"

lemma evict_queue:
  assumes "distinct order" and "ids = set order"
  shows "evict capacity order ids =
    (drop (length order - capacity) order, set (drop (length order - capacity) order))"
  using assms
proof (induction capacity order ids rule: evict.induct)
  case (2 capacity front order ids)
  show ?case
  proof (cases "capacity < length (front # order)")
    case True
    then have "evict capacity (front # order) ids = evict capacity order (ids - {front})" by simp
    also have "\<dots> = (drop (length order - capacity) order, set (drop (length order - capacity) order))"
      by (rule "2.IH" [OF True]) (use "2.prems" in auto)
    finally show ?thesis using True by (simp add: Suc_diff_le)
  next
    case False
    with "2.prems" show ?thesis by simp
  qed
qed simp

lemma replay_remember_queue:
  assumes "replay_ok w"
  shows "replay_ok (replay_remember x w) \<and> rw_capacity (replay_remember x w) = rw_capacity w \<and>
    rw_order (replay_remember x w) =
      (if rw_capacity w = 0 \<or> x \<in> set (rw_order w) then rw_order w
       else let q = rw_order w @ [x] in drop (length q - rw_capacity w) q)"
proof (cases "rw_capacity w = 0 \<or> replay_contains w x")
  case True
  then have "replay_remember x w = w" by (auto simp: replay_remember_def)
  with True assms show ?thesis by (auto simp only: replay_contains_def replay_ok_def if_True)
next
  case False
  let ?q = "rw_order w @ [x]"
  let ?kept = "drop (length ?q - rw_capacity w) ?q"
  have fresh: "x \<notin> set (rw_order w)" "distinct ?q" "insert x (rw_set w) = set ?q"
    using assms False by (simp_all add: replay_ok_def replay_contains_def)
  have "replay_remember x w = w\<lparr>rw_order := ?kept, rw_set := set ?kept\<rparr>"
    using False evict_queue [OF fresh(2) refl, of "rw_capacity w"]
    by (simp only: replay_remember_def fresh(3) if_False de_Morgan_disj prod.case simp_thms)
  moreover have "distinct ?kept" using fresh(2) by (rule distinct_drop)
  moreover have "length ?kept \<le> rw_capacity w" by simp
  ultimately show ?thesis using False fresh(1) by (simp add: replay_ok_def Let_def)
qed

interpretation replay: duplicate_detector replay_contains replay_remember replay_ok rw_capacity rw_order
proof
  fix w x
  assume ok: "replay_ok w"
  then show "replay_contains w x \<longleftrightarrow> x \<in> set (rw_order w)" "length (rw_order w) \<le> rw_capacity w"
    by (simp_all add: replay_contains_def replay_ok_def)
  from replay_remember_queue [OF ok, of x]
  show "replay_ok (replay_remember x w)" "rw_capacity (replay_remember x w) = rw_capacity w"
    "rw_order (replay_remember x w) = (if rw_capacity w = 0 \<or> x \<in> set (rw_order w) then rw_order w
       else let q = rw_order w @ [x] in drop (length q - rw_capacity w) q)"
    by blast+
qed

lemma replay_ok_new: "replay_ok (new_replay_window capacity)"
  by (simp add: replay_ok_def new_replay_window_def)

section \<open>Properties\<close>

text \<open>
  The preflight accepts an envelope exactly when it satisfies every documented condition,
  it marks a refusal as retryable exactly when the identifier was seen or the revision is
  missing, and it changes the window only for an accepted envelope, on request, by remembering
  its identifier.
\<close>

theorem envelope_accepted_iff:
  "case validate_protocol_envelope envelope window remember_accepted of (r, window') \<Rightarrow>
     (pv_accepted r \<longleftrightarrow>
        pe_protocol envelope = ''dawn-dock/1'' \<and> pe_type envelope \<in> set kKnownTypes \<and>
        is_valid_message_id (pe_message_id envelope) \<and>
        \<not> (\<exists>w. window = Some w \<and> replay_contains w (pe_message_id envelope)) \<and>
        is_valid_protocol_utc_instant (pe_sent_at_utc envelope) \<and>
        \<not> (requires_expected_revision (pe_type envelope) \<and> pe_expected_revision envelope = None) \<and>
        pe_serialized_size_bytes envelope \<le> 65536) \<and>
     (pv_accepted r \<longleftrightarrow> pv_code r = PV_accepted) \<and>
     (pv_retryable r \<longleftrightarrow> pv_code r \<in> {PV_duplicate_message_id, PV_expected_revision_required}) \<and>
     window' = (if pv_accepted r \<and> remember_accepted
                then map_option (replay_remember (pe_message_id envelope)) window else window)"
  by (auto simp: validate_protocol_envelope_def refuse_envelope_def is_known_request_type_def
      kProtocolEnvelopeMaximumBytes_def find_None_iff split: option.splits)

text \<open>
  C35: the duplicate detector is bounded and exact. After any sequence of remembered identifiers
  it holds at most its capacity, reports only identifiers that were remembered, and still
  reports a fresh identifier after any further ones fewer than its capacity.
\<close>

theorem replay_window_detects:
  assumes "w = fold replay_remember earlier (new_replay_window capacity)"
    and "w' = fold replay_remember later (replay_remember x w)"
  shows "length (rw_order w') \<le> capacity \<and> rw_set w' = set (rw_order w') \<and>
    (\<forall>y. replay_contains w' y \<longrightarrow> y \<in> set (earlier @ x # later)) \<and>
    (capacity \<noteq> 0 \<and> \<not> replay_contains w x \<and> length later < capacity \<longrightarrow> replay_contains w' x)"
proof -
  have ok: "replay_ok w" "rw_capacity w = capacity"
    using replay.fold_ok [OF replay_ok_new] replay.fold_bound [OF replay_ok_new]
    by (simp_all add: assms(1)) (simp add: new_replay_window_def)
  then have ok': "replay_ok w'" "rw_capacity w' = capacity"
    using replay.note_ok replay.fold_ok replay.fold_bound replay.note_bound by (simp_all add: assms(2))
  have "y \<in> set (earlier @ x # later)" if "replay_contains w' y" for y
    using replay.fold_known [of w "x # later" y] that ok(1)
      replay.fold_known [OF replay_ok_new, of earlier capacity y]
    by (auto simp: assms replay_contains_def new_replay_window_def)
  moreover have "replay_contains w' x"
    if "capacity \<noteq> 0 \<and> \<not> replay_contains w x \<and> length later < capacity"
    using replay.note_then_fold_known [of w x later] that ok by (simp add: assms(2))
  ultimately show ?thesis using ok' by (auto simp: replay_ok_def)
qed

theorem replay_window_detects_witness:
  "replay_contains (fold replay_remember [''c'', ''d''] (replay_remember ''b''
     (fold replay_remember [''a''] (new_replay_window 3)))) ''b''"
  by (rule replay_window_detects [OF refl refl, THEN conjunct2, THEN conjunct2, THEN conjunct2, THEN mp])
    (simp add: replay_contains_def replay_remember_def new_replay_window_def)

end
