(* ===== verification/Civil_Calendar.thy ===== *)
theory Civil_Calendar
  imports Recurrence_Resolver Protocol_Service
begin

text \<open>
  The calendar arithmetic of the firmware against the Gregorian calendar: the resolver's
  \<open>civil_from_days\<close> is the inverse of counting days, the weekday follows the days, and the
  protocol's check of a UTC instant accepts exactly the dates that the resolver can produce.
\<close>

section \<open>Truncating division\<close>

lemma sdiv_nonneg: "0 \<le> n \<Longrightarrow> 0 < d \<Longrightarrow> n sdiv d = n div (d :: int)"
  by (cases "n = 0") (simp_all add: signed_divide_int_def)

lemma sdiv_neg: "n < 0 \<Longrightarrow> 0 < d \<Longrightarrow> n sdiv d = - ((- n) div (d :: int))"
  by (simp add: signed_divide_int_def)

lemma div_unique_int: "n = d * q + r \<Longrightarrow> 0 \<le> r \<Longrightarrow> r < d \<Longrightarrow> n div d = (q :: int)"
  by (rule int_div_pos_eq [of _ _ _ r]) (simp_all add: mult.commute)

lemma ceiling_div:
  fixes d n :: int
  assumes "0 < d"
  shows "- ((d - 1 - n) div d) = n div d"
proof -
  have n: "n = d * (n div d) + n mod d" "0 \<le> n mod d" "n mod d < d" using assms by simp_all
  have "(d - 1 - n) div d = - (n div d)"
  proof (rule div_unique_int)
    show "d - 1 - n = d * - (n div d) + (d - 1 - n mod d)"
      using n(1) unfolding mult_minus_right by linarith
  qed (use n in linarith)+
  then show ?thesis by simp
qed

lemma floor_div_eq:
  assumes "0 < d"
  shows "floor_div n d = n div d"
proof -
  have mod: "n smod d = n - (n sdiv d) * d"
    using sdiv_mult_smod_eq [of n d] by simp
  show ?thesis
  proof (cases "n < 0")
  case True
  let ?q = "(- n) div d"
  have qr: "- n = d * ?q + (- n) mod d" "0 \<le> (- n) mod d" "(- n) mod d < d"
    using assms by simp_all
  show ?thesis
  proof (cases "(- n) mod d = 0")
    case zero: True
    have "n div d = - ?q" by (rule div_unique_int [where r = 0]) (use qr zero assms in simp_all)
    with True assms zero qr(1) show ?thesis
      by (simp add: floor_div_def mod sdiv_neg mult.commute)
  next
    case False
    have "n div d = - ?q - 1"
      by (rule div_unique_int [where r = "d - (- n) mod d"])
        (use qr False in \<open>simp_all add: algebra_simps\<close>)
    moreover have "n smod d = n + d * ?q" using True assms by (simp add: mod sdiv_neg mult.commute)
    then have "n smod d < 0" using qr False by linarith
    ultimately show ?thesis using True assms by (simp add: floor_div_def sdiv_neg)
  qed
next
  case False
  then show ?thesis using assms
    by (simp add: floor_div_def mod sdiv_nonneg minus_div_mult_eq_mod not_less Let_def)
  qed
qed

section \<open>March years\<close>

text \<open>
  The code counts in years that begin with March. \<open>march_start y\<close> is the day, counted from
  0000-03-01, on which the March year \<open>y\<close> begins.
\<close>

definition march_start :: "int \<Rightarrow> int" where
  "march_start y = 365 * y + y div 4 - y div 100 + y div 400"

lemma march_year_length:
  "march_start (y + 1) - march_start y = (if leap_year (y + 1) then 366 else 365)"
proof -
  have step: "(y + 1) div k - y div k = (if (y + 1) mod k = 0 then 1 else 0)" if "1 < k" for k
  proof -
    have y: "y = k * (y div k) + y mod k" "0 \<le> y mod k" "y mod k < k" using that by simp_all
    have "(y + 1) div k = y div k + (if y mod k = k - 1 then 1 else 0)"
    proof (cases "y mod k = k - 1")
      case True
      have "(y + 1) div k = y div k + 1"
        by (rule div_unique_int [where r = 0]) (use y(1) True that in \<open>simp_all add: distrib_left\<close>)
      with True show ?thesis by simp
    next
      case False
      have "(y + 1) div k = y div k"
        by (rule div_unique_int [where r = "y mod k + 1"]) (use y False in linarith)+
      with False show ?thesis by simp
    qed
    moreover have "(y + 1) mod k = (y mod k + 1) mod k" by (simp add: mod_simps)
    then have "(y + 1) mod k = 0 \<longleftrightarrow> y mod k = k - 1"
      using that y(2,3) zdvd_imp_le [of k "y mod k + 1"]
      by (cases "y mod k = k - 1") (auto simp: mod_pos_pos_trivial)
    ultimately show ?thesis by simp
  qed
  have imp: "(y + 1) mod 400 = 0 \<Longrightarrow> (y + 1) mod 100 = 0" "(y + 1) mod 100 = 0 \<Longrightarrow> (y + 1) mod 4 = 0"
    using dvd_trans [of 100 400 "y + 1"] dvd_trans [of 4 100 "y + 1"] by (simp_all add: mod_eq_0_iff_dvd)
  have steps: "(y + 1) div 4 - y div 4 = (if (y + 1) mod 4 = 0 then 1 else 0)"
    "(y + 1) div 100 - y div 100 = (if (y + 1) mod 100 = 0 then 1 else 0)"
    "(y + 1) div 400 - y div 400 = (if (y + 1) mod 400 = 0 then 1 else 0)"
    by (rule step, simp)+
  have "march_start (y + 1) - march_start y =
      365 + ((y + 1) div 4 - y div 4) - ((y + 1) div 100 - y div 100) + ((y + 1) div 400 - y div 400)"
    by (simp add: march_start_def)
  also have "\<dots> = (if leap_year (y + 1) then 366 else 365)"
  proof -
    have cases: "(P \<Longrightarrow> Q) \<Longrightarrow> (Q \<Longrightarrow> R) \<Longrightarrow>
        365 + (if R then 1 else 0) - (if Q then 1 else 0) + (if P then 1 else 0) =
        (if R \<and> (\<not> Q \<or> P) then 366 else 365 :: int)" for P Q R
      by (cases P; cases Q; cases R; simp)
    show ?thesis unfolding steps leap_year_def by (rule cases [OF imp])
  qed
  finally show ?thesis .
qed

lemma march_start_strict: "y < y' \<Longrightarrow> march_start y < march_start y'"
proof (induction y' rule: int_gr_induct)
  case base
  then show ?case using march_year_length [of y] by (simp split: if_splits)
next
  case (step z)
  then show ?case using march_year_length [of z] by (simp split: if_splits)
qed

lemma march_year_unique:
  assumes "march_start y \<le> d" "d < march_start (y + 1)" "march_start y' \<le> d" "d < march_start (y' + 1)"
  shows "y = y'"
proof (rule ccontr)
  assume "y \<noteq> y'"
  then consider "y + 1 = y' \<or> y + 1 < y'" | "y' + 1 = y \<or> y' + 1 < y" by linarith
  then show False
  proof cases
    case 1
    with march_start_strict [of "y + 1" y'] assms show False by auto
  next
    case 2
    with march_start_strict [of "y' + 1" y] assms show False by auto
  qed
qed

text \<open>
  The year within an era of 400 years. The day is split the way the Gregorian cycle is nested:
  centuries, four-year cycles, years.
\<close>

lemma year_of_era:
  fixes doe :: int
  assumes "0 \<le> doe" "doe < 146097"
  defines "y \<equiv> (doe - doe div 1460 + doe div 36524 - doe div 146096) div 365"
  shows "0 \<le> y \<and> y < 400 \<and> 365 * y + y div 4 - y div 100 \<le> doe \<and>
    doe < 365 * (y + 1) + (y + 1) div 4 - (y + 1) div 100 + (if y = 399 then 1 else 0)"
proof -
  define c where "c = min 3 (doe div 36524)"
  define n where "n = doe - 36524 * c"
  define q where "q = n div 1461"
  define m where "m = n - 1461 * q"
  define a where "a = min 3 (m div 365)"
  define r where "r = m - 365 * a"
  have c: "0 \<le> c" "c \<le> 3" "0 \<le> n" "n \<le> 36523 \<or> c = 3 \<and> n = 36524"
  proof -
    let ?k = "doe div 36524"
    have k: "doe = 36524 * ?k + doe mod 36524" "0 \<le> doe mod 36524" "doe mod 36524 < 36524" by simp_all
    then have "0 \<le> ?k" "?k \<le> 4" using assms(1,2) by linarith+
    then have "?k \<le> 3 \<and> c = ?k \<or> ?k = 4 \<and> c = 3" by (auto simp: c_def)
    with k assms(1,2) \<open>0 \<le> ?k\<close> show "0 \<le> c" "c \<le> 3" "0 \<le> n" "n \<le> 36523 \<or> c = 3 \<and> n = 36524"
      by (auto simp: n_def)
  qed
  have nq: "n = 1461 * q + m" "0 \<le> m" "m \<le> 1460" by (auto simp: q_def m_def minus_mult_div_eq_mod)
  have q: "0 \<le> q" "q \<le> 24" "q = 24 \<Longrightarrow> m = 1460 \<Longrightarrow> c = 3" using c nq by linarith+
  have a: "0 \<le> a" "a \<le> 3" "m = 365 * a + r" "0 \<le> r" "r \<le> 364 \<or> a = 3 \<and> m = 1460"
  proof -
    let ?k = "m div 365"
    have k: "m = 365 * ?k + m mod 365" "0 \<le> m mod 365" "m mod 365 < 365" by simp_all
    then have "0 \<le> ?k" "?k \<le> 4" using nq by linarith+
    then have "?k \<le> 3 \<and> a = ?k \<or> ?k = 4 \<and> a = 3" by (auto simp: a_def)
    with k nq \<open>0 \<le> ?k\<close>
    show "0 \<le> a" "a \<le> 3" "m = 365 * a + r" "0 \<le> r" "r \<le> 364 \<or> a = 3 \<and> m = 1460"
      by (auto simp: r_def)
  qed
  have doe: "doe = 36524 * c + 1461 * q + m" using nq(1) by (simp add: n_def)
  define e :: int where "e = (if 1460 \<le> 24 * c + q + m then 1 else 0)"
  have d1: "doe div 1460 = 25 * c + q + e"
    by (rule div_unique_int [where r = "24 * c + q + m - 1460 * e"])
      (use doe c q nq in \<open>auto simp: e_def\<close>)
  have d2: "doe div 36524 - doe div 146096 = c"
  proof (cases "doe = 146096")
    case True
    with c doe nq q have "c = 3" by linarith
    with True show ?thesis by simp
  next
    case False
    have "n < 36524" using c False by (auto simp: n_def)
    then have "doe div 36524 = c"
      by (intro div_unique_int [where r = n]) (use c in \<open>simp_all add: n_def\<close>)
    moreover have "doe div 146096 = 0" using False assms(1,2) by simp
    ultimately show ?thesis by simp
  qed
  have "A = 25 * c + q + e \<Longrightarrow> B - C = c \<Longrightarrow> doe - A + B - C = 365 * (100 * c + 4 * q) + (m - e)"
    for A B C using doe by algebra
  from this [OF d1 d2]
  have "doe - doe div 1460 + doe div 36524 - doe div 146096 = 365 * (100 * c + 4 * q) + (m - e)" .
  moreover have "365 * a \<le> m - e \<and> m - e < 365 * (a + 1)"
    using a c q nq by (auto simp: e_def)
  ultimately have y: "y = 100 * c + 4 * q + a"
    unfolding y_def by (intro div_unique_int [where r = "m - e - 365 * a"]) (simp_all add: algebra_simps)
  have "y div 4 = 25 * c + q"
    by (rule div_unique_int [where r = a]) (use y a in simp_all)
  moreover have "y div 100 = c"
    by (rule div_unique_int [where r = "4 * q + a"]) (use y a q in simp_all)
  moreover have "(y + 1) div 4 = 25 * c + q + (if a = 3 then 1 else 0)"
    by (rule div_unique_int [where r = "if a = 3 then 0 else a + 1"]) (use y a in auto)
  moreover have "(y + 1) div 100 = c + (if 4 * q + a = 99 then 1 else 0)"
    by (rule div_unique_int [where r = "if 4 * q + a = 99 then 0 else 4 * q + a + 1"]) (use y a q in auto)
  moreover have "4 * q + a = 99 \<Longrightarrow> q = 24 \<and> a = 3" using a q by linarith
  ultimately show ?thesis
    using a c q y doe by (auto split: if_splits)
qed

lemma march_start_era:
  assumes "0 \<le> y" "y \<le> 400"
  shows "march_start (y + e * 400) =
    e * 146097 + 365 * y + y div 4 - y div 100 + (if y = 400 then 1 else 0)"
proof -
  have "(y + e * 400) div 4 = y div 4 + 100 * e"
    by (rule div_unique_int [where r = "y mod 4"]) (simp_all add: minus_mult_div_eq_mod [symmetric])
  moreover have "(y + e * 400) div 100 = y div 100 + 4 * e"
    by (rule div_unique_int [where r = "y mod 100"]) (simp_all add: minus_mult_div_eq_mod [symmetric])
  moreover have "(y + e * 400) div 400 = e + (if y = 400 then 1 else 0)"
    by (rule div_unique_int [where r = "if y = 400 then 0 else y"]) (use assms in auto)
  ultimately show ?thesis by (simp add: march_start_def)
qed

section \<open>Days and dates\<close>

text \<open>The Gregorian count: years, months and days before a date, from 1970-01-01.\<close>

definition month_length :: "int \<Rightarrow> int \<Rightarrow> int" where
  "month_length y m =
     (if m = 2 then if leap_year y then 29 else 28
      else if m \<in> {4, 6, 9, 11} then 30 else 31)"

definition valid_date :: "int \<Rightarrow> int \<Rightarrow> int \<Rightarrow> bool" where
  "valid_date y m d \<longleftrightarrow> 1 \<le> m \<and> m \<le> 12 \<and> 1 \<le> d \<and> d \<le> month_length y m"

definition days_before_year :: "int \<Rightarrow> int" where
  "days_before_year y = 365 * (y - 1) + (y - 1) div 4 - (y - 1) div 100 + (y - 1) div 400"

definition days_before_month :: "int \<Rightarrow> int \<Rightarrow> int" where
  "days_before_month y m = sum_list (map (month_length y) [1..m - 1])"

definition gregorian_day :: "int \<Rightarrow> int \<Rightarrow> int \<Rightarrow> int" where
  "gregorian_day y m d = days_before_year y + days_before_month y m + (d - 1) - 719162"

lemma days_before_month_values:
  "1 \<le> m \<Longrightarrow> m \<le> 12 \<Longrightarrow> days_before_month y m =
     [0, 31, 59, 90, 120, 151, 181, 212, 243, 273, 304, 334] ! nat (m - 1) +
     (if 2 < m \<and> leap_year y then 1 else 0)"
proof -
  assume "1 \<le> m" "m \<le> 12"
  then have "m \<in> {1, 2, 3, 4, 5, 6, 7, 8, 9, 10, 11, 12}" by (simp, arith)
  then show ?thesis
    by (elim insertE emptyE; hypsubst; simp add: days_before_month_def month_length_def upto.simps)
qed

text \<open>A day of a March year as month and day, the way the code computes them.\<close>

definition march_month :: "int \<Rightarrow> int" where
  "march_month doy = (5 * doy + 2) div 153"

lemma march_month_split:
  assumes "0 \<le> doy" "doy \<le> 365"
  shows "march_month doy \<in> {0..11} \<and> (153 * march_month doy + 2) div 5 \<le> doy \<and>
    doy < (if march_month doy = 11 then 366 else (153 * (march_month doy + 1) + 2) div 5)"
proof -
  have "153 * march_month doy \<le> 5 * doy + 2" "5 * doy + 2 < 153 * march_month doy + 153"
    by (simp_all add: march_month_def)
  moreover from this assms have "0 \<le> march_month doy" "march_month doy \<le> 11" by linarith+
  moreover from this have "march_month doy \<in> {0, 1, 2, 3, 4, 5, 6, 7, 8, 9, 10, 11}" by (simp, arith)
  ultimately show ?thesis using assms by (auto split: if_splits)
qed

definition date_of_march :: "int \<Rightarrow> int \<Rightarrow> civil_date" where
  "date_of_march y doy =
     (let mp = march_month doy; m = (if mp < 10 then mp + 3 else mp - 9)
      in \<lparr>dt_year = y + (if m \<le> 2 then 1 else 0), dt_month = m,
          dt_day = doy - (153 * mp + 2) div 5 + 1\<rparr>)"

lemma civil_from_days_march:
  obtains y doy where "march_start y \<le> d + 719468" "d + 719468 < march_start (y + 1)"
    "doy = d + 719468 - march_start y"
    "civil_from_days d = (let date = date_of_march y doy
      in if dt_year date < - 2147483648 \<or> 2147483647 < dt_year date then None else Some date)"
proof -
  let ?days = "d + 719468"
  define era where "era = ?days div 146097"
  define doe where "doe = ?days - era * 146097"
  define yoe where "yoe = (doe - doe div 1460 + doe div 36524 - doe div 146096) div 365"
  have era: "(if 0 \<le> ?days then ?days else ?days - 146096) sdiv 146097 = era"
  proof (cases "0 \<le> ?days")
    case True
    then show ?thesis by (simp add: era_def sdiv_nonneg)
  next
    case False
    have "- (?days - 146096) = 146097 - 1 - ?days" by simp
    then have "(?days - 146096) sdiv 146097 = - ((146097 - 1 - ?days) div 146097)"
      using False by (simp only: sdiv_neg)
    also have "\<dots> = era" unfolding era_def by (rule ceiling_div) simp
    finally show ?thesis using False by simp
  qed
  have doe: "0 \<le> doe" "doe < 146097" by (simp_all add: doe_def era_def minus_div_mult_eq_mod)
  note yoe = year_of_era [OF doe, folded yoe_def]
  let ?y = "yoe + era * 400"
  let ?doy = "doe - (365 * yoe + yoe div 4 - yoe div 100)"
  have start: "march_start ?y = era * 146097 + 365 * yoe + yoe div 4 - yoe div 100"
    using march_start_era [of yoe era] yoe by simp
  have "march_start (yoe + 1 + era * 400) = era * 146097 + 365 * (yoe + 1) + (yoe + 1) div 4 -
      (yoe + 1) div 100 + (if yoe + 1 = 400 then 1 else 0)"
    by (rule march_start_era) (use yoe in auto)
  moreover have "yoe + 1 + era * 400 = ?y + 1" "yoe + 1 = 400 \<longleftrightarrow> yoe = 399" by auto
  ultimately have "march_start (?y + 1) = era * 146097 + 365 * (yoe + 1) + (yoe + 1) div 4 -
      (yoe + 1) div 100 + (if yoe = 399 then 1 else 0)"
    by (simp only:)
  with start yoe have "march_start ?y \<le> ?days" "?days < march_start (?y + 1)"
    "?doy = ?days - march_start ?y"
    unfolding doe_def by linarith+
  moreover have "civil_from_days d = (let date = date_of_march ?y ?doy
      in if dt_year date < - 2147483648 \<or> 2147483647 < dt_year date then None else Some date)"
    unfolding civil_from_days_def era Let_def doe_def [symmetric] yoe_def [symmetric]
    by (simp add: date_of_march_def march_month_def Let_def)
  ultimately show ?thesis by (rule that)
qed

lemma days_before_year_march: "days_before_year y = march_start (y - 1)"
  by (simp add: days_before_year_def march_start_def)

lemma date_of_march_gregorian:
  assumes "march_start y \<le> days" "days < march_start (y + 1)"
  defines "date \<equiv> date_of_march y (days - march_start y)"
  shows "valid_date (dt_year date) (dt_month date) (dt_day date)"
    and "gregorian_day (dt_year date) (dt_month date) (dt_day date) = days - 719468"
proof -
  define doy where "doy = days - march_start y"
  have doy: "0 \<le> doy" "doy < (if leap_year (y + 1) then 366 else 365)"
    using assms(1,2) march_year_length [of y] by (auto simp: doy_def)
  have split: "march_month doy \<in> {0..11}" "(153 * march_month doy + 2) div 5 \<le> doy"
    "doy < (if march_month doy = 11 then 366 else (153 * (march_month doy + 1) + 2) div 5)"
    using march_month_split [of doy] doy by (auto split: if_splits)
  have before: "march_start (y - 1) = march_start y - (if leap_year y then 366 else 365)"
    using march_year_length [of "y - 1"] by simp
  have days: "days = march_start y + doy" by (simp add: doy_def)
  have "march_month doy \<in> {0, 1, 2, 3, 4, 5, 6, 7, 8, 9, 10, 11}" using split(1) by (simp, arith)
  then have "valid_date (dt_year date) (dt_month date) (dt_day date) \<and>
      gregorian_day (dt_year date) (dt_month date) (dt_day date) = days - 719468"
    unfolding assms(3) doy_def [symmetric] using split(2,3) doy before days
    by (elim insertE emptyE;
        simp add: date_of_march_def Let_def valid_date_def month_length_def gregorian_day_def
          days_before_month_values days_before_year_march split: if_splits)
  then show "valid_date (dt_year date) (dt_month date) (dt_day date)"
    and "gregorian_day (dt_year date) (dt_month date) (dt_day date) = days - 719468"
    by blast+
qed

lemma days_before_month_step:
  "1 \<le> m \<Longrightarrow> days_before_month y (m + 1) = days_before_month y m + month_length y m"
proof -
  assume "1 \<le> m"
  then have "[1..m] = [1..m - 1] @ [m]" by (rule upto_rec2)
  then show ?thesis by (simp add: days_before_month_def)
qed

lemma month_length_pos: "28 \<le> month_length y m"
  by (simp add: month_length_def)

lemma days_before_month_mono:
  "m < m' \<Longrightarrow> 1 \<le> m \<Longrightarrow> days_before_month y m + month_length y m \<le> days_before_month y m'"
proof (induction m' rule: int_gr_induct)
  case base
  then show ?case by (simp add: days_before_month_step)
next
  case (step i)
  then show ?case using days_before_month_step [of i y] month_length_pos [of y i] by simp
qed

lemma day_of_year_bounds:
  assumes "valid_date y m d"
  shows "0 \<le> days_before_month y m + (d - 1)"
    and "days_before_month y m + (d - 1) < (if leap_year y then 366 else 365)"
proof -
  have "days_before_month y m + month_length y m \<le> days_before_month y 13"
    using days_before_month_mono [of m 13 y] assms by (simp add: valid_date_def)
  moreover have "days_before_month y 13 = (if leap_year y then 366 else 365)"
    using days_before_month_step [of 12 y]
    by (simp add: days_before_month_values month_length_def)
  ultimately show "days_before_month y m + (d - 1) < (if leap_year y then 366 else 365)"
    using assms by (simp add: valid_date_def)
  have "0 \<le> days_before_month y m"
    using days_before_month_mono [of 1 m y] month_length_pos [of y 1] assms
    by (cases "m = 1") (simp_all add: valid_date_def days_before_month_def)
  then show "0 \<le> days_before_month y m + (d - 1)" using assms by (simp add: valid_date_def)
qed

lemma gregorian_day_inject:
  assumes "valid_date y m d" "valid_date y' m' d'" "gregorian_day y m d = gregorian_day y' m' d'"
  shows "y = y' \<and> m = m' \<and> d = d'"
proof -
  let ?x = "gregorian_day y m d + 719162"
  have within: "march_start (z - 1) \<le> gregorian_day z n e + 719162 \<and>
      gregorian_day z n e + 719162 < march_start (z - 1 + 1)" if "valid_date z n e" for z n e
    using day_of_year_bounds [OF that] march_year_length [of "z - 1"]
    by (simp add: gregorian_day_def days_before_year_march)
  have "y - 1 = y' - 1"
    using within [OF assms(1)] within [OF assms(2)] assms(3) march_year_unique [of "y - 1" ?x "y' - 1"] by simp
  then have y: "y = y'" by simp
  then have same: "days_before_month y m + d = days_before_month y m' + d'"
    using assms(3) by (simp add: gregorian_day_def)
  have "m = m'"
    using days_before_month_mono [of m m' y] days_before_month_mono [of m' m y] same assms(1,2) y
    by (cases m m' rule: linorder_cases) (auto simp: valid_date_def)
  with y same show ?thesis by simp
qed

lemma civil_from_days_eq:
  "civil_from_days days = Some date \<longleftrightarrow>
     valid_date (dt_year date) (dt_month date) (dt_day date) \<and>
     gregorian_day (dt_year date) (dt_month date) (dt_day date) = days \<and>
     - 2147483648 \<le> dt_year date \<and> dt_year date \<le> 2147483647"
proof -
  obtain y doy where y: "march_start y \<le> days + 719468" "days + 719468 < march_start (y + 1)"
    "doy = days + 719468 - march_start y"
    and civil: "civil_from_days days = (let date = date_of_march y doy
      in if dt_year date < - 2147483648 \<or> 2147483647 < dt_year date then None else Some date)"
    by (rule civil_from_days_march)
  note found = date_of_march_gregorian [OF y(1,2), folded y(3)]
  show ?thesis
  proof
    assume "civil_from_days days = Some date"
    with civil found show "valid_date (dt_year date) (dt_month date) (dt_day date) \<and>
       gregorian_day (dt_year date) (dt_month date) (dt_day date) = days \<and>
       - 2147483648 \<le> dt_year date \<and> dt_year date \<le> 2147483647"
      by (auto simp: Let_def split: if_splits)
  next
    assume *: "valid_date (dt_year date) (dt_month date) (dt_day date) \<and>
       gregorian_day (dt_year date) (dt_month date) (dt_day date) = days \<and>
       - 2147483648 \<le> dt_year date \<and> dt_year date \<le> 2147483647"
    then have "date_of_march y doy = date"
      using gregorian_day_inject [OF found(1), of "dt_year date" "dt_month date" "dt_day date"] found(2)
      by (cases date; cases "date_of_march y doy") auto
    with * civil show "civil_from_days days = Some date" by (simp add: Let_def)
  qed
qed

text \<open>
  C27: the resolver's calendar is the Gregorian one. \<open>civil_from_days\<close> returns a date for a day
  number exactly when that date exists, counting years, months and days up to it from 1970-01-01
  gives that day number, and its year is an \<open>int\<close>.
\<close>

theorem civil_from_days_gregorian:
  "civil_from_days days = Some \<lparr>dt_year = y, dt_month = m, dt_day = d\<rparr> \<longleftrightarrow>
     valid_date y m d \<and> gregorian_day y m d = days \<and> - 2147483648 \<le> y \<and> y \<le> 2147483647"
  by (simp add: civil_from_days_eq)

section \<open>UTC instants\<close>

text \<open>Decimal digits with leading zeros.\<close>

fun padded :: "nat \<Rightarrow> int \<Rightarrow> string" where
  "padded 0 n = []"
| "padded (Suc k) n = padded k (n div 10) @ [char_of (48 + nat (n mod 10))]"

definition render_instant :: "civil_date \<Rightarrow> int \<Rightarrow> int \<Rightarrow> int \<Rightarrow> string" where
  "render_instant date hour minute seconds =
     padded 4 (dt_year date) @ ''-'' @ padded 2 (dt_month date) @ ''-'' @ padded 2 (dt_day date) @
     ''T'' @ padded 2 hour @ '':'' @ padded 2 minute @ '':'' @ padded 2 seconds @ ''Z''"

lemma length_padded [simp]: "length (padded k n) = k"
  by (induction k arbitrary: n) simp_all

lemma digits_to_int_snoc [simp]: "digits_to_int (s @ [c]) = digits_to_int s * 10 + (of_char c - 48)"
  by (simp add: digits_to_int_def)

lemma isdigit_char_of: "0 \<le> n \<Longrightarrow> n < 10 \<Longrightarrow> isdigit (char_of (48 + nat n))"
  by (simp add: isdigit_def)

lemma of_char_int_digit: "0 \<le> n \<Longrightarrow> n < 10 \<Longrightarrow> (of_char (char_of (48 + nat n) :: char) :: int) = 48 + n"
proof -
  assume n: "0 \<le> n" "n < 10"
  define c :: char where "c = char_of (48 + nat n)"
  have "(of_char c :: nat) = 48 + nat n" using n by (simp add: c_def)
  then have "int (of_char c) = 48 + n" using n by simp
  then show ?thesis unfolding c_def [symmetric] by (simp only: of_nat_of_char)
qed

lemma padded_digits: "list_all isdigit (padded k n)"
  by (induction k arbitrary: n) (simp_all add: isdigit_char_of)

lemma digits_to_int_padded: "0 \<le> n \<Longrightarrow> n < 10 ^ k \<Longrightarrow> digits_to_int (padded k n) = n"
proof (induction k arbitrary: n)
  case 0
  then show ?case by (simp add: digits_to_int_def)
next
  case (Suc k)
  then have "n div 10 < 10 ^ k" by simp
  then have "digits_to_int (padded k (n div 10)) = n div 10"
    using Suc.prems by (intro Suc.IH) simp_all
  then show ?case by (simp add: of_char_int_digit)
qed

lemma digit_value:
  assumes "isdigit c"
  shows "48 \<le> (of_char c :: int)" "(of_char c :: int) \<le> 57"
    "char_of (48 + nat (of_char c - 48)) = c"
proof -
  have i: "(of_char c :: int) = int (of_char c)" by (simp only: of_nat_of_char)
  have n: "48 \<le> (of_char c :: nat)" "(of_char c :: nat) \<le> 57" using assms by (simp_all add: isdigit_def)
  then show "48 \<le> (of_char c :: int)" "(of_char c :: int) \<le> 57" by (simp_all add: i)
  have "48 + nat (of_char c - 48) = (of_char c :: nat)"
    using n by (simp add: i nat_diff_distrib del: of_nat_of_char)
  then show "char_of (48 + nat (of_char c - 48)) = c" by simp
qed

lemma digits_bound: "list_all isdigit s \<Longrightarrow> 0 \<le> digits_to_int s \<and> digits_to_int s < 10 ^ length s"
proof (induction s rule: rev_induct)
  case Nil
  then show ?case by (simp add: digits_to_int_def)
next
  case (snoc c s)
  moreover have "0 \<le> digits_to_int s" "digits_to_int s + 1 \<le> 10 ^ length s" using snoc by simp_all
  ultimately show ?case using digit_value(1,2) [of c] by simp
qed

lemma padded_digits_to_int: "list_all isdigit s \<Longrightarrow> padded (length s) (digits_to_int s) = s"
proof (induction s rule: rev_induct)
  case (snoc c s)
  then have c: "isdigit c" and s: "list_all isdigit s" by simp_all
  let ?x = "of_char c - 48 :: int"
  have "(digits_to_int s * 10 + ?x) div 10 = digits_to_int s"
    by (rule div_unique_int [where r = ?x]) (use digit_value(1,2) [OF c] in simp_all)
  moreover have "(digits_to_int s * 10 + ?x) mod 10 = ?x"
    using digit_value(1,2) [OF c] by (simp add: mod_add_eq [symmetric] mod_pos_pos_trivial)
  ultimately show ?case using snoc.IH [OF s] digit_value(3) [OF c]
    by (simp only: length_append_singleton padded.simps digits_to_int_snoc)
qed simp

lemma instant_parts:
  assumes "length v = 20"
  shows "v = substr 0 4 v @ [v ! 4] @ substr 5 2 v @ [v ! 7] @ substr 8 2 v @ [v ! 10] @
    substr 11 2 v @ [v ! 13] @ substr 14 2 v @ [v ! 16] @ substr 17 2 v @ [v ! 19]"
proof -
  have "v = map ((!) v) [0..<20]" using map_nth [of v] assms by simp
  then obtain c0 c1 c2 c3 c4 c5 c6 c7 c8 c9 d0 d1 d2 d3 d4 d5 d6 d7 d8 d9 where
    "v = [c0, c1, c2, c3, c4, c5, c6, c7, c8, c9, d0, d1, d2, d3, d4, d5, d6, d7, d8, d9]"
    by (simp add: upt_rec)
  then show ?thesis by (simp add: substr_def)
qed

lemma render_instant_parts:
  "length (render_instant date h m s) = 20"
  "substr 0 4 (render_instant date h m s) = padded 4 (dt_year date)"
  "substr 5 2 (render_instant date h m s) = padded 2 (dt_month date)"
  "substr 8 2 (render_instant date h m s) = padded 2 (dt_day date)"
  "substr 11 2 (render_instant date h m s) = padded 2 h"
  "substr 14 2 (render_instant date h m s) = padded 2 m"
  "substr 17 2 (render_instant date h m s) = padded 2 s"
  "render_instant date h m s ! 4 = CHR ''-''" "render_instant date h m s ! 7 = CHR ''-''"
  "render_instant date h m s ! 10 = CHR ''T''" "render_instant date h m s ! 13 = CHR '':''"
  "render_instant date h m s ! 16 = CHR '':''" "render_instant date h m s ! 19 = CHR ''Z''"
  by (simp_all add: render_instant_def substr_def nth_append)

text \<open>The table of month lengths of the protocol agrees with the calendar's.\<close>

lemma protocol_month_length:
  "1 \<le> m \<Longrightarrow> m \<le> 12 \<Longrightarrow>
     int (days_per_month ! nat (m - 1)) + (if m = 2 \<and> leap_year y then 1 else 0) = month_length y m"
proof -
  assume "1 \<le> m" "m \<le> 12"
  then have "m \<in> {1, 2, 3, 4, 5, 6, 7, 8, 9, 10, 11, 12}" by (simp, arith)
  then show ?thesis
    by (elim insertE emptyE; hypsubst; simp add: days_per_month_def month_length_def)
qed

lemma valid_instant_digits:
  "is_valid_protocol_utc_instant (render_instant \<lparr>dt_year = y, dt_month = m, dt_day = d\<rparr> h mi s) \<longleftrightarrow>
     1 \<le> y \<and> valid_date y m d \<and> h \<le> 23 \<and> mi \<le> 59 \<and> s \<le> 59"
  if "0 \<le> y" "y < 10000" "0 \<le> m" "m < 100" "0 \<le> d" "d < 100" "0 \<le> h" "h < 100" "0 \<le> mi" "mi < 100"
    "0 \<le> s" "s < 100"
proof -
  have digits: "all_digits (padded 4 n)" "all_digits (padded 2 n)" for n
    using padded_digits [of 4 n] padded_digits [of 2 n] length_padded [of 4 n] length_padded [of 2 n]
    by (auto simp: all_digits_def simp del: length_padded)
  show ?thesis
    using that protocol_month_length [of m y]
    by (auto simp: is_valid_protocol_utc_instant_def Let_def render_instant_parts digits
        digits_to_int_padded valid_date_def)
qed

text \<open>
  C28: the protocol accepts a UTC instant exactly when it is the fixed-width rendering of a time
  of day on a date of the years 1 to 9999 that the resolver's calendar produces for some day.
\<close>

theorem utc_instant_iff_calendar:
  "is_valid_protocol_utc_instant v \<longleftrightarrow>
     (\<exists>days date h m s. civil_from_days days = Some date \<and> dt_year date \<in> {1..9999} \<and>
        h \<in> {0..23} \<and> m \<in> {0..59} \<and> s \<in> {0..59} \<and> v = render_instant date h m s)"
proof
  assume valid: "is_valid_protocol_utc_instant v"
  then have len: "length v = 20" by (auto simp: is_valid_protocol_utc_instant_def split: if_splits)
  define n where "n = (\<lambda>p k. digits_to_int (substr p k v))"
  have part: "substr p k v = padded k (n p k) \<and> 0 \<le> n p k \<and> n p k < 10 ^ k"
    if "all_digits (substr p k v)" "p + k \<le> 20" for p k
    using padded_digits_to_int [of "substr p k v"] digits_bound [of "substr p k v"] that len
    by (simp add: all_digits_def n_def substr_def)
  have "all_digits (substr 0 4 v)" "all_digits (substr 5 2 v)" "all_digits (substr 8 2 v)"
    "all_digits (substr 11 2 v)" "all_digits (substr 14 2 v)" "all_digits (substr 17 2 v)"
    and fixed: "v ! 4 = CHR ''-''" "v ! 7 = CHR ''-''" "v ! 10 = CHR ''T''" "v ! 13 = CHR '':''"
      "v ! 16 = CHR '':''" "v ! 19 = CHR ''Z''"
    using valid by (auto simp: is_valid_protocol_utc_instant_def split: if_splits)
  then have parts: "substr 0 4 v = padded 4 (n 0 4)" "0 \<le> n 0 4" "n 0 4 < 10000"
    "substr 5 2 v = padded 2 (n 5 2)" "0 \<le> n 5 2" "n 5 2 < 100"
    "substr 8 2 v = padded 2 (n 8 2)" "0 \<le> n 8 2" "n 8 2 < 100"
    "substr 11 2 v = padded 2 (n 11 2)" "0 \<le> n 11 2" "n 11 2 < 100"
    "substr 14 2 v = padded 2 (n 14 2)" "0 \<le> n 14 2" "n 14 2 < 100"
    "substr 17 2 v = padded 2 (n 17 2)" "0 \<le> n 17 2" "n 17 2 < 100"
    using part [of 0 4] part [of 5 2] part [of 8 2] part [of 11 2] part [of 14 2] part [of 17 2]
    by simp_all
  let ?date = "\<lparr>dt_year = n 0 4, dt_month = n 5 2, dt_day = n 8 2\<rparr>"
  have v: "v = render_instant ?date (n 11 2) (n 14 2) (n 17 2)"
    using instant_parts [OF len] unfolding fixed parts(1,4,7,10,13,16)
    by (simp add: render_instant_def)
  with valid valid_instant_digits [of "n 0 4" "n 5 2" "n 8 2" "n 11 2" "n 14 2" "n 17 2"] parts
  have "1 \<le> n 0 4 \<and> valid_date (n 0 4) (n 5 2) (n 8 2) \<and> n 11 2 \<le> 23 \<and> n 14 2 \<le> 59 \<and> n 17 2 \<le> 59"
    by simp
  with parts v show "\<exists>days date h m s. civil_from_days days = Some date \<and> dt_year date \<in> {1..9999} \<and>
      h \<in> {0..23} \<and> m \<in> {0..59} \<and> s \<in> {0..59} \<and> v = render_instant date h m s"
    by (intro exI [of _ "gregorian_day (n 0 4) (n 5 2) (n 8 2)"] exI [of _ ?date]
        exI [of _ "n 11 2"] exI [of _ "n 14 2"] exI [of _ "n 17 2"])
      (simp add: civil_from_days_eq)
next
  assume "\<exists>days date h m s. civil_from_days days = Some date \<and> dt_year date \<in> {1..9999} \<and>
      h \<in> {0..23} \<and> m \<in> {0..59} \<and> s \<in> {0..59} \<and> v = render_instant date h m s"
  then obtain days date h m s where *: "civil_from_days days = Some date" "dt_year date \<in> {1..9999}"
    "h \<in> {0..23}" "m \<in> {0..59}" "s \<in> {0..59}" "v = render_instant date h m s" by blast
  then have "valid_date (dt_year date) (dt_month date) (dt_day date)" by (simp add: civil_from_days_eq)
  moreover from this have "1 \<le> dt_month date" "dt_month date \<le> 12" "1 \<le> dt_day date" "dt_day date \<le> 31"
    by (auto simp: valid_date_def month_length_def split: if_splits)
  ultimately show "is_valid_protocol_utc_instant v"
    using * valid_instant_digits [of "dt_year date" "dt_month date" "dt_day date" h m s]
    by (cases date) simp
qed

end
