(* ===== verification/Recurrence_Properties.thy ===== *)
theory Recurrence_Properties
  imports Civil_Calendar
begin

text \<open>
  What the resolver promises: the instant it maps a local time to is the first one at which the
  clocks of the zone show it, times inside a gap move to its end, the day it picks is the first
  possible one, a search with a valid table and schedule ends on a day, and the sums of the
  computation stay in 64 bits.
\<close>

section \<open>Readings and gaps\<close>

text \<open>At the instant \<open>u\<close> the clocks of the zone show \<open>local\<close> seconds since 1970-01-01 00:00.\<close>

definition reads :: "timezone_rules \<Rightarrow> int \<Rightarrow> int \<Rightarrow> bool" where
  "reads rules local u \<longleftrightarrow> u + sint (offset_at_utc rules u) = local"

text \<open>The transition jumps forward over the local time.\<close>

definition skips :: "utc_offset_transition \<Rightarrow> int \<Rightarrow> bool" where
  "skips t local \<longleftrightarrow>
     sint (tr_at_utc_seconds t) + sint (tr_offset_before_seconds t) \<le> local \<and>
     local < sint (tr_at_utc_seconds t) + sint (tr_offset_after_seconds t)"

abbreviation in_i64 :: "int \<Rightarrow> bool" where
  "in_i64 n \<equiv> i64_min \<le> n \<and> n \<le> i64_max"

lemma can_add_iff: "in_i64 v \<Longrightarrow> can_add v offset \<longleftrightarrow> in_i64 (v + offset)"
  by (auto simp: can_add_def)

lemma find_gap_None: "find_gap ts local = None \<longleftrightarrow> (\<forall>t \<in> set ts. \<not> skips t local)"
  by (induction ts) (auto simp: skips_def Let_def)

lemma find_gap_Some:
  assumes "find_gap ts local = Some m"
  shows "\<exists>t \<in> set ts. skips t local \<and> m = \<lparr>lm_utc_seconds = sint (tr_at_utc_seconds t),
    lm_resolved_local_seconds = sint (tr_at_utc_seconds t) + sint (tr_offset_after_seconds t),
    lm_offset_seconds = tr_offset_after_seconds t, lm_shifted_for_gap = True, lm_ambiguous_fold = False\<rparr>"
  using assms
proof (induction ts)
  case (Cons t ts)
  then show ?case by (cases "skips t local") (auto simp: skips_def Let_def split: if_splits)
qed simp

section \<open>The offsets of a table\<close>

lemma rule_offsets_fold:
  "distinct offsets \<Longrightarrow> distinct (foldl add_offset offsets xs) \<and>
     set (foldl add_offset offsets xs) = set offsets \<union> set xs"
proof (induction xs arbitrary: offsets)
  case (Cons x xs)
  have "distinct (add_offset offsets x) \<and> set (add_offset offsets x) = insert x (set offsets)"
    using Cons.prems by (auto simp: add_offset_def find_None_iff)
  with Cons.IH [of "add_offset offsets x"] show ?case by auto
qed simp

lemma rule_offsets_distinct: "distinct (rule_offsets rules)"
  and rule_offsets_set: "set (rule_offsets rules) =
    insert (tz_initial_utc_offset_seconds rules) (tr_offset_after_seconds ` set (tz_transitions rules))"
  using rule_offsets_fold [of "[]" "tz_initial_utc_offset_seconds rules #
      map tr_offset_after_seconds (tz_transitions rules)"]
  by (simp_all add: rule_offsets_def)

lemma offset_walk_range: "offset_walk o0 ts u \<in> insert o0 (tr_offset_after_seconds ` set ts)"
  by (induction o0 ts u rule: offset_walk.induct) auto

lemma offset_at_utc_range: "offset_at_utc rules u \<in> set (rule_offsets rules)"
  using offset_walk_range [of "tz_initial_utc_offset_seconds rules" "tz_transitions rules" u]
  by (simp add: offset_at_utc_def rule_offsets_set)

text \<open>The candidates that the scan accepts are the readings.\<close>

definition reading_at :: "timezone_rules \<Rightarrow> int \<Rightarrow> i32 \<Rightarrow> bool" where
  "reading_at rules local offset \<longleftrightarrow>
     in_i64 (local - sint offset) \<and> offset_at_utc rules (local - sint offset) = offset"

lemma reads_iff_offset:
  "in_i64 u \<and> reads rules local u \<longleftrightarrow>
     (\<exists>offset \<in> set (rule_offsets rules). u = local - sint offset \<and> reading_at rules local offset)"
proof
  assume u: "in_i64 u \<and> reads rules local u"
  then have "u = local - sint (offset_at_utc rules u)" by (auto simp: reads_def)
  with u have "reading_at rules local (offset_at_utc rules u)" by (simp add: reading_at_def)
  with u offset_at_utc_range [of rules u]
  show "\<exists>offset \<in> set (rule_offsets rules). u = local - sint offset \<and> reading_at rules local offset"
    by (intro bexI [of _ "offset_at_utc rules u"]) (auto simp: reads_def)
qed (auto simp: reading_at_def reads_def)

text \<open>The scan finds the least candidate and counts them.\<close>

definition plain_mapping :: "timezone_rules \<Rightarrow> int \<Rightarrow> local_mapping \<Rightarrow> bool" where
  "plain_mapping rules local m \<longleftrightarrow>
     in_i64 (lm_utc_seconds m) \<and> reads rules local (lm_utc_seconds m) \<and>
     lm_offset_seconds m = offset_at_utc rules (lm_utc_seconds m) \<and>
     lm_resolved_local_seconds m = local \<and> \<not> lm_shifted_for_gap m"

lemma sint_inject: "sint x = sint y \<longleftrightarrow> x = (y :: 'a :: len word)"
proof
  assume "sint x = sint y"
  then have "(word_of_int (sint x) :: 'a word) = word_of_int (sint y)" by (rule arg_cong)
  then show "x = y" by simp
qed simp

lemma scan_offsets_Cons:
  assumes "in_i64 local"
  shows "scan_offsets rules local (offset # offsets) earliest n =
    (if reading_at rules local offset
     then scan_offsets rules local offsets
            (if (case earliest of None \<Rightarrow> True | Some m \<Rightarrow> local - sint offset < lm_utc_seconds m)
             then Some \<lparr>lm_utc_seconds = local - sint offset, lm_resolved_local_seconds = local,
                        lm_offset_seconds = offset, lm_shifted_for_gap = False,
                        lm_ambiguous_fold = False\<rparr>
             else earliest)
            (Suc n)
     else scan_offsets rules local offsets earliest n)"
  using can_add_iff [OF assms, of "- sint offset"] by (auto simp: Let_def reading_at_def)

lemma scan_offsets_spec:
  assumes "in_i64 local" and "scan_offsets rules local offsets earliest n = (r, k)"
    and "\<And>m. earliest = Some m \<Longrightarrow> plain_mapping rules local m"
  shows "k = n + length (filter (reading_at rules local) offsets) \<and>
    (case r of
       None \<Rightarrow> earliest = None \<and> (\<forall>offset \<in> set offsets. \<not> reading_at rules local offset)
     | Some m \<Rightarrow> plain_mapping rules local m \<and>
         (\<forall>offset \<in> set offsets. reading_at rules local offset \<longrightarrow> lm_utc_seconds m \<le> local - sint offset) \<and>
         (\<forall>e. earliest = Some e \<longrightarrow> lm_utc_seconds m \<le> lm_utc_seconds e))"
  using assms(2,3)
proof (induction offsets arbitrary: earliest n)
  case Nil
  then show ?case by (auto split: option.splits)
next
  case (Cons offset offsets)
  let ?u = "local - sint offset"
  show ?case
  proof (cases "reading_at rules local offset")
    case False
    with Cons.prems(1) have run: "scan_offsets rules local offsets earliest n = (r, k)"
      unfolding scan_offsets_Cons [OF assms(1)] by simp
    from Cons.IH [OF run Cons.prems(2)] False show ?thesis by (simp split: option.splits)
  next
    case True
    define e where "e = (if (case earliest of None \<Rightarrow> True | Some m \<Rightarrow> ?u < lm_utc_seconds m)
      then Some \<lparr>lm_utc_seconds = ?u, lm_resolved_local_seconds = local, lm_offset_seconds = offset,
                 lm_shifted_for_gap = False, lm_ambiguous_fold = False\<rparr>
      else earliest)"
    have run: "scan_offsets rules local offsets e (Suc n) = (r, k)"
      using Cons.prems(1) True unfolding scan_offsets_Cons [OF assms(1)] e_def [symmetric] by simp
    have plain: "plain_mapping rules local m" if "e = Some m" for m
      using that True Cons.prems(2)
      by (auto simp: e_def plain_mapping_def reading_at_def reads_def split: if_splits option.splits)
    have "\<exists>m. e = Some m \<and> lm_utc_seconds m \<le> ?u \<and>
        (\<forall>m'. earliest = Some m' \<longrightarrow> lm_utc_seconds m \<le> lm_utc_seconds m')"
      by (auto simp: e_def split: option.splits)
    then obtain m where m: "e = Some m" "lm_utc_seconds m \<le> ?u"
      "\<And>m'. earliest = Some m' \<Longrightarrow> lm_utc_seconds m \<le> lm_utc_seconds m'" by blast
    from Cons.IH [OF run plain] m True show ?thesis
      by (auto split: option.splits intro: order_trans)
  qed
qed

text \<open>One reading per offset: the number of candidates tells whether there are several.\<close>

lemma several_readings:
  assumes "in_i64 local"
  shows "1 < length (filter (reading_at rules local) (rule_offsets rules)) \<longleftrightarrow>
    (\<exists>u u'. u \<noteq> u' \<and> in_i64 u \<and> in_i64 u' \<and> reads rules local u \<and> reads rules local u')"
proof -
  let ?os = "filter (reading_at rules local) (rule_offsets rules)"
  have "1 < length ?os \<longleftrightarrow> 1 < card (set ?os)"
    using distinct_card [of ?os] rule_offsets_distinct [of rules] by simp
  also have "\<dots> \<longleftrightarrow> (\<exists>x \<in> set ?os. \<exists>y \<in> set ?os. x \<noteq> y)"
    using card_le_Suc0_iff_eq [of "set ?os"] by (auto simp: not_le [symmetric])
  also have "\<dots> \<longleftrightarrow> (\<exists>u u'. u \<noteq> u' \<and> in_i64 u \<and> in_i64 u' \<and> reads rules local u \<and> reads rules local u')"
  proof
    assume "\<exists>x \<in> set ?os. \<exists>y \<in> set ?os. x \<noteq> y"
    then obtain x y where "x \<in> set ?os" "y \<in> set ?os" "x \<noteq> y" by blast
    then show "\<exists>u u'. u \<noteq> u' \<and> in_i64 u \<and> in_i64 u' \<and> reads rules local u \<and> reads rules local u'"
      using reads_iff_offset [of "local - sint x" rules "local"] reads_iff_offset [of "local - sint y" rules "local"]
      by (intro exI [of _ "local - sint x"] exI [of _ "local - sint y"]) (auto simp: sint_inject)
  next
    assume "\<exists>u u'. u \<noteq> u' \<and> in_i64 u \<and> in_i64 u' \<and> reads rules local u \<and> reads rules local u'"
    then obtain u u' where "u \<noteq> u'" "in_i64 u \<and> reads rules local u" "in_i64 u' \<and> reads rules local u'" by blast
    then show "\<exists>x \<in> set ?os. \<exists>y \<in> set ?os. x \<noteq> y"
      unfolding reads_iff_offset by auto
  qed
  finally show ?thesis .
qed

text \<open>The mapping is exact, whichever way the local time is reached.\<close>

lemma map_local_spec:
  assumes "in_i64 local"
  shows "case map_local rules local of
     None \<Rightarrow> (\<forall>t \<in> set (tz_transitions rules). \<not> skips t local) \<and> \<not> (\<exists>u. in_i64 u \<and> reads rules local u)
   | Some m \<Rightarrow>
       if lm_shifted_for_gap m
       then \<exists>t \<in> set (tz_transitions rules). skips t local \<and> lm_utc_seconds m = sint (tr_at_utc_seconds t) \<and>
              lm_resolved_local_seconds m = sint (tr_at_utc_seconds t) + sint (tr_offset_after_seconds t) \<and>
              \<not> lm_ambiguous_fold m
       else (\<forall>t \<in> set (tz_transitions rules). \<not> skips t local) \<and>
         in_i64 (lm_utc_seconds m) \<and> reads rules local (lm_utc_seconds m) \<and>
         lm_resolved_local_seconds m = local \<and>
         lm_offset_seconds m = offset_at_utc rules (lm_utc_seconds m) \<and>
         (\<forall>u. in_i64 u \<and> reads rules local u \<longrightarrow> lm_utc_seconds m \<le> u) \<and>
         (lm_ambiguous_fold m \<longleftrightarrow>
            (\<exists>u u'. u \<noteq> u' \<and> in_i64 u \<and> in_i64 u' \<and> reads rules local u \<and> reads rules local u'))"
proof (cases "find_gap (tz_transitions rules) local")
  case (Some m)
  with find_gap_Some [OF Some] show ?thesis by (auto simp: map_local_def)
next
  case None
  obtain r k where scan: "scan_offsets rules local (rule_offsets rules) None 0 = (r, k)" by fastforce
  note spec = scan_offsets_spec [OF assms scan]
  have "\<exists>offset. reading_at rules local offset \<and> offset \<in> set (rule_offsets rules) \<and> u = local - sint offset"
    if "in_i64 u" "reads rules local u" for u
    using reads_iff_offset [of u rules "local"] that by auto
  with spec None scan several_readings [OF assms, of rules] find_gap_None [of "tz_transitions rules" "local"]
  show ?thesis
    by (cases r) (fastforce simp: map_local_def plain_mapping_def reads_iff_offset)+
qed

section \<open>Every local time is shown or skipped\<close>

lemma walk_shows_or_skips:
  assumes "chain_walk o0 previous ts"
    and "case previous of None \<Rightarrow> True | Some p \<Rightarrow> p \<le> local - sint o0"
  shows "(\<exists>t \<in> set ts. skips t local) \<or>
    (\<exists>u. u + sint (offset_walk o0 ts u) = local \<and> (case previous of None \<Rightarrow> True | Some p \<Rightarrow> p \<le> u))"
  using assms
proof (induction o0 previous ts rule: chain_walk.induct)
  case (1 o0 previous)
  then show ?case by (intro disjI2 exI [of _ "local - sint o0"]) auto
next
  case (2 o0 previous t ts)
  let ?at = "sint (tr_at_utc_seconds t)" and ?after = "sint (tr_offset_after_seconds t)"
  have chain: "tr_offset_before_seconds t = o0" "chain_walk (tr_offset_after_seconds t) (Some ?at) ts"
    "case previous of None \<Rightarrow> True | Some p \<Rightarrow> p < ?at"
    and guard: "\<not> ((case previous of None \<Rightarrow> False | Some p \<Rightarrow> ?at \<le> p) \<or>
         tr_offset_before_seconds t \<noteq> o0 \<or> \<not> valid_utc_offset (tr_offset_before_seconds t) \<or>
         \<not> valid_utc_offset (tr_offset_after_seconds t) \<or>
         \<not> can_add ?at (sint (tr_offset_before_seconds t)) \<or> \<not> can_add ?at ?after \<or>
         tr_offset_before_seconds t = tr_offset_after_seconds t)"
    using "2.prems"(1) by (auto split: if_splits option.splits)
  consider (before) "local - sint o0 < ?at" | (inside) "?at + sint o0 \<le> local" "local < ?at + ?after"
    | (later) "?at \<le> local - ?after" by linarith
  then show ?case
  proof cases
    case before
    with "2.prems"(2) show ?thesis by (intro disjI2 exI [of _ "local - sint o0"]) (auto split: option.splits)
  next
    case inside
    with chain(1) show ?thesis by (auto simp: skips_def)
  next
    case later
    from "2.IH" [OF guard chain(2)] later consider "\<exists>t \<in> set ts. skips t local"
      | u where "u + sint (offset_walk (tr_offset_after_seconds t) ts u) = local" "?at \<le> u" by auto
    then show ?thesis
    proof cases
      case 1
      then show ?thesis by simp
    next
      case 2
      with chain(3) show ?thesis by (intro disjI2 exI [of _ u]) (auto split: option.splits)
    qed
  qed
qed

lemma chain_walk_offsets:
  "chain_walk o0 previous ts \<Longrightarrow> t \<in> set ts \<Longrightarrow>
     valid_utc_offset (tr_offset_after_seconds t) \<and> valid_utc_offset (tr_offset_before_seconds t) \<and>
     can_add (sint (tr_at_utc_seconds t)) (sint (tr_offset_before_seconds t)) \<and>
     can_add (sint (tr_at_utc_seconds t)) (sint (tr_offset_after_seconds t))"
  by (induction o0 previous ts rule: chain_walk.induct) (auto split: if_splits)

lemma valid_chain_offset:
  "has_valid_transition_chain rules \<Longrightarrow>
     - 86400 \<le> sint (offset_at_utc rules u) \<and> sint (offset_at_utc rules u) \<le> 86400"
  using offset_walk_range [of "tz_initial_utc_offset_seconds rules" "tz_transitions rules" u]
    chain_walk_offsets [of "tz_initial_utc_offset_seconds rules" None "tz_transitions rules"]
  by (fastforce simp: has_valid_transition_chain_def offset_at_utc_def valid_utc_offset_def
      kSecondsPerDay_def)

text \<open>Under a valid table every local time far enough from the ends has an instant.\<close>

lemma map_local_defined:
  assumes "has_valid_transition_chain rules" and "in_i64 (local - 86400)" and "in_i64 (local + 86400)"
  shows "map_local rules local \<noteq> None"
proof
  assume none: "map_local rules local = None"
  have range: "in_i64 local" using assms(2,3) by simp
  obtain r k where scan: "scan_offsets rules local (rule_offsets rules) None 0 = (r, k)" by fastforce
  from none scan have gap: "find_gap (tz_transitions rules) local = None" and r: "r = None"
    by (auto simp: map_local_def split: option.splits)
  from walk_shows_or_skips [of "tz_initial_utc_offset_seconds rules" None "tz_transitions rules" "local"]
    assms(1) gap obtain u where u: "reads rules local u"
    by (auto simp: has_valid_transition_chain_def find_gap_None reads_def offset_at_utc_def)
  with valid_chain_offset [OF assms(1), of u] assms(2,3) have "in_i64 u" by (auto simp: reads_def)
  with u scan_offsets_spec [OF range scan] r reads_iff_offset [of u rules "local"] show False by auto
qed

section \<open>The day that is picked\<close>

definition due_day :: "weekly_alarm_schedule \<Rightarrow> int \<Rightarrow> bool" where
  "due_day schedule day \<longleftrightarrow> ws_iso_weekday_mask schedule AND weekday_bit (weekday_from_days day) \<noteq> 0"

definition local_of :: "weekly_alarm_schedule \<Rightarrow> int \<Rightarrow> int" where
  "local_of schedule day = day * 86400 + seconds_in_requested_day schedule"

definition usable :: "timezone_rules \<Rightarrow> weekly_alarm_schedule \<Rightarrow> int \<Rightarrow> int \<Rightarrow> local_mapping \<Rightarrow> bool" where
  "usable rules schedule after_utc day m \<longleftrightarrow>
     map_local rules (local_of schedule day) = Some m \<and> after_utc < lm_utc_seconds m \<and>
     (lm_shifted_for_gap m \<longrightarrow> lm_resolved_local_seconds m div 86400 = day)"

definition resolution_of :: "int \<Rightarrow> local_mapping \<Rightarrow> civil_date \<Rightarrow> resolved_occurrence" where
  "resolution_of day m date =
     (let seconds = lm_resolved_local_seconds m - lm_resolved_local_seconds m div 86400 * 86400 in
      \<lparr>or_status = OR_resolved, or_scheduled_utc_seconds = word_of_int (lm_utc_seconds m),
       or_local_date = date, or_resolved_local_hour = word_of_int (seconds sdiv (60 * 60)),
       or_resolved_local_minute = word_of_int ((seconds sdiv 60) smod 60),
       or_utc_offset_seconds = lm_offset_seconds m, or_shifted_for_gap = lm_shifted_for_gap m,
       or_ambiguous_fold = lm_ambiguous_fold m\<rparr>)"

lemma start_of_day_Some:
  "start_of_day_seconds day = Some s \<longleftrightarrow> s = day * 86400 \<and> - 106751991167300 \<le> day \<and> day \<le> 106751991167300"
proof -
  have "i64_max sdiv kSecondsPerDay = 106751991167300" "i64_min sdiv kSecondsPerDay = - 106751991167300"
    by (simp_all add: kSecondsPerDay_def signed_divide_int_def)
  then show ?thesis by (auto simp: start_of_day_seconds_def) (simp_all add: kSecondsPerDay_def)
qed

lemma local_of_in_i64:
  assumes "start_of_day_seconds day = Some start"
    and "\<not> i64_max - seconds_in_requested_day schedule < start"
  shows "in_i64 (local_of schedule day)"
proof -
  have "start = day * 86400" "- 106751991167300 \<le> day" "day \<le> 106751991167300"
    using assms(1) by (simp_all add: start_of_day_Some)
  moreover have "0 \<le> seconds_in_requested_day schedule" by (simp add: seconds_in_requested_day_def)
  ultimately show ?thesis using assms(2) unfolding local_of_def by simp
qed

lemma resolve_days_resolved:
  assumes "or_status (resolve_days schedule rules after_utc anchor deltas) = OR_resolved"
  shows "\<exists>pre delta post m date. deltas = pre @ delta # post \<and> due_day schedule (anchor + delta) \<and>
    usable rules schedule after_utc (anchor + delta) m \<and>
    in_i64 (local_of schedule (anchor + delta)) \<and>
    civil_from_days (anchor + delta) = Some date \<and>
    resolve_days schedule rules after_utc anchor deltas = resolution_of (anchor + delta) m date \<and>
    (\<forall>d \<in> set pre. due_day schedule (anchor + d) \<longrightarrow>
       (\<forall>m'. \<not> usable rules schedule after_utc (anchor + d) m'))"
  using assms
proof (induction deltas)
  case Nil
  then show ?case by (simp add: failed_resolution_def)
next
  case (Cons delta deltas)
  let ?day = "anchor + delta"
  have day: "kSecondsPerDay = 86400" by (simp add: kSecondsPerDay_def)
  have later: ?case if "\<not> (due_day schedule ?day \<and> (\<exists>m. usable rules schedule after_utc ?day m))"
    "resolve_days schedule rules after_utc anchor (delta # deltas) = resolve_days schedule rules after_utc anchor deltas"
  proof -
    from Cons.IH that(2) Cons.prems obtain pre d post m date where
      *: "deltas = pre @ d # post" "due_day schedule (anchor + d)"
        "usable rules schedule after_utc (anchor + d) m" "in_i64 (local_of schedule (anchor + d))"
        "civil_from_days (anchor + d) = Some date"
        "resolve_days schedule rules after_utc anchor deltas = resolution_of (anchor + d) m date"
        "\<forall>d' \<in> set pre. due_day schedule (anchor + d') \<longrightarrow>
           (\<forall>m'. \<not> usable rules schedule after_utc (anchor + d') m')" by auto
    show ?thesis
      by (rule exI [of _ "delta # pre"], rule exI [of _ d], rule exI [of _ post], rule exI [of _ m],
          rule exI [of _ date]) (use * that in auto)
  qed
  show ?case
  proof (cases "due_day schedule ?day")
    case False
    then show ?thesis by (intro later) (simp_all add: due_day_def Let_def)
  next
    case due: True
    then obtain start where start: "start_of_day_seconds ?day = Some start"
      using Cons.prems by (cases "start_of_day_seconds ?day")
        (auto simp: due_day_def failed_resolution_def Let_def)
    then have s: "start = ?day * 86400" by (simp add: start_of_day_Some)
    have fits: "\<not> i64_max - seconds_in_requested_day schedule < start"
      using Cons.prems due start by (auto simp: due_day_def failed_resolution_def Let_def)
    then have range: "in_i64 (local_of schedule ?day)" by (rule local_of_in_i64 [OF start])
    have "local_of schedule ?day = start + seconds_in_requested_day schedule" by (simp add: local_of_def s)
    note step = due start fits this
    show ?thesis
    proof (cases "map_local rules (local_of schedule ?day)")
      case None
      with step show ?thesis by (intro later) (auto simp: usable_def due_day_def Let_def)
    next
      case (Some m)
      show ?thesis
      proof (cases "usable rules schedule after_utc ?day m")
        case False
        with Some step show ?thesis
          by (intro later) (auto simp: usable_def due_day_def Let_def day floor_div_eq)
      next
        case True
        have run: "resolve_days schedule rules after_utc anchor (delta # deltas) =
          (case civil_from_days ?day of None \<Rightarrow> failed_resolution OR_out_of_range
           | Some date \<Rightarrow> resolution_of ?day m date)"
          using True Some step
          by (auto simp: usable_def due_day_def Let_def day floor_div_eq resolution_of_def split: option.splits)
        with Cons.prems obtain date where date: "civil_from_days ?day = Some date"
          by (auto simp: failed_resolution_def split: option.splits)
        show ?thesis
          by (rule exI [of _ "[]"], rule exI [of _ delta], rule exI [of _ deltas], rule exI [of _ m],
              rule exI [of _ date]) (use True range due date run in auto)
      qed
    qed
  qed
qed

lemma usable_in_i64:
  assumes "usable rules schedule after_utc day m" and "in_i64 (local_of schedule day)"
  shows "in_i64 (lm_utc_seconds m)"
  using assms map_local_spec [OF assms(2), of rules] sint_i64_ge sint_i64_le
  by (auto simp: usable_def split: if_splits)

lemma hour_minute_back:
  fixes h mi :: u8
  assumes "h \<le> 23" "mi \<le> 59"
  shows "word_of_int ((uint h * 60 * 60 + uint mi * 60) sdiv (60 * 60)) = h"
    and "word_of_int (((uint h * 60 * 60 + uint mi * 60) sdiv 60) smod 60) = mi"
    and "0 \<le> uint h * 60 * 60 + uint mi * 60" "uint h * 60 * 60 + uint mi * 60 < 86400"
proof -
  have b: "0 \<le> uint h" "uint h \<le> 23" "0 \<le> uint mi" "uint mi \<le> 59"
    using assms by (simp_all add: word_le_def)
  then show n: "0 \<le> uint h * 60 * 60 + uint mi * 60" and "uint h * 60 * 60 + uint mi * 60 < 86400"
    by simp_all
  have "(uint h * 60 * 60 + uint mi * 60) div 3600 = uint h"
    by (rule div_unique_int [where r = "uint mi * 60"]) (use b in simp_all)
  then show "word_of_int ((uint h * 60 * 60 + uint mi * 60) sdiv (60 * 60)) = h"
    using sdiv_nonneg [OF n, of 3600] by simp
  have "(uint h * 60 * 60 + uint mi * 60) div 60 = uint h * 60 + uint mi"
    by (rule div_unique_int [where r = 0]) (use b in simp_all)
  then have q: "(uint h * 60 * 60 + uint mi * 60) sdiv 60 = uint h * 60 + uint mi"
    using sdiv_nonneg [OF n, of 60] by simp
  have "(uint h * 60 + uint mi) div 60 = uint h"
    by (rule div_unique_int [where r = "uint mi"]) (use b in simp_all)
  then have "(uint h * 60 + uint mi) sdiv 60 = uint h" using b by (simp add: sdiv_nonneg)
  then have "(uint h * 60 + uint mi) smod 60 = uint mi"
    using sdiv_mult_smod_eq [of "uint h * 60 + uint mi" 60] by simp
  then show "word_of_int (((uint h * 60 * 60 + uint mi * 60) sdiv 60) smod 60) = mi"
    unfolding q by (simp only:) simp
qed

lemma local_of_day:
  assumes "ws_local_hour schedule \<le> 23" "ws_local_minute schedule \<le> 59"
  shows "local_of schedule day div 86400 = day"
proof -
  define s where "s = seconds_in_requested_day schedule"
  have s: "0 \<le> s" "s < 86400"
    using hour_minute_back(3,4) [OF assms] by (simp_all add: s_def seconds_in_requested_day_def)
  then have "(day * 86400 + s) div 86400 = day" by simp
  then show ?thesis by (simp add: local_of_def s_def)
qed

lemma local_of_seconds:
  assumes "ws_local_hour schedule \<le> 23" "ws_local_minute schedule \<le> 59"
  shows "local_of schedule day - local_of schedule day div 86400 * 86400 =
    uint (ws_local_hour schedule) * 60 * 60 + uint (ws_local_minute schedule) * 60"
  unfolding local_of_day [OF assms]
  unfolding local_of_def seconds_in_requested_day_def by (rule add_diff_cancel_left')

text \<open>The local day at an instant, on which the search begins.\<close>

definition day_at :: "timezone_rules \<Rightarrow> int \<Rightarrow> int" where
  "day_at rules u = (u + sint (offset_at_utc rules u)) div 86400"

lemma resolved_occurrence_spec:
  assumes "resolve_next_occurrence schedule rules after_utc = r" and "or_status r = OR_resolved"
  shows "sint after_utc < sint (or_scheduled_utc_seconds r) \<and>
    (\<exists>day. day_at rules (sint after_utc) \<le> day \<and> day \<le> day_at rules (sint after_utc) + 14 \<and>
       due_day schedule day \<and> civil_from_days day = Some (or_local_date r) \<and>
       (\<forall>day'. day_at rules (sint after_utc) \<le> day' \<and> day' < day \<and> due_day schedule day' \<longrightarrow>
          (\<forall>m. \<not> usable rules schedule (sint after_utc) day' m)) \<and>
       (if or_shifted_for_gap r
        then \<exists>t \<in> set (tz_transitions rules). skips t (local_of schedule day) \<and>
          or_scheduled_utc_seconds r = tr_at_utc_seconds t \<and>
          (sint (tr_at_utc_seconds t) + sint (tr_offset_after_seconds t)) div 86400 = day
        else reads rules (local_of schedule day) (sint (or_scheduled_utc_seconds r)) \<and>
          (\<forall>u. in_i64 u \<and> reads rules (local_of schedule day) u \<longrightarrow> sint (or_scheduled_utc_seconds r) \<le> u) \<and>
          or_utc_offset_seconds r = offset_at_utc rules (sint (or_scheduled_utc_seconds r)) \<and>
          or_resolved_local_hour r = ws_local_hour schedule \<and>
          or_resolved_local_minute r = ws_local_minute schedule))"
proof -
  let ?after = "sint after_utc"
  have secs_day: "kSecondsPerDay = 86400" by (simp add: kSecondsPerDay_def)
  have run: "r = resolve_days schedule rules ?after (day_at rules ?after) [0..14]"
    and time: "ws_local_hour schedule \<le> 23" "ws_local_minute schedule \<le> 59"
    using assms
    by (auto simp: resolve_next_occurrence_def Let_def failed_resolution_def day_at_def secs_day floor_div_eq not_less
        split: if_splits)
  from resolve_days_resolved [OF assms(2) [unfolded run]] obtain pre delta post m date where
    split: "[0..14] = pre @ delta # post" and due: "due_day schedule (day_at rules ?after + delta)"
    and usable: "usable rules schedule ?after (day_at rules ?after + delta) m"
    and range: "in_i64 (local_of schedule (day_at rules ?after + delta))"
    and date: "civil_from_days (day_at rules ?after + delta) = Some date"
    and r: "r = resolution_of (day_at rules ?after + delta) m date"
    and first: "\<forall>d \<in> set pre. due_day schedule (day_at rules ?after + d) \<longrightarrow>
       (\<forall>m'. \<not> usable rules schedule ?after (day_at rules ?after + d) m')"
    unfolding run by blast
  define day where "day = day_at rules ?after + delta"
  note due = due [folded day_def] and usable = usable [folded day_def] and range = range [folded day_def]
    and date = date [folded day_def] and r = r [folded day_def]
  have delta: "0 \<le> delta" "delta \<le> 14"
    using arg_cong [OF split, of set] by auto
  have pre: "{0..<delta} \<subseteq> set pre"
  proof
    fix d assume d: "d \<in> {0..<delta}"
    have "sorted_wrt (<) (pre @ delta # post)" unfolding split [symmetric] by simp
    then have "\<forall>x \<in> set post. delta < x" by (simp add: sorted_wrt_append)
    moreover have "d \<in> set (pre @ delta # post)" unfolding split [symmetric] using d delta by simp
    ultimately show "d \<in> set pre" using d by auto
  qed
  have u: "sint (or_scheduled_utc_seconds r) = lm_utc_seconds m"
    using usable_in_i64 [OF usable range] by (simp add: r resolution_of_def Let_def sint_i64_of_int)
  have "day' - day_at rules ?after \<in> {0..<delta}"
    if "day_at rules ?after \<le> day'" "day' < day" for day' using that by (simp add: day_def)
  with pre first have earlier: "\<not> usable rules schedule ?after day' m'"
    if "day_at rules ?after \<le> day'" "day' < day" "due_day schedule day'" for day' m'
    using that by (metis add_diff_cancel_left' add.commute diff_add_cancel subsetD)
  note secs = local_of_seconds [OF time, of day]
  have exact: "map_local rules (local_of schedule day) = Some m" "?after < lm_utc_seconds m"
    "lm_shifted_for_gap m \<Longrightarrow> lm_resolved_local_seconds m div 86400 = day"
    using usable unfolding usable_def by simp_all
  have kind: "if or_shifted_for_gap r
      then \<exists>t \<in> set (tz_transitions rules). skips t (local_of schedule day) \<and>
        or_scheduled_utc_seconds r = tr_at_utc_seconds t \<and>
        (sint (tr_at_utc_seconds t) + sint (tr_offset_after_seconds t)) div 86400 = day
      else reads rules (local_of schedule day) (sint (or_scheduled_utc_seconds r)) \<and>
        (\<forall>u. in_i64 u \<and> reads rules (local_of schedule day) u \<longrightarrow> sint (or_scheduled_utc_seconds r) \<le> u) \<and>
        or_utc_offset_seconds r = offset_at_utc rules (sint (or_scheduled_utc_seconds r)) \<and>
        or_resolved_local_hour r = ws_local_hour schedule \<and>
        or_resolved_local_minute r = ws_local_minute schedule"
  proof (cases "lm_shifted_for_gap m")
    case True
    with map_local_spec [OF range, of rules] exact obtain t where
      "t \<in> set (tz_transitions rules)" "skips t (local_of schedule day)"
      "lm_utc_seconds m = sint (tr_at_utc_seconds t)"
      "lm_resolved_local_seconds m = sint (tr_at_utc_seconds t) + sint (tr_offset_after_seconds t)" by auto
    with True exact(3) show ?thesis by (auto simp: r resolution_of_def Let_def)
  next
    case False
    with map_local_spec [OF range, of rules] exact(1)
    have m: "reads rules (local_of schedule day) (lm_utc_seconds m)"
      "lm_resolved_local_seconds m = local_of schedule day"
      "lm_offset_seconds m = offset_at_utc rules (lm_utc_seconds m)"
      "\<And>u. in_i64 u \<Longrightarrow> reads rules (local_of schedule day) u \<Longrightarrow> lm_utc_seconds m \<le> u" by auto
    with False u secs hour_minute_back(1,2) [OF time] show ?thesis
      by (auto simp: r resolution_of_def Let_def)
  qed
  have "day_at rules ?after \<le> day" "day \<le> day_at rules ?after + 14" using delta by (simp_all add: day_def)
  moreover have "or_local_date r = date" by (simp add: r resolution_of_def Let_def)
  moreover have "?after < sint (or_scheduled_utc_seconds r)" using u exact(2) by simp
  ultimately show ?thesis using due date earlier kind by (intro conjI exI [of _ day] allI impI) simp_all
qed

section \<open>No value leaves 64 bits\<close>

text \<open>
  The sums of the search: the ends of a gap, an instant that is tried for an offset, and the
  start of a day. The guards of the code keep each of them in the signed range.
\<close>

lemma gap_ends_in_i64:
  assumes "has_valid_transition_chain rules" and "t \<in> set (tz_transitions rules)"
  shows "in_i64 (sint (tr_at_utc_seconds t) + sint (tr_offset_before_seconds t)) \<and>
    in_i64 (sint (tr_at_utc_seconds t) + sint (tr_offset_after_seconds t))"
  using chain_walk_offsets [of _ None "tz_transitions rules" t] assms sint_i64_ge sint_i64_le can_add_iff
  by (auto simp: has_valid_transition_chain_def)

lemma candidate_in_i64:
  "in_i64 local \<Longrightarrow> can_add local (- sint offset) \<Longrightarrow> in_i64 (local + - sint offset)"
  by (simp only: can_add_iff)

lemma day_start_in_i64: "start_of_day_seconds day = Some start \<Longrightarrow> in_i64 start"
  by (auto simp: start_of_day_Some)

section \<open>The search always ends on a day\<close>

lemma weekday_from_days_mod:
  "weekday_from_days days =
     [Monday, Tuesday, Wednesday, Thursday, Friday, Saturday, Sunday] ! nat ((days + 3) mod 7)"
proof -
  have split: "(days + 3) sdiv 7 * 7 + (days + 3) smod 7 = days + 3" by (rule sdiv_mult_smod_eq)
  show ?thesis
  proof (cases "0 \<le> days + 3")
    case True
    then have "(days + 3) smod 7 = (days + 3) mod 7"
      using split sdiv_nonneg [OF True, of 7] by (simp add: minus_div_mult_eq_mod [symmetric])
    moreover have "\<not> (days + 3) mod 7 < 0" by (simp add: not_less)
    ultimately show ?thesis by (simp only: weekday_from_days_def Let_def if_False)
  next
    case False
    let ?r = "(days + 3) smod 7"
    have "(days + 3) sdiv 7 = - (- (days + 3) div 7)" using False by (intro sdiv_neg) simp_all
    with split have r: "- 7 < ?r" "?r \<le> 0" by linarith+
    have "(days + 3) mod 7 = ((days + 3) sdiv 7 * 7 + ?r) mod 7" by (simp only: split)
    also have "\<dots> = ?r mod 7" by (simp only: mod_mult_self3)
    finally have "(days + 3) mod 7 = ?r mod 7" .
    moreover have "?r mod 7 = (if ?r < 0 then ?r + 7 else ?r)"
      using r by (cases "?r < 0") (simp_all add: mod_pos_pos_trivial [of "?r + 7" 7, simplified])
    ultimately show ?thesis by (simp add: weekday_from_days_def Let_def)
  qed
qed

lemma weekday_within_a_week: "\<exists>delta. k \<le> delta \<and> delta < k + 7 \<and> weekday_from_days (anchor + delta) = w"
proof -
  define i where "i = int (weekday_index w)"
  define delta where "delta = k + (i - (anchor + k + 3)) mod 7"
  have "(anchor + delta + 3) mod 7 = (anchor + k + 3 + (i - (anchor + k + 3)) mod 7) mod 7"
    by (simp add: delta_def algebra_simps)
  also have "\<dots> = i mod 7" by (simp add: mod_simps)
  also have "\<dots> = i" by (cases w) (simp_all add: i_def)
  finally have "weekday_from_days (anchor + delta) = w"
    by (cases w) (simp_all add: weekday_from_days_mod i_def)
  moreover have "k \<le> delta" "delta < k + 7" by (simp_all add: delta_def)
  ultimately show ?thesis by blast
qed

lemma some_weekday_selected:
  fixes mask :: u8
  assumes "mask \<noteq> 0" "mask AND NOT kAllIsoWeekdays = 0"
  shows "\<exists>w. mask AND weekday_bit w \<noteq> 0"
proof (rule ccontr)
  assume "\<nexists>w. mask AND weekday_bit w \<noteq> 0"
  then have no: "mask AND weekday_bit w = 0" for w by simp
  have all: "(kAllIsoWeekdays :: u8) = weekday_bit Monday OR weekday_bit Tuesday OR weekday_bit Wednesday OR
      weekday_bit Thursday OR weekday_bit Friday OR weekday_bit Saturday OR weekday_bit Sunday"
    by (simp add: kAllIsoWeekdays_def weekday_bit_def)
  have "mask AND kAllIsoWeekdays = 0" unfolding all bit.conj_disj_distrib no by simp
  moreover have "mask = mask AND (kAllIsoWeekdays OR NOT kAllIsoWeekdays)" by simp
  ultimately show False using assms unfolding bit.conj_disj_distrib by simp
qed

lemma civil_from_days_defined:
  assumes "- 700000000000 \<le> day" "day \<le> 700000000000"
  shows "civil_from_days day \<noteq> None"
proof -
  obtain y doy where y: "march_start y \<le> day + 719468" "day + 719468 < march_start (y + 1)"
    and civil: "civil_from_days day = (let date = date_of_march y doy
      in if dt_year date < - 2147483648 \<or> 2147483647 < dt_year date then None else Some date)"
    by (rule civil_from_days_march)
  have "march_start 2147483647 = 784352295939" "march_start (- 2147483648) = - 784352296305"
    by (simp_all add: march_start_def)
  with y assms have "march_start y < march_start 2147483647" "march_start (- 2147483648) < march_start (y + 1)"
    by linarith+
  then have "y < 2147483647" "- 2147483648 < y + 1"
    using march_start_strict [of 2147483647 y] march_start_strict [of "y + 1" "- 2147483648"]
    by (metis less_asym linorder_neqE_linordered_idom less_irrefl)+
  then show ?thesis unfolding civil by (simp add: date_of_march_def Let_def)
qed

text \<open>As long as the days stay in the range of the calendar, the search only fails by running out of days.\<close>

lemma resolve_days_total:
  assumes "ws_local_hour schedule \<le> 23" "ws_local_minute schedule \<le> 59"
    and "\<And>delta. delta \<in> set deltas \<Longrightarrow> - 700000000000 \<le> anchor + delta \<and> anchor + delta \<le> 700000000000"
  shows "or_status (resolve_days schedule rules after_utc anchor deltas) =
    (if \<exists>delta \<in> set deltas. due_day schedule (anchor + delta) \<and>
          (\<exists>m. usable rules schedule after_utc (anchor + delta) m)
     then OR_resolved else OR_no_occurrence)"
  using assms(3)
proof (induction deltas)
  case Nil
  then show ?case by (simp add: failed_resolution_def)
next
  case (Cons delta deltas)
  let ?day = "anchor + delta"
  have day: "kSecondsPerDay = 86400" by (simp add: kSecondsPerDay_def)
  have near: "- 700000000000 \<le> ?day" "?day \<le> 700000000000" using Cons.prems [of delta] by simp_all
  define first where "first = ?day * 86400"
  have start: "start_of_day_seconds ?day = Some first"
    using near unfolding first_def start_of_day_Some by simp
  have fits: "\<not> i64_max - seconds_in_requested_day schedule < first"
    using near hour_minute_back(4) [OF assms(1,2)] by (simp add: seconds_in_requested_day_def first_def)
  have local_time: "first + seconds_in_requested_day schedule = local_of schedule ?day"
    unfolding local_of_def first_def by (rule refl)
  obtain date where date: "civil_from_days ?day = Some date"
    using civil_from_days_defined [OF near] by auto
  have IH: "or_status (resolve_days schedule rules after_utc anchor deltas) =
    (if \<exists>delta \<in> set deltas. due_day schedule (anchor + delta) \<and>
          (\<exists>m. usable rules schedule after_utc (anchor + delta) m)
     then OR_resolved else OR_no_occurrence)"
    by (rule Cons.IH) (use Cons.prems in simp)
  have "or_status (resolve_days schedule rules after_utc anchor (delta # deltas)) =
    (if due_day schedule ?day \<and> (\<exists>m. usable rules schedule after_utc ?day m) then OR_resolved
     else or_status (resolve_days schedule rules after_utc anchor deltas))"
  proof (cases "due_day schedule ?day")
    case False
    then show ?thesis by (simp add: due_day_def Let_def)
  next
    case True
    then show ?thesis
      by (cases "map_local rules (local_of schedule ?day)")
        (simp_all add: due_day_def Let_def start fits local_time date usable_def day floor_div_eq)
  qed
  with IH show ?case by simp
qed

lemma valid_resolution:
  assumes "ws_local_hour schedule \<le> 23" "ws_local_minute schedule \<le> 59"
    and "ws_iso_weekday_mask schedule \<noteq> 0" "ws_iso_weekday_mask schedule AND NOT kAllIsoWeekdays = 0"
    and "ws_timezone_name schedule = tz_name rules" "tz_name rules \<noteq> []"
    and "ws_timezone_rules_version schedule = tz_version rules" "tz_version rules \<noteq> []"
    and "has_valid_transition_chain rules"
    and "- 30000000000000000 \<le> sint after_utc" "sint after_utc \<le> 30000000000000000"
  shows "resolve_next_occurrence schedule rules after_utc =
      resolve_days schedule rules (sint after_utc) (day_at rules (sint after_utc)) [0..14]"
    and "\<And>delta. delta \<in> {0..14} \<Longrightarrow>
      - 700000000000 \<le> day_at rules (sint after_utc) + delta \<and>
      day_at rules (sint after_utc) + delta \<le> 700000000000"
proof -
  note offset = valid_chain_offset [OF assms(9), of "sint after_utc"]
  have "kSecondsPerDay = 86400" by (simp add: kSecondsPerDay_def)
  with assms offset show "resolve_next_occurrence schedule rules after_utc =
      resolve_days schedule rules (sint after_utc) (day_at rules (sint after_utc)) [0..14]"
    by (simp add: resolve_next_occurrence_def Let_def day_at_def floor_div_eq not_less)
  have "- 600000000000 \<le> day_at rules (sint after_utc)" "day_at rules (sint after_utc) \<le> 600000000000"
    unfolding day_at_def using offset assms(10,11) by linarith+
  then show "- 700000000000 \<le> day_at rules (sint after_utc) + delta \<and>
      day_at rules (sint after_utc) + delta \<le> 700000000000" if "delta \<in> {0..14}" for delta
    using that by simp
qed

text \<open>On a day well after the given instant, and outside gaps that end on another day, the time is usable.\<close>

lemma later_day_usable:
  assumes "has_valid_transition_chain rules"
    and time: "ws_local_hour schedule \<le> 23" "ws_local_minute schedule \<le> 59"
    and near: "- 700000000000 \<le> day" "day \<le> 700000000000"
    and later: "day_at rules after_utc + 4 \<le> day"
    and gaps: "\<forall>t \<in> set (tz_transitions rules).
      (sint (tr_at_utc_seconds t) + sint (tr_offset_before_seconds t)) div 86400 <
      (sint (tr_at_utc_seconds t) + sint (tr_offset_after_seconds t)) div 86400 \<longrightarrow>
      \<not> skips t (local_of schedule day)"
  shows "\<exists>m. usable rules schedule after_utc day m"
proof -
  define l where "l = local_of schedule day"
  have l: "day * 86400 \<le> l" "l < day * 86400 + 86400"
    using hour_minute_back(3,4) [OF time] by (simp_all add: l_def local_of_def seconds_in_requested_day_def)
  with near have range: "in_i64 (l - 86400)" "in_i64 (l + 86400)" "in_i64 l" by linarith+
  from map_local_defined [OF assms(1) range(1,2)] obtain m where m: "map_local rules l = Some m" by auto
  have "after_utc + sint (offset_at_utc rules after_utc) < (day_at rules after_utc + 1) * 86400"
    unfolding day_at_def by simp
  moreover have "(day_at rules after_utc + 4) * 86400 \<le> day * 86400" using later by simp
  ultimately have far: "after_utc < l - 86400"
    using valid_chain_offset [OF assms(1), of after_utc] l by (simp add: distrib_right)
  have "usable rules schedule after_utc day m"
  proof (cases "lm_shifted_for_gap m")
    case True
    with map_local_spec [OF range(3), of rules] m obtain t where t: "t \<in> set (tz_transitions rules)"
      "skips t l" "lm_utc_seconds m = sint (tr_at_utc_seconds t)"
      "lm_resolved_local_seconds m = sint (tr_at_utc_seconds t) + sint (tr_offset_after_seconds t)" by auto
    have "sint (tr_offset_after_seconds t) \<le> 86400"
      using chain_walk_offsets [of _ None "tz_transitions rules" t] assms(1) t(1)
      by (auto simp: has_valid_transition_chain_def valid_utc_offset_def kSecondsPerDay_def)
    with t(2) far have 1: "after_utc < lm_utc_seconds m" unfolding t(3) skips_def by linarith
    have "(sint (tr_at_utc_seconds t) + sint (tr_offset_after_seconds t)) div 86400 \<le>
        (sint (tr_at_utc_seconds t) + sint (tr_offset_before_seconds t)) div 86400"
      using gaps t(1,2) by (auto simp: l_def [symmetric] not_less)
    then have "lm_resolved_local_seconds m div 86400 = day"
      using t(2) l unfolding t(4) skips_def by linarith
    with m 1 show ?thesis by (simp add: usable_def l_def)
  next
    case False
    with map_local_spec [OF range(3), of rules] m have "reads rules l (lm_utc_seconds m)" by auto
    with valid_chain_offset [OF assms(1), of "lm_utc_seconds m"] far
    have "after_utc < lm_utc_seconds m" unfolding reads_def by linarith
    with m False show ?thesis by (simp add: usable_def l_def)
  qed
  then show ?thesis by blast
qed

section \<open>Properties\<close>

text \<open>A table with the two clock changes of 2026 in Berlin, and a schedule for Sundays at 02:30.\<close>

definition sample_rules :: timezone_rules where
  "sample_rules =
     \<lparr>tz_name = ''Europe/Berlin'', tz_version = ''iana-2026a'', tz_initial_utc_offset_seconds = 3600,
      tz_transitions =
        [\<lparr>tr_at_utc_seconds = 1774746000, tr_offset_before_seconds = 3600, tr_offset_after_seconds = 7200\<rparr>,
         \<lparr>tr_at_utc_seconds = 1792890000, tr_offset_before_seconds = 7200, tr_offset_after_seconds = 3600\<rparr>]\<rparr>"

definition sample_schedule :: weekly_alarm_schedule where
  "sample_schedule =
     \<lparr>ws_local_hour = 2, ws_local_minute = 30, ws_iso_weekday_mask = 64,
      ws_timezone_name = ''Europe/Berlin'', ws_timezone_rules_version = ''iana-2026a''\<rparr>"

text \<open>
  C26: what a resolved occurrence is. It lies strictly after the given instant, on a local date
  whose weekday is selected, at most 14 days after the local day of that instant, and no earlier
  selected day has a usable instant. Unless the requested time is skipped, it is the first
  instant at which the clocks show exactly the requested hour and minute on that date; if it is
  skipped, it is the end of the gap, still on that date.
\<close>

theorem resolved_occurrence_exact:
  assumes "resolve_next_occurrence schedule rules after_utc = r" and "or_status r = OR_resolved"
  shows "sint after_utc < sint (or_scheduled_utc_seconds r) \<and>
    (\<exists>day. day_at rules (sint after_utc) \<le> day \<and> day \<le> day_at rules (sint after_utc) + 14 \<and>
       due_day schedule day \<and> civil_from_days day = Some (or_local_date r) \<and>
       (\<forall>day'. day_at rules (sint after_utc) \<le> day' \<and> day' < day \<and> due_day schedule day' \<longrightarrow>
          (\<forall>m. \<not> usable rules schedule (sint after_utc) day' m)) \<and>
       (if or_shifted_for_gap r
        then \<exists>t \<in> set (tz_transitions rules). skips t (local_of schedule day) \<and>
          or_scheduled_utc_seconds r = tr_at_utc_seconds t \<and>
          (sint (tr_at_utc_seconds t) + sint (tr_offset_after_seconds t)) div 86400 = day
        else reads rules (local_of schedule day) (sint (or_scheduled_utc_seconds r)) \<and>
          (\<forall>u. in_i64 u \<and> reads rules (local_of schedule day) u \<longrightarrow> sint (or_scheduled_utc_seconds r) \<le> u) \<and>
          or_utc_offset_seconds r = offset_at_utc rules (sint (or_scheduled_utc_seconds r)) \<and>
          or_resolved_local_hour r = ws_local_hour schedule \<and>
          or_resolved_local_minute r = ws_local_minute schedule))"
  by (rule resolved_occurrence_spec [OF assms])

text \<open>02:30 on the day of the spring change: skipped, so the alarm rings when the gap ends, at 03:00.\<close>

lemma resolved_occurrence_exact_witness:
  "sint (1774656000 :: i64) < sint (or_scheduled_utc_seconds (resolve_next_occurrence sample_schedule sample_rules 1774656000)) \<and>
   or_shifted_for_gap (resolve_next_occurrence sample_schedule sample_rules 1774656000)"
proof -
  have "or_status (resolve_next_occurrence sample_schedule sample_rules 1774656000) = OR_resolved"
    by code_simp
  moreover have "or_shifted_for_gap (resolve_next_occurrence sample_schedule sample_rules 1774656000)"
    by code_simp
  ultimately show ?thesis
    using resolved_occurrence_exact [OF refl, of sample_schedule sample_rules 1774656000] by blast
qed

text \<open>
  C25: an alarm never silently disappears. With an accepted schedule, a valid table and a time
  within the range of the calendar, the search finds an occurrence, unless the table has a
  forward jump that passes midnight and skips the requested time.
\<close>

theorem accepted_schedule_resolves:
  assumes "ws_local_hour schedule \<le> 23" "ws_local_minute schedule \<le> 59"
    and "ws_iso_weekday_mask schedule \<noteq> 0" "ws_iso_weekday_mask schedule AND NOT kAllIsoWeekdays = 0"
    and "ws_timezone_name schedule = tz_name rules" "tz_name rules \<noteq> []"
    and "ws_timezone_rules_version schedule = tz_version rules" "tz_version rules \<noteq> []"
    and "has_valid_transition_chain rules"
    and "- 30000000000000000 \<le> sint after_utc" "sint after_utc \<le> 30000000000000000"
    and "\<And>t day. t \<in> set (tz_transitions rules) \<Longrightarrow> skips t (local_of schedule day) \<Longrightarrow>
      (sint (tr_at_utc_seconds t) + sint (tr_offset_after_seconds t)) div 86400 \<le>
      (sint (tr_at_utc_seconds t) + sint (tr_offset_before_seconds t)) div 86400"
  shows "or_status (resolve_next_occurrence schedule rules after_utc) = OR_resolved"
proof -
  let ?anchor = "day_at rules (sint after_utc)"
  note valid = valid_resolution [OF assms(1-11)]
  obtain w where w: "ws_iso_weekday_mask schedule AND weekday_bit w \<noteq> 0"
    using some_weekday_selected [OF assms(3,4)] by blast
  obtain delta where delta: "4 \<le> delta" "delta < 11" "weekday_from_days (?anchor + delta) = w"
    using weekday_within_a_week [of 4 ?anchor w] by auto
  have "due_day schedule (?anchor + delta)" using w delta(3) by (simp add: due_day_def)
  moreover have "\<exists>m. usable rules schedule (sint after_utc) (?anchor + delta) m"
    by (rule later_day_usable [OF assms(9,1,2)])
      (use valid(2) [of delta] delta assms(12) in \<open>auto simp: not_less [symmetric]\<close>)
  moreover have "delta \<in> set [0..14]" using delta by simp
  ultimately show ?thesis
    unfolding valid(1) using resolve_days_total [OF assms(1,2), of "[0..14]" ?anchor rules "sint after_utc"]
      valid(2) by auto
qed

lemma accepted_schedule_resolves_witness:
  "or_status (resolve_next_occurrence sample_schedule sample_rules 1774656000) = OR_resolved"
proof (rule accepted_schedule_resolves)
  show "has_valid_transition_chain sample_rules" by code_simp
  show "ws_iso_weekday_mask sample_schedule AND NOT kAllIsoWeekdays = 0" by code_simp
qed (auto simp: sample_schedule_def sample_rules_def)

end
