(* ===== verification/Schedule_Materializer.thy ===== *)
theory Schedule_Materializer
  imports Recurrence_Properties Schedule_Record
begin

text \<open>
  The schedule materializer, \<open>schedule_materializer.cpp\<close>: a list of weekly alarm definitions
  becomes a list of dated entries for the store, each with the next instant of its weekly time,
  or the whole list is refused.
\<close>

section \<open>Types\<close>

record weekly_alarm_definition =
  wd_id :: string
  wd_schedule_revision :: u64
  wd_enabled :: bool
  wd_schedule :: weekly_alarm_schedule

datatype materialization_status =
    MS_materialized
  | MS_invalid_input
  | MS_missing_timezone_rules
  | MS_invalid_rules
  | MS_invalid_schedule
  | MS_out_of_range

record materialized_alarm =
  ma_stored_alarm :: stored_alarm_definition
  ma_local_date :: civil_date
  ma_resolved_local_hour :: u8
  ma_resolved_local_minute :: u8
  ma_utc_offset_seconds :: i32
  ma_shifted_for_gap :: bool
  ma_ambiguous_fold :: bool

record materialization_failure =
  mf_alarm_id :: string
  mf_resolver_status :: occurrence_resolution_status

record materialization_result =
  mr_status :: materialization_status
  mr_alarms :: "materialized_alarm list"
  mr_failures :: "materialization_failure list"

section \<open>The loop\<close>

fun map_status :: "occurrence_resolution_status \<Rightarrow> materialization_status" where
  "map_status OR_invalid_schedule = MS_invalid_schedule"
| "map_status OR_invalid_rules = MS_invalid_rules"
| "map_status OR_out_of_range = MS_out_of_range"
| "map_status OR_no_occurrence = MS_invalid_schedule"
| "map_status OR_resolved = MS_materialized"

definition find_matching_rules ::
    "timezone_rules list \<Rightarrow> weekly_alarm_schedule \<Rightarrow> timezone_rules option" where
  "find_matching_rules rules schedule =
     List.find (\<lambda>candidate. tz_name candidate = ws_timezone_name schedule \<and>
       tz_version candidate = ws_timezone_rules_version schedule) rules"

definition valid_alarm_definition :: "weekly_alarm_definition \<Rightarrow> bool" where
  "valid_alarm_definition alarm \<longleftrightarrow> wd_id alarm \<noteq> [] \<and> wd_schedule_revision alarm \<noteq> 0"

text \<open>One failure: it is appended, and its status overwrites the one before.\<close>

definition push_failure ::
    "materialization_status \<Rightarrow> string \<Rightarrow> occurrence_resolution_status \<Rightarrow>
     materialization_result \<Rightarrow> materialization_result" where
  "push_failure status alarm_id resolver_status result =
     result\<lparr>mr_status := status,
            mr_failures := mr_failures result @
              [\<lparr>mf_alarm_id = alarm_id, mf_resolver_status = resolver_status\<rparr>]\<rparr>"

definition push_alarm :: "materialized_alarm \<Rightarrow> materialization_result \<Rightarrow> materialization_result" where
  "push_alarm alarm result = result\<lparr>mr_alarms := mr_alarms result @ [alarm]\<rparr>"

definition materialize_one ::
    "timezone_rules list \<Rightarrow> i64 \<Rightarrow> materialization_result \<Rightarrow> weekly_alarm_definition \<Rightarrow>
     materialization_result" where
  "materialize_one timezone_rules after_utc_seconds result alarm =
     (if \<not> valid_alarm_definition alarm
      then push_failure MS_invalid_input (wd_id alarm) OR_invalid_schedule result
      else if \<not> wd_enabled alarm
      then push_alarm
             \<lparr>ma_stored_alarm =
                \<lparr>sa_id = wd_id alarm, sa_schedule_revision = wd_schedule_revision alarm,
                 sa_enabled = False, sa_scheduled_utc_seconds = 0\<rparr>,
              ma_local_date = \<lparr>dt_year = 0, dt_month = 0, dt_day = 0\<rparr>,
              ma_resolved_local_hour = 0, ma_resolved_local_minute = 0,
              ma_utc_offset_seconds = 0, ma_shifted_for_gap = False, ma_ambiguous_fold = False\<rparr>
             result
      else case find_matching_rules timezone_rules (wd_schedule alarm) of
        None \<Rightarrow> push_failure MS_missing_timezone_rules (wd_id alarm) OR_invalid_rules result
      | Some rules \<Rightarrow>
          let occurrence = resolve_next_occurrence (wd_schedule alarm) rules after_utc_seconds in
          if or_status occurrence \<noteq> OR_resolved
          then push_failure (map_status (or_status occurrence)) (wd_id alarm) (or_status occurrence) result
          else push_alarm
             \<lparr>ma_stored_alarm =
                \<lparr>sa_id = wd_id alarm, sa_schedule_revision = wd_schedule_revision alarm,
                 sa_enabled = True,
                 sa_scheduled_utc_seconds = or_scheduled_utc_seconds occurrence\<rparr>,
              ma_local_date = or_local_date occurrence,
              ma_resolved_local_hour = or_resolved_local_hour occurrence,
              ma_resolved_local_minute = or_resolved_local_minute occurrence,
              ma_utc_offset_seconds = or_utc_offset_seconds occurrence,
              ma_shifted_for_gap = or_shifted_for_gap occurrence,
              ma_ambiguous_fold = or_ambiguous_fold occurrence\<rparr>
             result)"

text \<open>
  The comparison of \<open>std::sort\<close>. Entries that are equal under it, which needs a repeated
  identifier, are left in an unspecified order by \<open>std::sort\<close>; the model keeps their order.
\<close>

definition entry_key :: "materialized_alarm \<Rightarrow> int \<times> string" where
  "entry_key alarm =
     (sint (sa_scheduled_utc_seconds (ma_stored_alarm alarm)), sa_id (ma_stored_alarm alarm))"

definition materialize_next_schedule_entries ::
    "weekly_alarm_definition list \<Rightarrow> timezone_rules list \<Rightarrow> i64 \<Rightarrow> materialization_result" where
  "materialize_next_schedule_entries alarms timezone_rules after_utc_seconds =
     (let result = foldl (materialize_one timezone_rules after_utc_seconds)
            \<lparr>mr_status = MS_materialized, mr_alarms = [], mr_failures = []\<rparr> alarms
      in if mr_failures result \<noteq> [] then result\<lparr>mr_alarms := []\<rparr>
         else result\<lparr>mr_alarms := sort_key entry_key (mr_alarms result)\<rparr>)"

section \<open>The loop, declaratively\<close>

text \<open>
  What one definition contributes on its own: a failure with its status, or an entry. It does
  not depend on the definitions before it.
\<close>

definition contribution ::
    "timezone_rules list \<Rightarrow> i64 \<Rightarrow> weekly_alarm_definition \<Rightarrow>
     (materialization_status \<times> materialization_failure) + materialized_alarm" where
  "contribution timezone_rules after_utc alarm =
     (let r = materialize_one timezone_rules after_utc
                \<lparr>mr_status = MS_materialized, mr_alarms = [], mr_failures = []\<rparr> alarm
      in case mr_failures r of
           failure # _ \<Rightarrow> Inl (mr_status r, failure)
         | [] \<Rightarrow> Inr (hd (mr_alarms r)))"

lemma push_simps [simp]:
  "mr_status (push_failure s a o' r) = s"
  "mr_alarms (push_failure s a o' r) = mr_alarms r"
  "mr_failures (push_failure s a o' r) = mr_failures r @ [\<lparr>mf_alarm_id = a, mf_resolver_status = o'\<rparr>]"
  "mr_status (push_alarm m r) = mr_status r"
  "mr_alarms (push_alarm m r) = mr_alarms r @ [m]"
  "mr_failures (push_alarm m r) = mr_failures r"
  by (simp_all add: push_failure_def push_alarm_def)

lemma materialize_one_contribution:
  "materialize_one rules after_utc result alarm =
     (case contribution rules after_utc alarm of
        Inl (status, failure) \<Rightarrow>
          result\<lparr>mr_status := status, mr_failures := mr_failures result @ [failure]\<rparr>
      | Inr entry \<Rightarrow> push_alarm entry result)"
  by (simp add: contribution_def materialize_one_def Let_def push_failure_def push_alarm_def split: option.split)

definition failures_of where
  "failures_of rules after_utc alarms =
     concat (map (\<lambda>a. case contribution rules after_utc a of Inl f \<Rightarrow> [f] | Inr _ \<Rightarrow> []) alarms)"

definition entries_of where
  "entries_of rules after_utc alarms =
     concat (map (\<lambda>a. case contribution rules after_utc a of Inl _ \<Rightarrow> [] | Inr m \<Rightarrow> [m]) alarms)"

lemma materialize_fold:
  "foldl (materialize_one rules after_utc) r alarms =
     \<lparr>mr_status = (if failures_of rules after_utc alarms = [] then mr_status r
                   else fst (last (failures_of rules after_utc alarms))),
      mr_alarms = mr_alarms r @ entries_of rules after_utc alarms,
      mr_failures = mr_failures r @ map snd (failures_of rules after_utc alarms)\<rparr>"
proof (induction alarms arbitrary: r)
  case Nil
  then show ?case by (simp add: failures_of_def entries_of_def)
next
  case (Cons alarm alarms)
  then show ?case
    by (auto simp: materialize_one_contribution push_alarm_def failures_of_def entries_of_def
        split: sum.splits prod.splits)
qed

text \<open>A status that means success is never recorded with a failure.\<close>

lemma contribution_failure:
  "contribution rules after_utc alarm = Inl (status, failure) \<Longrightarrow>
     status \<noteq> MS_materialized \<and> mf_alarm_id failure = wd_id alarm"
  by (cases "or_status (resolve_next_occurrence (wd_schedule alarm)
        (the (find_matching_rules rules (wd_schedule alarm))) after_utc)")
    (auto simp: contribution_def materialize_one_def Let_def split: if_splits option.splits)

lemma contribution_entry:
  "contribution rules after_utc alarm = Inr m \<Longrightarrow>
     wd_id alarm \<noteq> [] \<and> wd_schedule_revision alarm \<noteq> 0 \<and>
     sa_id (ma_stored_alarm m) = wd_id alarm \<and>
     sa_schedule_revision (ma_stored_alarm m) = wd_schedule_revision alarm \<and>
     sa_enabled (ma_stored_alarm m) = wd_enabled alarm"
  by (auto simp: contribution_def materialize_one_def Let_def valid_alarm_definition_def
      split: if_splits option.splits)

lemma contribution_due:
  assumes "contribution rules after_utc alarm = Inr m" and "wd_enabled alarm"
  shows "\<exists>zone \<in> set rules. tz_name zone = ws_timezone_name (wd_schedule alarm) \<and>
      tz_version zone = ws_timezone_rules_version (wd_schedule alarm) \<and>
      (let r = resolve_next_occurrence (wd_schedule alarm) zone after_utc in
       or_status r = OR_resolved \<and>
       sa_scheduled_utc_seconds (ma_stored_alarm m) = or_scheduled_utc_seconds r \<and>
       ma_local_date m = or_local_date r \<and> ma_shifted_for_gap m = or_shifted_for_gap r \<and>
       ma_resolved_local_hour m = or_resolved_local_hour r \<and>
       ma_resolved_local_minute m = or_resolved_local_minute r)"
proof -
  from assms obtain zone where zone: "find_matching_rules rules (wd_schedule alarm) = Some zone"
    and r: "or_status (resolve_next_occurrence (wd_schedule alarm) zone after_utc) = OR_resolved"
    by (auto simp: contribution_def materialize_one_def Let_def split: if_splits option.splits)
  from zone have "zone \<in> set rules" "tz_name zone = ws_timezone_name (wd_schedule alarm)"
    "tz_version zone = ws_timezone_rules_version (wd_schedule alarm)"
    by (auto simp: find_matching_rules_def find_Some_iff)
  with assms zone r show ?thesis
    by (intro bexI [of _ zone])
      (auto simp: contribution_def materialize_one_def Let_def split: if_splits)
qed

section \<open>Properties\<close>

lemma materialize_result:
  "materialize_next_schedule_entries alarms rules after_utc =
     (if failures_of rules after_utc alarms = []
      then \<lparr>mr_status = MS_materialized,
            mr_alarms = sort_key entry_key (entries_of rules after_utc alarms), mr_failures = []\<rparr>
      else \<lparr>mr_status = fst (last (failures_of rules after_utc alarms)), mr_alarms = [],
            mr_failures = map snd (failures_of rules after_utc alarms)\<rparr>)"
  by (simp add: materialize_next_schedule_entries_def materialize_fold Let_def)

lemma failures_of_status:
  "f \<in> set (failures_of rules after_utc alarms) \<Longrightarrow> fst f \<noteq> MS_materialized"
  by (auto simp: failures_of_def dest: contribution_failure [OF sym] split: sum.splits)

lemma entries_of_definitions:
  "failures_of rules after_utc alarms = [] \<Longrightarrow>
   map (\<lambda>m. (sa_id (ma_stored_alarm m), sa_schedule_revision (ma_stored_alarm m), sa_enabled (ma_stored_alarm m)))
     (entries_of rules after_utc alarms) =
   map (\<lambda>a. (wd_id a, wd_schedule_revision a, wd_enabled a)) alarms"
  by (induction alarms)
    (auto simp: failures_of_def entries_of_def contribution_entry split: sum.splits)

text \<open>
  C29: materialization is all or nothing. If every definition can be dated, each one has exactly
  one entry, with its identifier, revision and enabled flag, and the entries are sorted by
  instant and then by identifier. If any cannot, no entry is returned: every refused definition
  is reported, in order, and the status is that of the last one, never success.
\<close>

theorem materialize_all_or_nothing:
  "let r = materialize_next_schedule_entries alarms rules after_utc in
   if failures_of rules after_utc alarms = []
   then mr_status r = MS_materialized \<and> mr_failures r = [] \<and> sorted (map entry_key (mr_alarms r)) \<and>
     {# (sa_id (ma_stored_alarm m), sa_schedule_revision (ma_stored_alarm m), sa_enabled (ma_stored_alarm m)).
        m \<in># mset (mr_alarms r) #} =
     {# (wd_id a, wd_schedule_revision a, wd_enabled a). a \<in># mset alarms #}
   else mr_alarms r = [] \<and> mr_status r \<noteq> MS_materialized \<and>
     mr_status r = fst (last (failures_of rules after_utc alarms)) \<and>
     mr_failures r = map snd (failures_of rules after_utc alarms)"
proof -
  have "fst (last (failures_of rules after_utc alarms)) \<noteq> MS_materialized"
    if "failures_of rules after_utc alarms \<noteq> []"
    by (rule failures_of_status [OF last_in_set [OF that]])
  moreover have "{# (sa_id (ma_stored_alarm m), sa_schedule_revision (ma_stored_alarm m),
        sa_enabled (ma_stored_alarm m)). m \<in># mset (entries_of rules after_utc alarms) #} =
     {# (wd_id a, wd_schedule_revision a, wd_enabled a). a \<in># mset alarms #}"
    if "failures_of rules after_utc alarms = []"
    using arg_cong [OF entries_of_definitions [OF that], of mset] by simp
  ultimately show ?thesis by (simp add: materialize_result Let_def)
qed

lemma entries_of_member:
  "m \<in> set (entries_of rules after_utc alarms) \<longleftrightarrow>
     (\<exists>alarm \<in> set alarms. contribution rules after_utc alarm = Inr m)"
  by (force simp: entries_of_def split: sum.splits)

text \<open>
  C30: every enabled entry is dated in the future, on a selected weekday of its definition, and,
  unless the clocks skip the time, at an instant at which the clocks of the zone that the
  definition names show exactly the hour and minute it asks for.
\<close>

theorem materialized_entries_due:
  assumes "mr_status (materialize_next_schedule_entries alarms rules after_utc) = MS_materialized"
    and "m \<in> set (mr_alarms (materialize_next_schedule_entries alarms rules after_utc))"
    and "sa_enabled (ma_stored_alarm m)"
  shows "sint after_utc < sint (sa_scheduled_utc_seconds (ma_stored_alarm m)) \<and>
    (\<exists>alarm \<in> set alarms. \<exists>zone \<in> set rules. \<exists>day.
       wd_id alarm = sa_id (ma_stored_alarm m) \<and>
       tz_name zone = ws_timezone_name (wd_schedule alarm) \<and>
       tz_version zone = ws_timezone_rules_version (wd_schedule alarm) \<and>
       due_day (wd_schedule alarm) day \<and> civil_from_days day = Some (ma_local_date m) \<and>
       (if ma_shifted_for_gap m
        then \<exists>t \<in> set (tz_transitions zone). skips t (local_of (wd_schedule alarm) day) \<and>
          sa_scheduled_utc_seconds (ma_stored_alarm m) = tr_at_utc_seconds t
        else reads zone (local_of (wd_schedule alarm) day)
          (sint (sa_scheduled_utc_seconds (ma_stored_alarm m)))))"
proof -
  let ?fs = "failures_of rules after_utc alarms"
  have "fst (last ?fs) \<noteq> MS_materialized" if "?fs \<noteq> []"
    by (rule failures_of_status [OF last_in_set [OF that]])
  with assms(1) have "?fs = []" by (auto simp: materialize_result split: if_splits)
  with assms(2) obtain alarm where alarm: "alarm \<in> set alarms" "contribution rules after_utc alarm = Inr m"
    by (auto simp: materialize_result entries_of_member)
  with contribution_entry [OF alarm(2)] assms(3) have id: "wd_id alarm = sa_id (ma_stored_alarm m)"
    and enabled: "wd_enabled alarm" by simp_all
  from contribution_due [OF alarm(2) enabled] obtain zone r where zone: "zone \<in> set rules"
    "tz_name zone = ws_timezone_name (wd_schedule alarm)"
    "tz_version zone = ws_timezone_rules_version (wd_schedule alarm)"
    and r: "resolve_next_occurrence (wd_schedule alarm) zone after_utc = r" "or_status r = OR_resolved"
      "sa_scheduled_utc_seconds (ma_stored_alarm m) = or_scheduled_utc_seconds r"
      "ma_local_date m = or_local_date r" "ma_shifted_for_gap m = or_shifted_for_gap r"
    by (auto simp: Let_def)
  from resolved_occurrence_spec [OF r(1,2)] obtain day where day: "due_day (wd_schedule alarm) day"
    "civil_from_days day = Some (or_local_date r)"
    and due: "sint after_utc < sint (or_scheduled_utc_seconds r)"
    and kind: "if or_shifted_for_gap r
      then \<exists>t \<in> set (tz_transitions zone). skips t (local_of (wd_schedule alarm) day) \<and>
        or_scheduled_utc_seconds r = tr_at_utc_seconds t
      else reads zone (local_of (wd_schedule alarm) day) (sint (or_scheduled_utc_seconds r))"
    by (metis (no_types, lifting))
  show ?thesis
    by (intro conjI bexI [of _ alarm] bexI [of _ zone] exI [of _ day])
      (use id zone r day due kind alarm(1) in simp_all)
qed

text \<open>A disabled alarm and one on Sundays at 02:30, before the day of the spring change in Berlin.\<close>

definition sample_alarms :: "weekly_alarm_definition list" where
  "sample_alarms =
     [\<lparr>wd_id = ''nap'', wd_schedule_revision = 3, wd_enabled = False, wd_schedule = sample_schedule\<rparr>,
      \<lparr>wd_id = ''sunday'', wd_schedule_revision = 4, wd_enabled = True, wd_schedule = sample_schedule\<rparr>]"

lemma materialized_entries_due_witness:
  "let m = mr_alarms (materialize_next_schedule_entries sample_alarms [sample_rules] 1774656000) ! 1 in
   sint (1774656000 :: i64) < sint (sa_scheduled_utc_seconds (ma_stored_alarm m)) \<and>
   sa_scheduled_utc_seconds (ma_stored_alarm m) = 1774746000"
proof -
  let ?r = "materialize_next_schedule_entries sample_alarms [sample_rules] 1774656000"
  have run: "mr_status ?r = MS_materialized" "length (mr_alarms ?r) = 2"
    "sa_enabled (ma_stored_alarm (mr_alarms ?r ! 1))"
    "sa_scheduled_utc_seconds (ma_stored_alarm (mr_alarms ?r ! 1)) = 1774746000"
    by code_simp+
  have "mr_alarms ?r ! 1 \<in> set (mr_alarms ?r)" by (rule nth_mem) (simp add: run(2))
  with materialized_entries_due [OF run(1) this run(3)] run(4) show ?thesis unfolding Let_def by blast
qed

end
