(* ===== verification/Tzif_Rules.thy ===== *)
theory Tzif_Rules
  imports Recurrence_Properties "HOL-Library.Monad_Syntax"
begin

text \<open>
  The timezone data adapter, \<open>tzif_rules.cpp\<close>: TZif records (RFC 8536) become the flat offset
  tables of the resolver, cut to a window and held to an aggregate budget.

  The width of \<open>std::size_t\<close> is the parameter \<open>w\<close>: the firmware target has 32 bits, a host build
  64. Position arithmetic wraps at that width, and an access \<open>data[i]\<close> outside the span, which
  C++ leaves undefined, is the outcome \<open>Out_of_bounds\<close>.
\<close>

section \<open>Types\<close>

abbreviation kMaximumTzifRecordBytes :: nat where "kMaximumTzifRecordBytes \<equiv> 8192"
abbreviation kMaximumTzifTransitions :: nat where "kMaximumTzifTransitions \<equiv> 250"
abbreviation kMaximumTzifTypes :: nat where "kMaximumTzifTypes \<equiv> 128"
abbreviation kMaximumTzifDesignationBytes :: nat where "kMaximumTzifDesignationBytes \<equiv> 1024"
abbreviation kTzifTailCutoffUtcSeconds :: int where "kTzifTailCutoffUtcSeconds \<equiv> 2147483647"
abbreviation kTzifHeaderBytes :: nat where "kTzifHeaderBytes \<equiv> 44"
abbreviation kMaximumZoneNameBytes :: nat where "kMaximumZoneNameBytes \<equiv> 64"

datatype tzif_parse_status =
    TZ_ok
  | TZ_invalid_zone_name
  | TZ_truncated
  | TZ_bad_magic
  | TZ_unsupported_version
  | TZ_excessive_counts
  | TZ_bad_local_time_type
  | TZ_bad_transition_order
  | TZ_empty_local_time_table

record tzif_parse_issue =
  ti_zone_name :: string
  ti_status :: tzif_parse_status
  ti_detail_index :: nat

record parsed_tzif_zone =
  pz_zone_name :: string
  pz_initial_utc_offset_seconds :: i32
  pz_transitions :: "utc_offset_transition list"
  pz_source_transition_count :: nat
  pz_emitted_transition_count :: nat
  pz_truncated_at_cutoff :: bool

definition empty_parsed_zone :: parsed_tzif_zone where
  "empty_parsed_zone =
     \<lparr>pz_zone_name = [], pz_initial_utc_offset_seconds = 0, pz_transitions = [],
      pz_source_transition_count = 0, pz_emitted_transition_count = 0,
      pz_truncated_at_cutoff = False\<rparr>"

text \<open>What a step of the parser ends in: a bad access, an early return, or a value.\<close>

datatype 'a outcome = Out_of_bounds | Refused tzif_parse_status nat | Accepted 'a

fun and_then :: "'a outcome \<Rightarrow> ('a \<Rightarrow> 'b outcome) \<Rightarrow> 'b outcome" where
  "and_then Out_of_bounds f = Out_of_bounds"
| "and_then (Refused status detail) f = Refused status detail"
| "and_then (Accepted v) f = f v"

section \<open>The reader\<close>

definition size_add :: "nat \<Rightarrow> nat \<Rightarrow> nat \<Rightarrow> nat" where
  "size_add w a b = (a + b) mod 2 ^ w"

definition size_sub :: "nat \<Rightarrow> nat \<Rightarrow> nat \<Rightarrow> nat" where
  "size_sub w a b = (a + (2 ^ w - b)) mod 2 ^ w"

definition byte_at :: "bytes \<Rightarrow> nat \<Rightarrow> u8 option" where
  "byte_at data i = (if i < length data then Some (data ! i) else None)"

text \<open>\<open>value = (value << 8) | byte\<close>, over at most eight bytes.\<close>

definition big_endian :: "bytes \<Rightarrow> nat" where
  "big_endian bs = foldl (\<lambda>v b. v * 256 + unat b) 0 bs"

text \<open>
  Reading \<open>n\<close> bytes at a position. The result is \<open>None\<close> for an access out of bounds, otherwise
  the optional value of the C++ and the new position.
\<close>

definition read_big_endian :: "nat \<Rightarrow> nat \<Rightarrow> bytes \<Rightarrow> nat \<Rightarrow> (nat option \<times> nat) option" where
  "read_big_endian w n data position =
     (if length data < size_add w position n then Some (None, position)
      else do {
        bs \<leftarrow> those (map (\<lambda>i. byte_at data (size_add w position i)) [0..<n]);
        Some (Some (big_endian bs), size_add w position n) })"

definition reader_u32 :: "nat \<Rightarrow> bytes \<Rightarrow> nat \<Rightarrow> (nat option \<times> nat) option" where
  "reader_u32 w data position = read_big_endian w 4 data position"

definition reader_i64 :: "nat \<Rightarrow> bytes \<Rightarrow> nat \<Rightarrow> (i64 option \<times> nat) option" where
  "reader_i64 w data position = do {
     (raw, position) \<leftarrow> read_big_endian w 8 data position;
     Some (map_option word_of_nat raw, position) }"

definition reader_i32 :: "nat \<Rightarrow> bytes \<Rightarrow> nat \<Rightarrow> (i32 option \<times> nat) option" where
  "reader_i32 w data position = do {
     (raw, position) \<leftarrow> reader_u32 w data position;
     Some (map_option word_of_nat raw, position) }"

definition reader_u8 :: "nat \<Rightarrow> bytes \<Rightarrow> nat \<Rightarrow> (u8 option \<times> nat) option" where
  "reader_u8 w data position =
     (if length data < size_add w position 1 then Some (None, position)
      else do {
        b \<leftarrow> byte_at data position;
        Some (Some b, size_add w position 1) })"

text \<open>The characters \<open>TZif\<close>.\<close>

definition kTzifMagic :: bytes where
  "kTzifMagic = [0x54, 0x5A, 0x69, 0x66]"

definition has_tzif_magic :: "nat \<Rightarrow> bytes \<Rightarrow> nat \<Rightarrow> bool option" where
  "has_tzif_magic w data offset =
     (if length data < size_add w offset 4 then Some False
      else do {
        magic \<leftarrow> those (map (\<lambda>i. byte_at data (size_add w offset i)) [0, 1, 2, 3]);
        Some (magic = kTzifMagic) })"

section \<open>Counts\<close>

text \<open>The counts are 64-bit variables that hold 32-bit values; sums of them wrap at 64 bits.\<close>

record tzif_counts =
  tc_isut :: nat
  tc_isstd :: nat
  tc_leap :: nat
  tc_time :: nat
  tc_type :: nat
  tc_character :: nat

definition read_counts :: "nat \<Rightarrow> bytes \<Rightarrow> nat \<Rightarrow> (tzif_counts option \<times> nat) option" where
  "read_counts w data position = do {
     (isut, position) \<leftarrow> reader_u32 w data position;
     (isstd, position) \<leftarrow> reader_u32 w data position;
     (leap, position) \<leftarrow> reader_u32 w data position;
     (time, position) \<leftarrow> reader_u32 w data position;
     (type, position) \<leftarrow> reader_u32 w data position;
     (character, position) \<leftarrow> reader_u32 w data position;
     Some (do {
         isut \<leftarrow> isut; isstd \<leftarrow> isstd; leap \<leftarrow> leap; time \<leftarrow> time; type \<leftarrow> type;
         character \<leftarrow> character;
         Some \<lparr>tc_isut = isut, tc_isstd = isstd, tc_leap = leap, tc_time = time,
               tc_type = type, tc_character = character\<rparr> }, position) }"

definition fits_size :: "nat \<Rightarrow> nat \<Rightarrow> bool" where
  "fits_size w v \<longleftrightarrow> v \<le> 2 ^ w - 1"

definition block_byte_length :: "nat \<Rightarrow> tzif_counts \<Rightarrow> bool \<Rightarrow> nat option" where
  "block_byte_length w counts version_one =
     (let time_size = if version_one then 4 else 8;
          leap_size = if version_one then 8 else 12;
          total = (kTzifHeaderBytes + tc_time counts * time_size + tc_time counts +
                   tc_type counts * 6 + tc_character counts + tc_leap counts * leap_size +
                   tc_isstd counts + tc_isut counts) mod 2 ^ 64
      in if \<not> fits_size w total then None else Some total)"

definition valid_tzif_offset :: "i32 \<Rightarrow> bool" where
  "valid_tzif_offset offset \<longleftrightarrow> - 86400 \<le> sint offset \<and> sint offset \<le> 86400"

section \<open>The tables of the second block\<close>

text \<open>An empty optional is the early return with the given status.\<close>

definition demand ::
    "tzif_parse_status \<Rightarrow> nat \<Rightarrow> ('a option \<times> nat) option \<Rightarrow> ('a \<times> nat) outcome" where
  "demand status detail r =
     (case r of None \<Rightarrow> Out_of_bounds
      | Some (None, position) \<Rightarrow> Refused status detail
      | Some (Some v, position) \<Rightarrow> Accepted (v, position))"

text \<open>The three loops: \<open>n\<close> is the number of rounds left, \<open>i\<close> the index of the round.\<close>

fun read_times :: "nat \<Rightarrow> bytes \<Rightarrow> nat \<Rightarrow> nat \<Rightarrow> nat \<Rightarrow> i64 list \<Rightarrow> (i64 list \<times> nat) outcome" where
  "read_times w data 0 i position instants = Accepted (instants, position)"
| "read_times w data (Suc n) i position instants =
     and_then (demand TZ_truncated 0 (reader_i64 w data position)) (\<lambda>(v, position).
       if instants \<noteq> [] \<and> sint v \<le> sint (last instants) then Refused TZ_bad_transition_order i
       else read_times w data n (Suc i) position (instants @ [v]))"

fun read_type_indices ::
    "nat \<Rightarrow> bytes \<Rightarrow> nat \<Rightarrow> nat \<Rightarrow> nat \<Rightarrow> nat \<Rightarrow> u8 list \<Rightarrow> (u8 list \<times> nat) outcome" where
  "read_type_indices w data types 0 i position indices = Accepted (indices, position)"
| "read_type_indices w data types (Suc n) i position indices =
     and_then (demand TZ_bad_local_time_type i (reader_u8 w data position)) (\<lambda>(index, position).
       if types \<le> unat index then Refused TZ_bad_local_time_type i
       else read_type_indices w data types n (Suc i) position (indices @ [index]))"

definition read_local_time_type :: "nat \<Rightarrow> bytes \<Rightarrow> nat \<Rightarrow> (i32 option \<times> nat) option" where
  "read_local_time_type w data position = do {
     (gmtoff, position) \<leftarrow> reader_i32 w data position;
     (isdst, position) \<leftarrow> reader_u8 w data position;
     (abbrind, position) \<leftarrow> reader_u8 w data position;
     Some (if gmtoff = None \<or> isdst = None \<or> abbrind = None then None else gmtoff, position) }"

fun read_types :: "nat \<Rightarrow> bytes \<Rightarrow> nat \<Rightarrow> nat \<Rightarrow> nat \<Rightarrow> i32 list \<Rightarrow> (i32 list \<times> nat) outcome" where
  "read_types w data 0 i position types = Accepted (types, position)"
| "read_types w data (Suc n) i position types =
     and_then (demand TZ_truncated 0 (read_local_time_type w data position)) (\<lambda>(gmtoff, position).
       if \<not> valid_tzif_offset gmtoff then Refused TZ_bad_local_time_type i
       else read_types w data n (Suc i) position (types @ [gmtoff]))"

record tzif_table =
  tt_times :: "i64 list"
  tt_type_indices :: "u8 list"
  tt_types :: "i32 list"

text \<open>The start of the second block: the first block, whose counts give its length, is skipped.\<close>

definition locate_second_block :: "nat \<Rightarrow> bytes \<Rightarrow> nat outcome" where
  "locate_second_block w data =
     (case has_tzif_magic w data 0 of
        None \<Rightarrow> Out_of_bounds
      | Some False \<Rightarrow> Refused TZ_bad_magic 0
      | Some True \<Rightarrow>
          and_then (demand TZ_truncated 0 (read_counts w data 20)) (\<lambda>(first_counts, position).
            case block_byte_length w first_counts True of
              None \<Rightarrow> Refused TZ_excessive_counts 0
            | Some second_start \<Rightarrow>
                if length data < size_add w second_start 5 then Refused TZ_unsupported_version 0
                else case has_tzif_magic w data second_start of
                  None \<Rightarrow> Out_of_bounds
                | Some False \<Rightarrow> Refused TZ_unsupported_version 0
                | Some True \<Rightarrow>
                    (case byte_at data (size_add w second_start 4) of
                       None \<Rightarrow> Out_of_bounds
                     | Some version_char \<Rightarrow>
                         if version_char \<noteq> 0x32 \<and> version_char \<noteq> 0x33
                         then Refused TZ_unsupported_version 0
                         else if size_sub w (length data) kTzifHeaderBytes < second_start
                         then Refused TZ_truncated 0
                         else Accepted second_start)))"

definition read_second_block :: "nat \<Rightarrow> bytes \<Rightarrow> nat \<Rightarrow> tzif_table outcome" where
  "read_second_block w data second_start =
     and_then (demand TZ_truncated 0 (read_counts w data (size_add w second_start 20))) (\<lambda>(counts, position).
       if kMaximumTzifTransitions < tc_time counts \<or> kMaximumTzifTypes < tc_type counts \<or>
          kMaximumTzifDesignationBytes < tc_character counts
       then Refused TZ_excessive_counts 0
       else if tc_type counts = 0 then Refused TZ_empty_local_time_table 0
       else if (case block_byte_length w counts False of None \<Rightarrow> True
                | Some second_length \<Rightarrow> size_sub w (length data) second_start < second_length)
       then Refused TZ_truncated 0
       else
         and_then (read_times w data (tc_time counts) 0 position []) (\<lambda>(instants, position).
         and_then (read_type_indices w data (tc_type counts) (tc_time counts) 0 position []) (\<lambda>(indices, position).
         and_then (read_types w data (tc_type counts) 0 position []) (\<lambda>(types, position).
           Accepted \<lparr>tt_times = instants, tt_type_indices = indices, tt_types = types\<rparr>))))"

section \<open>Offset changes\<close>

text \<open>
  The loop over the transitions, as a walk over their instants and type indices: it stops at the
  tail cutoff and drops the transitions that keep the offset. The result is the list of
  emitted transitions and whether the cutoff was reached.
\<close>

fun emit_transitions ::
    "i32 list \<Rightarrow> (i64 \<times> u8) list \<Rightarrow> i32 \<Rightarrow> utc_offset_transition list \<Rightarrow>
     (utc_offset_transition list \<times> bool) outcome" where
  "emit_transitions types [] running_offset emitted = Accepted (emitted, False)"
| "emit_transitions types ((at, index) # rest) running_offset emitted =
     (if length types \<le> unat index then Out_of_bounds
      else
        let after_offset = types ! unat index in
        if kTzifTailCutoffUtcSeconds \<le> sint at then Accepted (emitted, True)
        else if after_offset = running_offset then emit_transitions types rest running_offset emitted
        else emit_transitions types rest after_offset
               (emitted @ [\<lparr>tr_at_utc_seconds = at, tr_offset_before_seconds = running_offset,
                            tr_offset_after_seconds = after_offset\<rparr>]))"

definition zone_of_table :: "string \<Rightarrow> tzif_table \<Rightarrow> parsed_tzif_zone outcome" where
  "zone_of_table zone_name table =
     (case tt_types table of
        [] \<Rightarrow> Out_of_bounds
      | initial_offset # rest \<Rightarrow>
          and_then (emit_transitions (tt_types table) (zip (tt_times table) (tt_type_indices table))
                      initial_offset []) (\<lambda>(transitions, truncated).
            Accepted
              \<lparr>pz_zone_name = zone_name, pz_initial_utc_offset_seconds = initial_offset,
               pz_transitions = transitions,
               pz_source_transition_count = length (tt_times table),
               pz_emitted_transition_count = length transitions,
               pz_truncated_at_cutoff = truncated\<rparr>))"

definition parse_tzif_steps :: "nat \<Rightarrow> string \<Rightarrow> bytes \<Rightarrow> parsed_tzif_zone outcome" where
  "parse_tzif_steps w zone_name data =
     (if zone_name = [] \<or> kMaximumZoneNameBytes < length zone_name
      then Refused TZ_invalid_zone_name (length zone_name)
      else if kMaximumTzifRecordBytes < length data
      then Refused TZ_excessive_counts (length data)
      else and_then (locate_second_block w data) (\<lambda>second_start.
           and_then (read_second_block w data second_start) (zone_of_table zone_name)))"

text \<open>The result and the output parameter, which a refusal leaves in its initial state.\<close>

definition parse_tzif_zone :: "nat \<Rightarrow> string \<Rightarrow> bytes \<Rightarrow> (tzif_parse_issue \<times> parsed_tzif_zone) option" where
  "parse_tzif_zone w zone_name data =
     (case parse_tzif_steps w zone_name data of
        Out_of_bounds \<Rightarrow> None
      | Refused status detail \<Rightarrow>
          Some (\<lparr>ti_zone_name = zone_name, ti_status = status, ti_detail_index = detail\<rparr>,
                empty_parsed_zone)
      | Accepted zone \<Rightarrow>
          Some (\<lparr>ti_zone_name = zone_name, ti_status = TZ_ok, ti_detail_index = 0\<rparr>, zone))"

section \<open>Rules for one window\<close>

record tzif_adapter_config =
  cf_version :: string
  cf_from_utc_seconds :: i64
  cf_until_utc_seconds :: i64
  cf_maximum_total_transitions :: nat

record tzif_adapter_result =
  tf_version :: string
  tf_zones :: "timezone_rules list"
  tf_issues :: "tzif_parse_issue list"
  tf_total_emitted_transitions :: nat
  tf_budget_exceeded :: bool

text \<open>The offset in effect at the start of the window.\<close>

fun fold_offset :: "int \<Rightarrow> i32 \<Rightarrow> utc_offset_transition list \<Rightarrow> i32" where
  "fold_offset from running [] = running"
| "fold_offset from running (transition # transitions) =
     (if from < sint (tr_at_utc_seconds transition) then running
      else fold_offset from (tr_offset_after_seconds transition) transitions)"

text \<open>
  The transitions inside the window and the running total; \<open>Inl\<close> is the total at which the
  budget was exceeded.
\<close>

fun emit_window ::
    "int \<Rightarrow> int \<Rightarrow> nat \<Rightarrow> utc_offset_transition list \<Rightarrow> utc_offset_transition list \<Rightarrow> nat \<Rightarrow>
     nat + (utc_offset_transition list \<times> nat)" where
  "emit_window from until maximum [] emitted so_far = Inr (emitted, so_far)"
| "emit_window from until maximum (transition # transitions) emitted so_far =
     (if sint (tr_at_utc_seconds transition) \<le> from
      then emit_window from until maximum transitions emitted so_far
      else if until < sint (tr_at_utc_seconds transition) then Inr (emitted, so_far)
      else if maximum < Suc so_far then Inl (Suc so_far)
      else emit_window from until maximum transitions (emitted @ [transition]) (Suc so_far))"

text \<open>
  The loop over the zones, with the rules prepared so far, the issues and the running total.
  The names of two zones may be equal; \<open>std::sort\<close> leaves their order open, and the model keeps
  it.
\<close>

fun build_zones ::
    "nat \<Rightarrow> tzif_adapter_config \<Rightarrow> (string \<times> bytes) list \<Rightarrow> timezone_rules list \<Rightarrow>
     tzif_parse_issue list \<Rightarrow> nat \<Rightarrow> tzif_adapter_result option" where
  "build_zones w config [] prepared issues so_far =
     (let zones = sort_key tz_name prepared in
      Some \<lparr>tf_version = cf_version config, tf_zones = zones, tf_issues = issues,
            tf_total_emitted_transitions = sum_list (map (\<lambda>rules. length (tz_transitions rules)) zones),
            tf_budget_exceeded = False\<rparr>)"
| "build_zones w config ((zone_name, data) # zones) prepared issues so_far =
     (case parse_tzif_zone w zone_name data of
        None \<Rightarrow> None
      | Some (parse_issue, parsed) \<Rightarrow>
          if ti_status parse_issue \<noteq> TZ_ok
          then build_zones w config zones prepared (issues @ [parse_issue]) so_far
          else
            let from = sint (cf_from_utc_seconds config);
                until = sint (cf_until_utc_seconds config);
                running = fold_offset from (pz_initial_utc_offset_seconds parsed) (pz_transitions parsed)
            in case emit_window from until (cf_maximum_total_transitions config)
                      (pz_transitions parsed) [] so_far of
                 Inl exceeded \<Rightarrow>
                   Some \<lparr>tf_version = cf_version config, tf_zones = [],
                         tf_issues = issues @
                           [\<lparr>ti_zone_name = pz_zone_name parsed, ti_status = TZ_excessive_counts,
                             ti_detail_index = exceeded\<rparr>],
                         tf_total_emitted_transitions = 0, tf_budget_exceeded = True\<rparr>
               | Inr (transitions, so_far) \<Rightarrow>
                   build_zones w config zones
                     (prepared @
                       [\<lparr>tz_name = pz_zone_name parsed, tz_version = cf_version config,
                         tz_initial_utc_offset_seconds = running, tz_transitions = transitions\<rparr>])
                     issues so_far)"

definition build_pinned_timezone_rules ::
    "nat \<Rightarrow> (string \<times> bytes) list \<Rightarrow> tzif_adapter_config \<Rightarrow> tzif_adapter_result option" where
  "build_pinned_timezone_rules w zones config = build_zones w config zones [] [] 0"

definition adapter_rules_match_schedule :: "weekly_alarm_schedule \<Rightarrow> timezone_rules \<Rightarrow> bool" where
  "adapter_rules_match_schedule schedule rules \<longleftrightarrow>
     ws_timezone_name schedule \<noteq> [] \<and> tz_name rules = ws_timezone_name schedule \<and>
     ws_timezone_rules_version schedule = tz_version rules"

end
