(* ===== verification/Tzif_Properties.thy ===== *)
theory Tzif_Properties
  imports Tzif_Rules "HOL-Library.Code_Target_Nat"
begin

text \<open>
  What the timezone adapter promises: which records make it read out of bounds, that the offsets
  of its rules are those of the record, that the resolver accepts its rules, and that no zone is
  lost silently.
\<close>

section \<open>Reading within the data\<close>

lemma those_Some: "those (map (\<lambda>i. Some (f i)) xs) = Some (map f xs)"
  by (induction xs) simp_all

lemma those_bytes:
  assumes "position + n < 2 ^ w" "position + n \<le> length data"
  shows "those (map (\<lambda>i. byte_at data (size_add w position i)) [0..<n]) = Some (take n (drop position data))"
proof -
  have "map (\<lambda>i. byte_at data (size_add w position i)) [0..<n] = map (\<lambda>i. Some (data ! (position + i))) [0..<n]"
    using assms by (simp add: byte_at_def size_add_def)
  also have "those \<dots> = Some (map (\<lambda>i. data ! (position + i)) [0..<n])" by (rule those_Some)
  also have "map (\<lambda>i. data ! (position + i)) [0..<n] = take n (drop position data)"
    by (rule nth_equalityI) (use assms in simp_all)
  finally show ?thesis .
qed

lemma read_big_endian_eq:
  assumes "position + n < 2 ^ w"
  shows "read_big_endian w n data position = Some
    (if length data < position + n then (None, position)
     else (Some (big_endian (take n (drop position data))), position + n))"
proof -
  have "size_add w position n = position + n" using assms by (simp add: size_add_def)
  then show ?thesis using those_bytes [OF assms, of data] by (simp add: read_big_endian_def)
qed

lemma reader_u8_eq:
  assumes "position + 1 < 2 ^ w"
  shows "reader_u8 w data position =
    Some (if length data < position + 1 then (None, position) else (Some (data ! position), position + 1))"
  using assms by (simp add: reader_u8_def size_add_def byte_at_def)

lemma has_tzif_magic_eq:
  assumes "offset + 4 < 2 ^ w"
  shows "has_tzif_magic w data offset =
    Some (offset + 4 \<le> length data \<and> take 4 (drop offset data) = kTzifMagic)"
proof -
  have "[0, 1, 2, 3] = [0 ..< 4 :: nat]" by (simp add: upt_rec)
  then show ?thesis
    using those_bytes [OF assms, of data] assms
    by (simp add: has_tzif_magic_def size_add_def not_less del: upt_Suc)
qed

lemma big_endian_snoc: "big_endian (bs @ [b]) = big_endian bs * 256 + unat b"
  by (simp add: big_endian_def)

lemma big_endian_bound: "big_endian bs < 256 ^ length bs"
proof (induction bs rule: rev_induct)
  case (snoc b bs)
  have "unat b < 256" by (rule unsigned_less [where 'b = 8, simplified])
  moreover have "big_endian bs + 1 \<le> 256 ^ length bs" using snoc.IH by simp
  then have "(big_endian bs + 1) * 256 \<le> 256 ^ length bs * 256" by (rule mult_le_mono1)
  ultimately show ?case by (simp add: big_endian_snoc)
qed (simp add: big_endian_def)

text \<open>A field of the record: \<open>n\<close> bytes at a position, as RFC 8536 lays them out.\<close>

definition field :: "bytes \<Rightarrow> nat \<Rightarrow> nat \<Rightarrow> nat" where
  "field data position n = big_endian (take n (drop position data))"

lemma field_bound: "field data position n < 256 ^ n"
proof -
  have "field data position n < 256 ^ length (take n (drop position data))"
    unfolding field_def by (rule big_endian_bound)
  also have "\<dots> \<le> 256 ^ n" by (rule power_increasing) simp_all
  finally show ?thesis .
qed

definition counts_at :: "bytes \<Rightarrow> nat \<Rightarrow> tzif_counts" where
  "counts_at data p =
     \<lparr>tc_isut = field data p 4, tc_isstd = field data (p + 4) 4, tc_leap = field data (p + 8) 4,
      tc_time = field data (p + 12) 4, tc_type = field data (p + 16) 4,
      tc_character = field data (p + 20) 4\<rparr>"

lemma read_counts_eq:
  assumes "position + 24 < 2 ^ w"
  shows "\<exists>position'. read_counts w data position =
    Some (if length data < position + 24 then (None, position') else (Some (counts_at data position), position + 24))"
proof -
  have step: "reader_u32 w data p =
      Some (if length data < p + 4 then (None, p) else (Some (field data p 4), p + 4))"
    if "p + 4 < 2 ^ w" for p
    using read_big_endian_eq [OF that, of data] by (simp add: reader_u32_def field_def)
  show ?thesis
  proof (cases "length data < position + 24")
    case False
    then show ?thesis using assms by (simp add: read_counts_def counts_at_def step algebra_simps)
  next
    case True
    have "\<exists>r p'. reader_u32 w data p = Some (r, p') \<and> p' \<le> p + 4 \<and> p \<le> p'" if "p + 4 < 2 ^ w" for p
      unfolding step [OF that] by simp
    then show ?thesis
      using True assms
      by (cases "length data < position + 4"; cases "length data < position + 8";
          cases "length data < position + 12"; cases "length data < position + 16";
          cases "length data < position + 20")
        (simp_all add: read_counts_def step)
  qed
qed

section \<open>The steps of the parser\<close>

text \<open>
  A step stays within the data, a refusal has a status other than \<open>ok\<close>, and its value, if it has
  one, satisfies \<open>P\<close>.
\<close>

definition holds :: "('a \<Rightarrow> bool) \<Rightarrow> 'a outcome \<Rightarrow> bool" where
  "holds P r \<longleftrightarrow> (case r of Out_of_bounds \<Rightarrow> False | Refused status detail \<Rightarrow> status \<noteq> TZ_ok | Accepted v \<Rightarrow> P v)"

lemma holds_simps [simp]:
  "\<not> holds P Out_of_bounds" "holds P (Refused status detail) \<longleftrightarrow> status \<noteq> TZ_ok" "holds P (Accepted v) \<longleftrightarrow> P v"
  by (simp_all add: holds_def)

lemma holds_and_then:
  "holds Q r \<Longrightarrow> (\<And>v. Q v \<Longrightarrow> holds P (f v)) \<Longrightarrow> holds P (and_then r f)"
  by (cases r) simp_all

lemma holds_mono: "holds Q r \<Longrightarrow> (\<And>v. Q v \<Longrightarrow> P v) \<Longrightarrow> holds P r"
  by (cases r) simp_all

definition times_at :: "bytes \<Rightarrow> nat \<Rightarrow> nat \<Rightarrow> i64 list" where
  "times_at data p n = map (\<lambda>k. word_of_nat (field data (p + 8 * k) 8)) [0..<n]"

definition indices_at :: "bytes \<Rightarrow> nat \<Rightarrow> nat \<Rightarrow> u8 list" where
  "indices_at data p n = map (\<lambda>k. data ! (p + k)) [0..<n]"

definition types_at :: "bytes \<Rightarrow> nat \<Rightarrow> nat \<Rightarrow> i32 list" where
  "types_at data p n = map (\<lambda>k. word_of_nat (field data (p + 6 * k) 4)) [0..<n]"

lemma upt_rec_front: "[0..<Suc n] = 0 # map Suc [0..<n]"
  by (simp add: map_Suc_upt upt_conv_Cons del: upt_Suc)

lemma times_at_Suc: "times_at data p (Suc n) = word_of_nat (field data p 8) # times_at data (p + 8) n"
  and indices_at_Suc: "indices_at data p (Suc n) = data ! p # indices_at data (p + 1) n"
  and types_at_Suc: "types_at data p (Suc n) = word_of_nat (field data p 4) # types_at data (p + 6) n"
  by (simp_all add: times_at_def indices_at_def types_at_def upt_rec_front ac_simps del: upt_Suc)

lemma at_0 [simp]: "times_at data p 0 = []" "indices_at data p 0 = []" "types_at data p 0 = []"
  by (simp_all add: times_at_def indices_at_def types_at_def)

lemma reader_i64_eq:
  assumes "position + 8 < 2 ^ w"
  shows "reader_i64 w data position = Some
    (if length data < position + 8 then (None, position)
     else (Some (word_of_nat (field data position 8)), position + 8))"
  using read_big_endian_eq [OF assms, of data] by (simp add: reader_i64_def field_def)

abbreviation ascending :: "i64 list \<Rightarrow> bool" where
  "ascending \<equiv> sorted_wrt (\<lambda>x y. sint x < sint y)"

lemma ascending_snoc: "ascending xs \<Longrightarrow> xs = [] \<or> sint (last xs) < sint x \<Longrightarrow> ascending (xs @ [x])"
  by (induction xs rule: rev_induct) (auto simp: sorted_wrt_append)

lemma read_times_holds:
  assumes "length data + 8 < 2 ^ w" and "p \<le> length data" and "ascending acc"
  shows "holds (\<lambda>(ts, p'). ts = acc @ times_at data p n \<and> p' = p + 8 * n \<and> p' \<le> length data \<and> ascending ts)
    (read_times w data n i p acc)"
  using assms
proof (induction n arbitrary: i p acc)
  case (Suc n)
  note read = reader_i64_eq [of p w data]
  show ?case
  proof (cases "length data < p + 8")
    case True
    with read Suc.prems show ?thesis by (simp add: demand_def)
  next
    case False
    let ?v = "word_of_nat (field data p 8) :: i64"
    show ?thesis
    proof (cases "acc \<noteq> [] \<and> sint ?v \<le> sint (last acc)")
      case True
      with read False Suc.prems show ?thesis by (simp add: demand_def)
    next
      case run: False
      then have "ascending (acc @ [?v])" using Suc.prems(3) by (intro ascending_snoc) auto
      with Suc.IH [of "p + 8" "acc @ [?v]" "Suc i"] False Suc.prems read run show ?thesis
        by (simp add: demand_def times_at_Suc ac_simps)
    qed
  qed
qed simp

lemma read_type_indices_holds:
  assumes "length data + 8 < 2 ^ w" and "p \<le> length data" and "\<forall>x \<in> set acc. unat x < k"
  shows "holds (\<lambda>(xs, p'). xs = acc @ indices_at data p n \<and> p' = p + n \<and> p' \<le> length data \<and>
      (\<forall>x \<in> set xs. unat x < k)) (read_type_indices w data k n i p acc)"
  using assms
proof (induction n arbitrary: i p acc)
  case (Suc n)
  note read = reader_u8_eq [of p w data]
  show ?case
  proof (cases "length data < p + 1")
    case True
    with read Suc.prems show ?thesis by (simp add: demand_def)
  next
    case False
    show ?thesis
    proof (cases "k \<le> unat (data ! p)")
      case True
      with read False Suc.prems show ?thesis by (simp add: demand_def)
    next
      case run: False
      with Suc.IH [of "p + 1" "acc @ [data ! p]" "Suc i"] False Suc.prems read show ?thesis
        by (simp add: demand_def indices_at_Suc)
    qed
  qed
qed simp

lemma read_local_time_type_eq:
  assumes "length data + 8 < 2 ^ w" "p \<le> length data"
  shows "\<exists>p'. read_local_time_type w data p = Some
    (if length data < p + 6 then (None, p') else (Some (word_of_nat (field data p 4)), p + 6))"
proof -
  have four: "reader_i32 w data p = Some (if length data < p + 4 then (None, p)
      else (Some (word_of_nat (field data p 4)), p + 4))"
    using read_big_endian_eq [of p 4 w data] assms by (simp add: reader_i32_def reader_u32_def field_def)
  have one: "reader_u8 w data q = Some (if length data < q + 1 then (None, q) else (Some (data ! q), q + 1))"
    if "q \<le> length data" for q using reader_u8_eq [of q w data] assms that by simp
  show ?thesis
    using assms four
    by (cases "length data < p + 4"; cases "length data < p + 5"; cases "length data < p + 6")
      (simp_all add: read_local_time_type_def one)
qed

lemma read_types_holds:
  assumes "length data + 8 < 2 ^ w" and "p \<le> length data" and "\<forall>x \<in> set acc. valid_tzif_offset x"
  shows "holds (\<lambda>(xs, p'). xs = acc @ types_at data p n \<and> p' = p + 6 * n \<and> p' \<le> length data \<and>
      (\<forall>x \<in> set xs. valid_tzif_offset x)) (read_types w data n i p acc)"
  using assms
proof (induction n arbitrary: i p acc)
  case (Suc n)
  from read_local_time_type_eq [OF Suc.prems(1,2)] obtain p' where read: "read_local_time_type w data p = Some
    (if length data < p + 6 then (None, p') else (Some (word_of_nat (field data p 4)), p + 6))" by blast
  show ?case
  proof (cases "length data < p + 6")
    case True
    with read Suc.prems show ?thesis by (simp add: demand_def)
  next
    case False
    show ?thesis
    proof (cases "valid_tzif_offset (word_of_nat (field data p 4))")
      case invalid: False
      with read False Suc.prems show ?thesis by (simp add: demand_def)
    next
      case True
      with Suc.IH [of "p + 6" "acc @ [word_of_nat (field data p 4)]" "Suc i"] False Suc.prems read show ?thesis
        by (simp add: demand_def types_at_Suc ac_simps)
    qed
  qed
qed simp

section \<open>The two blocks\<close>

text \<open>The tables of a block with 64-bit times at position \<open>s\<close>, as RFC 8536 lays them out.\<close>

definition table_at :: "bytes \<Rightarrow> nat \<Rightarrow> tzif_table" where
  "table_at data s =
     (let n = field data (s + 32) 4; k = field data (s + 36) 4 in
      \<lparr>tt_times = times_at data (s + 44) n, tt_type_indices = indices_at data (s + 44 + 8 * n) n,
       tt_types = types_at data (s + 44 + 9 * n) k\<rparr>)"

definition good_table :: "tzif_table \<Rightarrow> bool" where
  "good_table t \<longleftrightarrow> ascending (tt_times t) \<and> length (tt_times t) = length (tt_type_indices t) \<and>
     (\<forall>x \<in> set (tt_type_indices t). unat x < length (tt_types t)) \<and>
     (\<forall>x \<in> set (tt_types t). valid_tzif_offset x) \<and> tt_types t \<noteq> []"

lemma length_at [simp]: "length (times_at data p n) = n" "length (indices_at data p n) = n"
  "length (types_at data p n) = n"
  by (simp_all add: times_at_def indices_at_def types_at_def)

lemma read_tables_holds:
  assumes "length data + 8 < 2 ^ w" and "p \<le> length data" and "k \<noteq> 0"
  shows "holds (\<lambda>t. t = \<lparr>tt_times = times_at data p n, tt_type_indices = indices_at data (p + 8 * n) n,
       tt_types = types_at data (p + 8 * n + n) k\<rparr> \<and> good_table t)
    (and_then (read_times w data n 0 p []) (\<lambda>(instants, position).
     and_then (read_type_indices w data k n 0 position []) (\<lambda>(indices, position).
     and_then (read_types w data k 0 position []) (\<lambda>(types, position).
       Accepted \<lparr>tt_times = instants, tt_type_indices = indices, tt_types = types\<rparr>))))"
proof (rule holds_and_then [OF read_times_holds [OF assms(1,2)]], simp, clarify)
  assume p: "p + 8 * n \<le> length data" and asc: "ascending ([] @ times_at data p n)"
  show "holds (\<lambda>t. t = \<lparr>tt_times = times_at data p n, tt_type_indices = indices_at data (p + 8 * n) n,
       tt_types = types_at data (p + 8 * n + n) k\<rparr> \<and> good_table t)
    (and_then (read_type_indices w data k n 0 (p + 8 * n) []) (\<lambda>(indices, position).
     and_then (read_types w data k 0 position []) (\<lambda>(types, position).
       Accepted \<lparr>tt_times = [] @ times_at data p n, tt_type_indices = indices, tt_types = types\<rparr>)))"
  proof (rule holds_and_then [OF read_type_indices_holds [OF assms(1) p]], simp, clarify)
    assume q: "p + 8 * n + n \<le> length data" and ind: "\<forall>x \<in> set ([] @ indices_at data (p + 8 * n) n). unat x < k"
    show "holds (\<lambda>t. t = \<lparr>tt_times = times_at data p n, tt_type_indices = indices_at data (p + 8 * n) n,
         tt_types = types_at data (p + 8 * n + n) k\<rparr> \<and> good_table t)
      (and_then (read_types w data k 0 (p + 8 * n + n) []) (\<lambda>(types, position).
         Accepted \<lparr>tt_times = [] @ times_at data p n,
                   tt_type_indices = [] @ indices_at data (p + 8 * n) n, tt_types = types\<rparr>))"
    proof (rule holds_and_then [OF read_types_holds [OF assms(1) q]], simp, clarify)
      assume "\<forall>x \<in> set ([] @ types_at data (p + 8 * n + n) k). valid_tzif_offset x"
      moreover have "types_at data (p + 8 * n + n) k \<noteq> []"
        using assms(3) by (metis length_at(3) list.size(3))
      ultimately show "holds (\<lambda>t. t = \<lparr>tt_times = times_at data p n,
           tt_type_indices = indices_at data (p + 8 * n) n,
           tt_types = types_at data (p + 8 * n + n) k\<rparr> \<and> good_table t)
        (Accepted \<lparr>tt_times = [] @ times_at data p n,
                   tt_type_indices = [] @ indices_at data (p + 8 * n) n,
                   tt_types = [] @ types_at data (p + 8 * n + n) k\<rparr>)"
        using asc ind by (simp add: good_table_def)
    qed
  qed
qed

lemma read_second_block_holds:
  assumes "length data + 24 < 2 ^ w" and "s + 44 \<le> length data"
  shows "holds (\<lambda>t. t = table_at data s \<and> good_table t) (read_second_block w data s)"
proof -
  let ?c = "counts_at data (s + 20)"
  have counts: "read_counts w data (size_add w s 20) = Some (Some ?c, s + 44)"
    using read_counts_eq [of "s + 20" w data] assms by (auto simp: size_add_def)
  have n: "tc_time ?c = field data (s + 32) 4" "tc_type ?c = field data (s + 36) 4"
    by (simp_all add: counts_at_def ac_simps)
  have room: "length data + 8 < 2 ^ w" using assms by simp
  have "s + 44 + 8 * m + m = s + 44 + 9 * m" for m by simp
  then have table: "\<lparr>tt_times = times_at data (s + 44) (tc_time ?c),
       tt_type_indices = indices_at data (s + 44 + 8 * tc_time ?c) (tc_time ?c),
       tt_types = types_at data (s + 44 + 8 * tc_time ?c + tc_time ?c) (tc_type ?c)\<rparr> = table_at data s"
    unfolding table_at_def n Let_def by (simp only:)
  note tables = read_tables_holds [OF room assms(2), of "tc_type ?c" "tc_time ?c", unfolded table]
  then show ?thesis by (simp add: read_second_block_def counts demand_def split: option.split)
qed

definition first_block_length :: "bytes \<Rightarrow> nat" where
  "first_block_length data =
     (let c = counts_at data 20 in
      44 + tc_time c * 5 + tc_type c * 6 + tc_character c + tc_leap c * 8 + tc_isstd c + tc_isut c)"

lemma first_block_length_bound: "first_block_length data < 2 ^ 40"
proof -
  have "field data p 4 < 2 ^ 32" for p using field_bound [of data p 4] by simp
  from this [of 20] this [of 24] this [of 28] this [of 32] this [of 36] this [of 40] show ?thesis
    by (simp add: first_block_length_def counts_at_def Let_def)
qed

lemma block_byte_length_first:
  "block_byte_length w (counts_at data 20) True =
     (if first_block_length data < 2 ^ w then Some (first_block_length data) else None)"
proof -
  have "first_block_length data mod 2 ^ 64 = first_block_length data"
    using first_block_length_bound [of data] by simp
  moreover have "(44 + tc_time c * 4 + tc_time c + tc_type c * 6 + tc_character c + tc_leap c * 8 +
      tc_isstd c + tc_isut c) = (44 + tc_time c * 5 + tc_type c * 6 + tc_character c + tc_leap c * 8 +
      tc_isstd c + tc_isut c)" for c by simp
  ultimately show ?thesis
    by (simp add: block_byte_length_def first_block_length_def Let_def fits_size_def not_le
        le_diff_conv2 Suc_le_eq)
qed

definition readable_header :: "bytes \<Rightarrow> bool" where
  "readable_header data \<longleftrightarrow> 44 \<le> length data \<and> take 4 data = kTzifMagic"

lemma locate_header:
  assumes "44 < (2 :: nat) ^ w"
  shows "locate_second_block w data =
    (if \<not> (4 \<le> length data \<and> take 4 data = kTzifMagic) then Refused TZ_bad_magic 0
     else if length data < 44 then Refused TZ_truncated 0
     else let s = first_block_length data in
       if 2 ^ w \<le> s then Refused TZ_excessive_counts 0
       else if length data < size_add w s 5 then Refused TZ_unsupported_version 0
       else case has_tzif_magic w data s of
              None \<Rightarrow> Out_of_bounds
            | Some False \<Rightarrow> Refused TZ_unsupported_version 0
            | Some True \<Rightarrow>
                (case byte_at data (size_add w s 4) of
                   None \<Rightarrow> Out_of_bounds
                 | Some version_char \<Rightarrow>
                     if version_char \<noteq> 0x32 \<and> version_char \<noteq> 0x33
                     then Refused TZ_unsupported_version 0
                     else if size_sub w (length data) kTzifHeaderBytes < s then Refused TZ_truncated 0
                     else Accepted s))"
proof -
  have magic: "has_tzif_magic w data 0 = Some (4 \<le> length data \<and> take 4 data = kTzifMagic)"
    using has_tzif_magic_eq [of 0 w data] assms by simp
  have "20 + 24 = (44 :: nat)" by simp
  from read_counts_eq [of 20 w data, unfolded this] assms obtain p where counts: "read_counts w data 20 =
    Some (if length data < 44 then (None, p) else (Some (counts_at data 20), 44))" by blast
  show ?thesis
    unfolding locate_second_block_def magic counts demand_def
    by (simp add: block_byte_length_first Let_def not_less split: bool.split)
qed

lemma size_sub_exact: "b \<le> a \<Longrightarrow> a < 2 ^ w \<Longrightarrow> size_sub w a b = a - b"
proof -
  assume "b \<le> a" "a < 2 ^ w"
  then have "a + (2 ^ w - b) = (a - b) + 2 ^ w" by simp
  moreover have "((a - b) + 2 ^ w) mod 2 ^ w = a - b" using \<open>a < 2 ^ w\<close> by simp
  ultimately show "size_sub w a b = a - b" unfolding size_sub_def by (simp only:)
qed

text \<open>Without a wrap the second block is found in the data, or the record is refused.\<close>

lemma locate_in_bounds:
  assumes "length data + 24 < 2 ^ w" "44 < (2 :: nat) ^ w"
    and "first_block_length data + 5 < 2 ^ w \<or> 2 ^ w \<le> first_block_length data"
  shows "holds (\<lambda>s. s = first_block_length data \<and> s + 44 \<le> length data) (locate_second_block w data)"
proof (cases "2 ^ w \<le> first_block_length data")
  case True
  then show ?thesis by (simp add: locate_header [OF assms(2)] Let_def)
next
  case False
  with assms(3) have s: "first_block_length data + 5 < 2 ^ w" by simp
  then have "size_add w (first_block_length data) 5 = first_block_length data + 5"
    "size_add w (first_block_length data) 4 = first_block_length data + 4" by (simp_all add: size_add_def)
  moreover have "size_sub w (length data) 44 = length data - 44" if "\<not> length data < 44"
    using that assms(1) by (intro size_sub_exact) simp_all
  ultimately show ?thesis
    using s assms(1) False
    by (cases "length data < 44")
      (auto simp add: locate_header [OF assms(2)] has_tzif_magic_eq byte_at_def Let_def split: bool.split)
qed

text \<open>
  With a wrap: the check of the position passes, and either the second check, which wraps one
  byte later, refuses the record, or the bytes before the data are read.
\<close>

lemma locate_wrapped:
  assumes "length data + 24 < 2 ^ w" "44 < (2 :: nat) ^ w"
    and "first_block_length data < 2 ^ w" "2 ^ w \<le> first_block_length data + 5"
  shows "(locate_second_block w data = Out_of_bounds \<longleftrightarrow>
      readable_header data \<and> 2 ^ w \<le> first_block_length data + 4) \<and>
    locate_second_block w data \<noteq> Accepted s \<and> locate_second_block w data \<noteq> Refused TZ_ok d"
proof (cases "readable_header data")
  case False
  then show ?thesis using assms(3) by (auto simp: locate_header [OF assms(2)] readable_header_def Let_def)
next
  case True
  let ?s = "first_block_length data"
  have wrap: "(?s + k) mod 2 ^ w = ?s + k - 2 ^ w" if "2 ^ w \<le> ?s + k" "k \<le> 5" for k
    using that assms(2,3) by (simp add: mod_if)
  have five: "size_add w ?s 5 \<le> 4" using wrap [of 5] assms(3,4) by (simp add: size_add_def)
  show ?thesis
  proof (cases "2 ^ w \<le> ?s + 4")
    case True
    then have "size_add w ?s 4 \<le> 4" using wrap [of 4] assms(3) by (simp add: size_add_def)
    moreover have "byte_at data ?s = None" using assms(1,4) by (simp add: byte_at_def)
    moreover have "size_add w ?s 0 = ?s" using assms(3) by (simp add: size_add_def)
    ultimately have "has_tzif_magic w data ?s = None"
      using \<open>readable_header data\<close> by (simp add: has_tzif_magic_def readable_header_def)
    with five True \<open>readable_header data\<close> assms(3) show ?thesis
      by (simp add: locate_header [OF assms(2)] readable_header_def Let_def)
  next
    case False
    then have "size_add w ?s 4 = ?s + 4" by (simp add: size_add_def)
    then have "has_tzif_magic w data ?s = Some False"
      using assms(1,4) by (simp add: has_tzif_magic_def)
    with five False \<open>readable_header data\<close> assms(3) show ?thesis
      by (simp add: locate_header [OF assms(2)] readable_header_def Let_def)
  qed
qed

section \<open>Offsets\<close>

text \<open>The offset at an instant according to the type indices of the record, without coalescing.\<close>

fun raw_offset :: "i32 list \<Rightarrow> (i64 \<times> u8) list \<Rightarrow> i32 \<Rightarrow> int \<Rightarrow> i32" where
  "raw_offset types [] running u = running"
| "raw_offset types ((at, index) # rest) running u =
     (if u < sint at then running else raw_offset types rest (types ! unat index) u)"

text \<open>What the emitted chain satisfies: each transition starts from the offset before it.\<close>

fun continuous :: "i32 \<Rightarrow> utc_offset_transition list \<Rightarrow> bool" where
  "continuous running [] \<longleftrightarrow> True"
| "continuous running (t # ts) \<longleftrightarrow>
     tr_offset_before_seconds t = running \<and> tr_offset_after_seconds t \<noteq> running \<and>
     valid_tzif_offset (tr_offset_after_seconds t) \<and> sint (tr_at_utc_seconds t) < kTzifTailCutoffUtcSeconds \<and>
     (\<forall>t' \<in> set ts. sint (tr_at_utc_seconds t) < sint (tr_at_utc_seconds t')) \<and>
     continuous (tr_offset_after_seconds t) ts"

lemma raw_offset_early: "\<forall>(at, index) \<in> set pairs. u < sint at \<Longrightarrow> raw_offset types pairs running u = running"
  by (cases pairs) auto

lemma emit_transitions_holds:
  assumes "\<forall>(at, index) \<in> set pairs. unat index < length types"
    and "\<forall>x \<in> set types. valid_tzif_offset x" and "ascending (map fst pairs)"
  shows "holds (\<lambda>(ts, b). \<exists>new. ts = acc @ new \<and> continuous running new \<and>
      tr_at_utc_seconds ` set new \<subseteq> fst ` set pairs \<and>
      (\<forall>u < kTzifTailCutoffUtcSeconds. offset_walk running new u = raw_offset types pairs running u))
    (emit_transitions types pairs running acc)"
  using assms
proof (induction types pairs running acc rule: emit_transitions.induct)
  case (2 types at index rest running acc)
  let ?after = "types ! unat index"
  have index: "unat index < length types" using "2.prems"(1) by simp
  then have valid: "valid_tzif_offset ?after" using "2.prems"(2) by simp
  have prems: "\<forall>(at, index) \<in> set rest. unat index < length types" "ascending (map fst rest)"
    and rest: "\<forall>(at', index') \<in> set rest. sint at < sint at'"
    using "2.prems"(1,3) by auto
  show ?case
  proof (cases "kTzifTailCutoffUtcSeconds \<le> sint at")
    case True
    with index show ?thesis by (auto intro!: exI [of _ "[]"])
  next
    case before: False
    show ?thesis
    proof (cases "?after = running")
      case True
      have same: "raw_offset types ((at, index) # rest) running u = raw_offset types rest running u" for u
        using True rest by (auto intro!: raw_offset_early [symmetric])
      from "2.IH"(1) [OF _ refl before True prems(1) "2.prems"(2) prems(2)] index
      have "holds (\<lambda>(ts, b). \<exists>new. ts = acc @ new \<and> continuous running new \<and>
          tr_at_utc_seconds ` set new \<subseteq> fst ` set rest \<and>
          (\<forall>u < kTzifTailCutoffUtcSeconds. offset_walk running new u = raw_offset types rest running u))
        (emit_transitions types rest running acc)" by simp
      then have "holds (\<lambda>(ts, b). \<exists>new. ts = acc @ new \<and> continuous running new \<and>
          tr_at_utc_seconds ` set new \<subseteq> fst ` set ((at, index) # rest) \<and>
          (\<forall>u < kTzifTailCutoffUtcSeconds.
             offset_walk running new u = raw_offset types ((at, index) # rest) running u))
        (emit_transitions types rest running acc)"
        unfolding same by (rule holds_mono) (fastforce simp: subset_insertI2)
      with True before index show ?thesis by (simp add: Let_def)
    next
      case False
      define t where "t = \<lparr>tr_at_utc_seconds = at, tr_offset_before_seconds = running,
        tr_offset_after_seconds = ?after\<rparr>"
      from "2.IH"(2) [OF _ refl before False prems(1) "2.prems"(2) prems(2)] index
      have "holds (\<lambda>(ts, b). \<exists>new. ts = (acc @ [t]) @ new \<and> continuous ?after new \<and>
          tr_at_utc_seconds ` set new \<subseteq> fst ` set rest \<and>
          (\<forall>u < kTzifTailCutoffUtcSeconds. offset_walk ?after new u = raw_offset types rest ?after u))
        (emit_transitions types rest ?after (acc @ [t]))" by (simp add: t_def)
      then have "holds (\<lambda>(ts, b). \<exists>new. ts = acc @ new \<and> continuous running new \<and>
          tr_at_utc_seconds ` set new \<subseteq> fst ` set ((at, index) # rest) \<and>
          (\<forall>u < kTzifTailCutoffUtcSeconds.
             offset_walk running new u = raw_offset types ((at, index) # rest) running u))
        (emit_transitions types rest ?after (acc @ [t]))"
      proof (rule holds_mono, clarify)
        fix new
        assume new: "continuous ?after new" "tr_at_utc_seconds ` set new \<subseteq> fst ` set rest"
          "\<forall>u < kTzifTailCutoffUtcSeconds. offset_walk ?after new u = raw_offset types rest ?after u"
        have "\<forall>t' \<in> set new. sint at < sint (tr_at_utc_seconds t')" using new(2) rest by fastforce
        with new valid False before
        show "\<exists>new'. (acc @ [t]) @ new = acc @ new' \<and> continuous running new' \<and>
          tr_at_utc_seconds ` set new' \<subseteq> fst ` set ((at, index) # rest) \<and>
          (\<forall>u < kTzifTailCutoffUtcSeconds.
             offset_walk running new' u = raw_offset types ((at, index) # rest) running u)"
          by (intro exI [of _ "t # new"]) (auto simp: t_def)
      qed
      with False before index show ?thesis by (simp add: t_def Let_def)
    qed
  qed
qed simp

text \<open>
  What the transition table of a record says, looked up in its bytes: the type of the last
  transition at or before the instant, or type 0 before the first transition.
\<close>

abbreviation table_length :: "bytes \<Rightarrow> nat" where
  "table_length data \<equiv> field data (first_block_length data + 32) 4"

abbreviation table_time :: "bytes \<Rightarrow> nat \<Rightarrow> int" where
  "table_time data k \<equiv> sint (word_of_nat (field data (first_block_length data + 44 + 8 * k) 8) :: i64)"

definition table_offset_at :: "bytes \<Rightarrow> int \<Rightarrow> i32" where
  "table_offset_at data u =
     (let s = first_block_length data; n = table_length data;
          ks = filter (\<lambda>k. table_time data k \<le> u) [0..<n];
          index = (if ks = [] then 0 else unat (data ! (s + 44 + 8 * n + last ks)))
      in word_of_nat (field data (s + 44 + 9 * n + 6 * index) 4))"

text \<open>
  RFC 8536, section 3.2, follows the table only up to its last transition: from there on the TZ
  string of the footer gives the offset, here an arbitrary function of the instant.
\<close>

definition has_later_transition :: "bytes \<Rightarrow> int \<Rightarrow> bool" where
  "has_later_transition data u = list_ex (\<lambda>k. u < table_time data k) [0..<table_length data]"

definition rfc8536_offset_at :: "(int \<Rightarrow> i32) \<Rightarrow> bytes \<Rightarrow> int \<Rightarrow> i32" where
  "rfc8536_offset_at footer data u =
     (if has_later_transition data u then table_offset_at data u else footer u)"

lemma raw_offset_lookup:
  assumes "ascending ts" "length ts = length indices"
  shows "raw_offset types (zip ts indices) running u =
    (let ks = filter (\<lambda>k. sint (ts ! k) \<le> u) [0..<length ts]
     in if ks = [] then running else types ! unat (indices ! last ks))"
  using assms
proof (induction ts arbitrary: indices running)
  case (Cons t ts)
  then obtain index indices' where indices: "indices = index # indices'" by (cases indices) auto
  let ?ks = "filter (\<lambda>k. sint (ts ! k) \<le> u) [0..<length ts]"
  have split: "filter (\<lambda>k. sint ((t # ts) ! k) \<le> u) [0..<length (t # ts)] =
      (if sint t \<le> u then [0] else []) @ map Suc ?ks"
    by (simp add: upt_rec_front filter_map o_def del: upt_Suc)
  show ?case
  proof (cases "sint t \<le> u")
    case True
    with Cons.IH [of indices' "types ! unat index"] Cons.prems show ?thesis
      unfolding split indices by (simp add: Let_def last_map)
  next
    case False
    then have "?ks = []" using Cons.prems(1) by (fastforce simp: filter_empty_conv dest: nth_mem)
    with False show ?thesis unfolding split indices by simp
  qed
qed simp

lemma table_offset:
  assumes "t = table_at data (first_block_length data)" "good_table t"
  shows "raw_offset (tt_types t) (zip (tt_times t) (tt_type_indices t)) (tt_types t ! 0) u = table_offset_at data u"
proof -
  let ?s = "first_block_length data"
  define n where "n = field data (?s + 32) 4"
  define k where "k = field data (?s + 36) 4"
  have t: "tt_times t = times_at data (?s + 44) n" "tt_type_indices t = indices_at data (?s + 44 + 8 * n) n"
    "tt_types t = types_at data (?s + 44 + 9 * n) k"
    by (simp_all add: assms(1) table_at_def n_def k_def Let_def)
  let ?ks = "filter (\<lambda>i. sint (word_of_nat (field data (?s + 44 + 8 * i) 8) :: i64) \<le> u) [0..<n]"
  have ks: "filter (\<lambda>i. sint (times_at data (?s + 44) n ! i) \<le> u) [0..<n] = ?ks"
    by (rule filter_cong) (simp_all add: times_at_def)
  have type_at: "types_at data (?s + 44 + 9 * n) k ! i = word_of_nat (field data (?s + 44 + 9 * n + 6 * i) 4)"
    if "i < k" for i using that by (simp add: types_at_def)
  have "0 < k" "\<forall>x \<in> set (indices_at data (?s + 44 + 8 * n) n). unat x < k"
    using assms(2) by (auto simp: good_table_def t simp flip: length_greater_0_conv)
  moreover have "indices_at data (?s + 44 + 8 * n) n ! i = data ! (?s + 44 + 8 * n + i)" if "i < n" for i
    using that by (simp add: indices_at_def)
  moreover have "last ?ks < n" if "?ks \<noteq> []" using last_in_set [OF that] by simp
  ultimately have index: "unat (data ! (?s + 44 + 8 * n + last ?ks)) < k" if "?ks \<noteq> []"
    using that by (metis length_at(2) nth_mem)
  show ?thesis
  proof (cases "?ks = []")
    case True
    with assms(2) ks type_at [OF \<open>0 < k\<close>] show ?thesis
      by (subst raw_offset_lookup)
        (simp_all add: good_table_def t table_offset_at_def n_def [symmetric] Let_def)
  next
    case False
    with assms(2) ks type_at [OF index] last_in_set [OF False] show ?thesis
      by (subst raw_offset_lookup)
        (auto simp: good_table_def t table_offset_at_def n_def [symmetric] Let_def indices_at_def)
  qed
qed

definition faithful_zone :: "string \<Rightarrow> bytes \<Rightarrow> parsed_tzif_zone \<Rightarrow> bool" where
  "faithful_zone zone_name data zone \<longleftrightarrow>
     pz_zone_name zone = zone_name \<and> zone_name \<noteq> [] \<and>
     valid_tzif_offset (pz_initial_utc_offset_seconds zone) \<and>
     continuous (pz_initial_utc_offset_seconds zone) (pz_transitions zone) \<and>
     (\<forall>u < kTzifTailCutoffUtcSeconds.
        offset_walk (pz_initial_utc_offset_seconds zone) (pz_transitions zone) u = table_offset_at data u)"

lemma zone_of_table_holds:
  assumes "t = table_at data (first_block_length data)" "good_table t" "zone_name \<noteq> []"
  shows "holds (faithful_zone zone_name data) (zone_of_table zone_name t)"
proof -
  obtain o' rest where types: "tt_types t = o' # rest" using assms(2) by (cases "tt_types t") (auto simp: good_table_def)
  have "holds (\<lambda>(ts, b). \<exists>new. ts = [] @ new \<and> continuous o' new \<and>
      tr_at_utc_seconds ` set new \<subseteq> fst ` set (zip (tt_times t) (tt_type_indices t)) \<and>
      (\<forall>u < kTzifTailCutoffUtcSeconds. offset_walk o' new u =
         raw_offset (tt_types t) (zip (tt_times t) (tt_type_indices t)) o' u))
    (emit_transitions (tt_types t) (zip (tt_times t) (tt_type_indices t)) o' [])"
    by (rule emit_transitions_holds) (use assms(2) in \<open>auto simp: good_table_def dest: set_zip_rightD\<close>)
  moreover have "raw_offset (tt_types t) (zip (tt_times t) (tt_type_indices t)) o' u = table_offset_at data u" for u
    using table_offset [OF assms(1,2), of u] types by simp
  ultimately have "holds (\<lambda>(ts, b). continuous o' ts \<and>
      (\<forall>u < kTzifTailCutoffUtcSeconds. offset_walk o' ts u = table_offset_at data u))
    (emit_transitions (tt_types t) (zip (tt_times t) (tt_type_indices t)) o' [])"
    by (auto elim!: holds_mono)
  then show ?thesis
    unfolding zone_of_table_def types list.case
    by (rule holds_and_then) (use assms(2,3) types in \<open>auto simp: faithful_zone_def good_table_def\<close>)
qed

lemma parse_tzif_steps_holds:
  assumes "8216 < (2 :: nat) ^ w"
    and "first_block_length data + 5 < 2 ^ w \<or> 2 ^ w \<le> first_block_length data"
  shows "holds (faithful_zone zone_name data) (parse_tzif_steps w zone_name data)"
proof (cases "zone_name = [] \<or> 64 < length zone_name \<or> 8192 < length data")
  case True
  then show ?thesis by (auto simp: parse_tzif_steps_def)
next
  case False
  then have size: "length data + 24 < 2 ^ w" "44 < (2 :: nat) ^ w" using assms(1) by simp_all
  have "holds (faithful_zone zone_name data) (and_then (locate_second_block w data) (\<lambda>second_start.
      and_then (read_second_block w data second_start) (zone_of_table zone_name)))"
    using False
    by (intro holds_and_then [OF locate_in_bounds [OF size assms(2)]]
        holds_and_then [OF read_second_block_holds [OF size(1)]] zone_of_table_holds) auto
  with False show ?thesis by (simp add: parse_tzif_steps_def)
qed

section \<open>Windows\<close>

lemma fold_offset_late: "\<forall>t \<in> set ts. from < sint (tr_at_utc_seconds t) \<Longrightarrow> fold_offset from running ts = running"
  by (cases ts) auto

lemma emit_window_spec:
  assumes "continuous running ts"
    and "emit_window from until maximum ts acc n = Inr (out, m)"
  shows "\<exists>new. out = acc @ new \<and> m = n + length new \<and> (n \<le> maximum \<longrightarrow> m \<le> maximum) \<and>
    continuous (fold_offset from running ts) new \<and> set new \<subseteq> set ts \<and>
    (\<forall>t \<in> set new. from < sint (tr_at_utc_seconds t)) \<and>
    (\<forall>u. from \<le> u \<and> u \<le> until \<longrightarrow> offset_walk (fold_offset from running ts) new u = offset_walk running ts u)"
  using assms
proof (induction ts arbitrary: running acc n)
  case (Cons t ts)
  let ?at = "sint (tr_at_utc_seconds t)" and ?after = "tr_offset_after_seconds t"
  have chain: "continuous ?after ts" and later: "\<forall>t' \<in> set ts. ?at < sint (tr_at_utc_seconds t')"
    using Cons.prems(1) by simp_all
  consider (early) "?at \<le> from" | (late) "from < ?at" "until < ?at" | (inside) "from < ?at" "?at \<le> until"
    by linarith
  then show ?case
  proof cases
    case early
    with Cons.IH [OF chain, of acc n] Cons.prems(2) show ?thesis by fastforce
  next
    case late
    with Cons.prems(2) show ?thesis by (auto intro!: exI [of _ "[]"])
  next
    case inside
    with Cons.prems(2) have run: "emit_window from until maximum ts (acc @ [t]) (Suc n) = Inr (out, m)"
      and room: "Suc n \<le> maximum" by (auto split: if_splits)
    have "fold_offset from ?after ts = ?after" using later inside by (intro fold_offset_late) auto
    with Cons.IH [OF chain run] obtain new where new: "out = acc @ t # new" "m = Suc n + length new"
      "Suc n \<le> maximum \<longrightarrow> m \<le> maximum" "continuous ?after new" "set new \<subseteq> set ts"
      "\<forall>t \<in> set new. from < sint (tr_at_utc_seconds t)"
      "\<forall>u. from \<le> u \<and> u \<le> until \<longrightarrow> offset_walk ?after new u = offset_walk ?after ts u" by auto
    have "continuous running (t # new)" using Cons.prems(1) new(4,5) by auto
    with inside new room show ?thesis by (intro exI [of _ "t # new"]) auto
  qed
qed simp

lemma emit_window_exceeded:
  "emit_window from until maximum ts acc n = Inl m \<Longrightarrow> n \<le> maximum \<Longrightarrow> m = Suc maximum"
  by (induction ts arbitrary: acc n) (auto split: if_splits)

text \<open>A continuous chain whose instants are a day away from the least 64-bit value is accepted by the resolver.\<close>

lemma continuous_chain_walk:
  assumes "continuous running ts" "valid_tzif_offset running"
    and "\<forall>t \<in> set ts. i64_min + 86400 \<le> sint (tr_at_utc_seconds t)"
    and "case previous of None \<Rightarrow> True | Some p \<Rightarrow> \<forall>t \<in> set ts. p < sint (tr_at_utc_seconds t)"
  shows "chain_walk running previous ts"
  using assms
proof (induction ts arbitrary: running previous)
  case (Cons t ts)
  have offsets: "valid_utc_offset (tr_offset_before_seconds t)" "valid_utc_offset (tr_offset_after_seconds t)"
    "- 86400 \<le> sint (tr_offset_before_seconds t)" "- 86400 \<le> sint (tr_offset_after_seconds t)"
    "sint (tr_offset_before_seconds t) \<le> 86400" "sint (tr_offset_after_seconds t) \<le> 86400"
    using Cons.prems(1,2) by (simp_all add: valid_tzif_offset_def valid_utc_offset_def kSecondsPerDay_def)
  moreover have "can_add (sint (tr_at_utc_seconds t)) (sint (tr_offset_before_seconds t))"
    "can_add (sint (tr_at_utc_seconds t)) (sint (tr_offset_after_seconds t))"
    using Cons.prems(1,3) offsets unfolding can_add_def by auto
  moreover have "chain_walk (tr_offset_after_seconds t) (Some (sint (tr_at_utc_seconds t))) ts"
    using Cons.prems by (intro Cons.IH) simp_all
  ultimately show ?case using Cons.prems(1,4) by (auto split: option.splits)
qed simp

text \<open>What the adapter guarantees of one rule set.\<close>

definition faithful_rules :: "tzif_adapter_config \<Rightarrow> string \<Rightarrow> bytes \<Rightarrow> timezone_rules \<Rightarrow> bool" where
  "faithful_rules config zone_name data rules \<longleftrightarrow>
     tz_name rules = zone_name \<and> zone_name \<noteq> [] \<and> tz_version rules = cf_version config \<and>
     valid_tzif_offset (tz_initial_utc_offset_seconds rules) \<and>
     continuous (tz_initial_utc_offset_seconds rules) (tz_transitions rules) \<and>
     (\<forall>t \<in> set (tz_transitions rules). sint (cf_from_utc_seconds config) < sint (tr_at_utc_seconds t)) \<and>
     (\<forall>u. sint (cf_from_utc_seconds config) \<le> u \<and> u \<le> sint (cf_until_utc_seconds config) \<and>
        u < kTzifTailCutoffUtcSeconds \<longrightarrow> offset_at_utc rules u = table_offset_at data u)"

lemma fold_offset_valid:
  "continuous running ts \<Longrightarrow> valid_tzif_offset running \<Longrightarrow> valid_tzif_offset (fold_offset from running ts)"
  by (induction ts arbitrary: running) auto

lemma window_faithful:
  assumes "faithful_zone zone_name data zone"
    and "emit_window (sint (cf_from_utc_seconds config)) (sint (cf_until_utc_seconds config)) maximum
      (pz_transitions zone) [] n = Inr (out, m)"
  shows "faithful_rules config zone_name data
    \<lparr>tz_name = pz_zone_name zone, tz_version = cf_version config,
     tz_initial_utc_offset_seconds = fold_offset (sint (cf_from_utc_seconds config))
       (pz_initial_utc_offset_seconds zone) (pz_transitions zone), tz_transitions = out\<rparr>"
    and "m = n + length out" and "n \<le> maximum \<Longrightarrow> m \<le> maximum"
  using emit_window_spec [OF _ assms(2)] assms(1) fold_offset_valid
  by (auto simp: faithful_zone_def faithful_rules_def offset_at_utc_def)

section \<open>The whole adapter\<close>

text \<open>The widths of \<open>std::size_t\<close> of the target and of a host build.\<close>

abbreviation size_width :: "nat \<Rightarrow> bool" where
  "size_width w \<equiv> w = 32 \<or> w = 64"

lemma width_bounds: "size_width w \<Longrightarrow> 8216 < (2 :: nat) ^ w \<and> 44 < (2 :: nat) ^ w"
  by auto

lemma steps_holds:
  assumes "size_width w"
  shows "parse_tzif_steps w zone_name data = Out_of_bounds \<longleftrightarrow>
      zone_name \<noteq> [] \<and> length zone_name \<le> 64 \<and> length data \<le> 8192 \<and> readable_header data \<and>
      2 ^ w \<le> first_block_length data + 4 \<and> first_block_length data < 2 ^ w" (is ?bounds)
    and "parse_tzif_steps w zone_name data = Out_of_bounds \<or>
      holds (faithful_zone zone_name data) (parse_tzif_steps w zone_name data)" (is ?outcome)
proof -
  let ?L = "first_block_length data"
  note width = width_bounds [OF assms]
  have "?bounds \<and> ?outcome"
  proof (cases "?L + 5 < 2 ^ w \<or> 2 ^ w \<le> ?L")
    case True
    with parse_tzif_steps_holds [of w data zone_name] width show ?thesis by auto
  next
    case False
    show ?thesis
    proof (cases "zone_name = [] \<or> 64 < length zone_name \<or> 8192 < length data")
      case True
      then show ?thesis by (auto simp: parse_tzif_steps_def)
    next
      case checked: False
      with False width locate_wrapped [of data w] show ?thesis
        by (cases "locate_second_block w data") (auto simp: parse_tzif_steps_def)
    qed
  qed
  then show ?bounds ?outcome by (rule conjunct1, rule conjunct2)
qed

lemma parse_tzif_zone_ok:
  assumes "size_width w" "parse_tzif_zone w zone_name data = Some (issue, zone)"
  shows "ti_zone_name issue = zone_name" "ti_status issue = TZ_ok \<Longrightarrow> faithful_zone zone_name data zone"
  using assms steps_holds(2) [OF assms(1), of zone_name data]
  by (auto simp: parse_tzif_zone_def split: outcome.splits)

text \<open>The loop over the zones.\<close>

definition accounted ::
    "tzif_adapter_config \<Rightarrow> (string \<times> bytes) list \<Rightarrow> timezone_rules list \<Rightarrow> tzif_parse_issue list \<Rightarrow>
     tzif_adapter_result \<Rightarrow> bool" where
  "accounted config zones prepared issues r \<longleftrightarrow>
     mset (map tz_name (tf_zones r)) + mset (map ti_zone_name (tf_issues r)) =
       mset (map tz_name prepared) + mset (map ti_zone_name issues) + mset (map fst zones) \<and>
     sorted (map tz_name (tf_zones r)) \<and>
     (\<forall>rules \<in> set (tf_zones r). rules \<in> set prepared \<or>
        (\<exists>(zone_name, data) \<in> set zones. faithful_rules config zone_name data rules)) \<and>
     (\<forall>i \<in> set (tf_issues r). i \<in> set issues \<or> ti_status i \<noteq> TZ_ok) \<and>
     tf_total_emitted_transitions r = (\<Sum>rules \<leftarrow> tf_zones r. length (tz_transitions rules)) \<and>
     tf_total_emitted_transitions r \<le> cf_maximum_total_transitions config"

definition over_budget :: "tzif_adapter_config \<Rightarrow> tzif_adapter_result \<Rightarrow> bool" where
  "over_budget config r \<longleftrightarrow>
     tf_zones r = [] \<and> tf_total_emitted_transitions r = 0 \<and> tf_issues r \<noteq> [] \<and>
     ti_status (last (tf_issues r)) = TZ_excessive_counts \<and>
     ti_detail_index (last (tf_issues r)) = Suc (cf_maximum_total_transitions config)"

lemma sum_list_sort_key: "(\<Sum>x \<leftarrow> sort_key k xs. f x) = (\<Sum>x \<leftarrow> xs. f x :: nat)"
  by (metis mset_map mset_sort sum_mset_sum_list)

lemma build_zones_spec:
  assumes "size_width w" and "build_zones w config zones prepared issues n = Some r"
    and "n = (\<Sum>rules \<leftarrow> prepared. length (tz_transitions rules))"
    and "n \<le> cf_maximum_total_transitions config"
  shows "if tf_budget_exceeded r then over_budget config r else accounted config zones prepared issues r"
  using assms(2-)
proof (induction zones arbitrary: prepared issues n)
  case Nil
  then show ?case by (auto simp: Let_def accounted_def sum_list_sort_key)
next
  case (Cons z zones)
  obtain zone_name data where z: "z = (zone_name, data)" by fastforce
  from Cons.prems(1) obtain issue zone where parse: "parse_tzif_zone w zone_name data = Some (issue, zone)"
    unfolding z by (auto split: option.splits)
  note ok = parse_tzif_zone_ok [OF assms(1) parse]
  show ?case
  proof (cases "ti_status issue = TZ_ok")
    case False
    with Cons.prems(1) parse have run: "build_zones w config zones prepared (issues @ [issue]) n = Some r"
      unfolding z by simp
    from Cons.IH [OF run Cons.prems(2,3)] False ok(1) show ?thesis
      unfolding z by (auto simp: accounted_def split: if_splits)
  next
    case True
    let ?window = "emit_window (sint (cf_from_utc_seconds config)) (sint (cf_until_utc_seconds config))
      (cf_maximum_total_transitions config) (pz_transitions zone) [] n"
    show ?thesis
    proof (cases ?window)
      case (Inl m)
      with emit_window_exceeded [OF Inl] Cons.prems True parse show ?thesis
        unfolding z by (auto simp: Let_def over_budget_def)
    next
      case (Inr p)
      obtain out m where p: "p = (out, m)" by fastforce
      define rules where "rules = \<lparr>tz_name = pz_zone_name zone, tz_version = cf_version config,
        tz_initial_utc_offset_seconds = fold_offset (sint (cf_from_utc_seconds config))
          (pz_initial_utc_offset_seconds zone) (pz_transitions zone), tz_transitions = out\<rparr>"
      note window = window_faithful [OF ok(2) [OF True] Inr [unfolded p], folded rules_def]
      have run: "build_zones w config zones (prepared @ [rules]) issues m = Some r"
        using Cons.prems(1) parse True Inr p unfolding z by (simp add: Let_def rules_def)
      have "if tf_budget_exceeded r then over_budget config r
        else accounted config zones (prepared @ [rules]) issues r"
        by (rule Cons.IH [OF run])
          (use Cons.prems(2,3) window in \<open>simp_all add: rules_def\<close>)
      moreover have "tz_name rules = zone_name" using window(1) by (simp add: faithful_rules_def)
      ultimately show ?thesis
        using window(1) unfolding z by (auto simp: accounted_def split: if_splits)
    qed
  qed
qed

lemma build_spec:
  assumes "size_width w" and "build_pinned_timezone_rules w zones config = Some r"
  shows "if tf_budget_exceeded r then over_budget config r else accounted config zones [] [] r"
  using build_zones_spec [OF assms(1), of config zones "[]" "[]" 0 r] assms(2)
  by (simp add: build_pinned_timezone_rules_def)

lemma build_faithful:
  assumes "size_width w" and "build_pinned_timezone_rules w zones config = Some r"
    and "rules \<in> set (tf_zones r)"
  shows "\<exists>(zone_name, data) \<in> set zones. faithful_rules config zone_name data rules"
  using build_spec [OF assms(1,2)] assms(3) by (auto simp: over_budget_def accounted_def split: if_splits)

section \<open>Properties\<close>

text \<open>
  C31: exactly which records make the parser read out of bounds. With a \<open>std::size_t\<close> of 64 bits
  none does. With the 32-bit one of the target a short record does, whose first header declares
  a block of at least \<open>2^32 - 4\<close> bytes that still fits: the checks \<open>second_start + 5\<close> and
  \<open>offset + 4\<close> wrap to a small position, and \<open>data[second_start]\<close> is read.
\<close>

theorem tzif_reads_in_bounds:
  "parse_tzif_zone 64 zone_name data \<noteq> None \<and>
   (parse_tzif_zone 32 zone_name data = None \<longleftrightarrow>
      zone_name \<noteq> [] \<and> length zone_name \<le> 64 \<and> length data \<le> 8192 \<and> readable_header data \<and>
      2 ^ 32 - 4 \<le> first_block_length data \<and> first_block_length data < 2 ^ 32)"
proof -
  have "parse_tzif_zone w zone_name data = None \<longleftrightarrow> parse_tzif_steps w zone_name data = Out_of_bounds" for w
    by (simp add: parse_tzif_zone_def split: outcome.split)
  with steps_holds(1) [of 64 zone_name data] steps_holds(1) [of 32 zone_name data]
    first_block_length_bound [of data]
  show ?thesis by auto
qed

text \<open>A record of one header, which declares 4294967251 designation bytes, is such a record.\<close>

lemma tzif_short_record_out_of_bounds:
  "parse_tzif_zone 32 ''UTC'' (kTzifMagic @ [0x32] @ replicate 35 0 @ [0xff, 0xff, 0xff, 0xd3]) = None"
  by code_simp

text \<open>A record with a change from 3600 to 7200 seconds at 1774746000, and a window around it.\<close>

definition sample_record :: bytes where
  "sample_record =
     kTzifMagic @ [0x32] @ replicate 39 0 @
     kTzifMagic @ [0x32] @ replicate 15 0 @ replicate 12 0 @ [0, 0, 0, 1, 0, 0, 0, 2, 0, 0, 0, 4] @
     [0, 0, 0, 0, 105, 200, 121, 144] @ [1] @ [0, 0, 14, 16, 0, 0] @ [0, 0, 28, 32, 1, 0] @ [67, 69, 84, 0]"

definition sample_config :: tzif_adapter_config where
  "sample_config =
     \<lparr>cf_version = ''iana-2026a'', cf_from_utc_seconds = 1767225600,
      cf_until_utc_seconds = 1798761600, cf_maximum_total_transitions = 8\<rparr>"

definition sample_zones :: "timezone_rules list" where
  "sample_zones =
     [\<lparr>tz_name = ''Europe/Berlin'', tz_version = ''iana-2026a'', tz_initial_utc_offset_seconds = 3600,
       tz_transitions = [\<lparr>tr_at_utc_seconds = 1774746000, tr_offset_before_seconds = 3600,
                          tr_offset_after_seconds = 7200\<rparr>]\<rparr>]"

lemma sample_steps:
  "parse_tzif_steps 32 ''Europe/Berlin'' sample_record =
     zone_of_table ''Europe/Berlin'' \<lparr>tt_times = [1774746000], tt_type_indices = [1], tt_types = [3600, 7200]\<rparr>"
proof -
  let ?c = "\<lparr>tc_isut = 0, tc_isstd = 0, tc_leap = 0, tc_time = 0, tc_type = 0, tc_character = 0\<rparr>"
  let ?d = "\<lparr>tc_isut = 0, tc_isstd = 0, tc_leap = 0, tc_time = 1, tc_type = 2, tc_character = 4\<rparr>"
  have c: "has_tzif_magic 32 sample_record 0 = Some True" "has_tzif_magic 32 sample_record 44 = Some True"
    "read_counts 32 sample_record 20 = Some (Some ?c, 44)" "block_byte_length 32 ?c True = Some 44"
    "byte_at sample_record (size_add 32 44 4) = Some 0x32"
    "size_sub 32 (length sample_record) 44 = 69" "\<not> length sample_record < size_add 32 44 5"
    by code_simp+
  then have locate: "locate_second_block 32 sample_record = Accepted 44"
    by (simp add: locate_second_block_def demand_def)
  have "read_counts 32 sample_record (size_add 32 44 20) = Some (Some ?d, 88)"
    "block_byte_length 32 ?d False = Some 69" by code_simp+
  moreover have "reader_i64 32 sample_record 88 = Some (Some 1774746000, 96)"
    "reader_u8 32 sample_record 96 = Some (Some 1, 97)"
    "read_local_time_type 32 sample_record 97 = Some (Some 3600, 103)"
    "read_local_time_type 32 sample_record 103 = Some (Some 7200, 109)" by code_simp+
  then have "read_times 32 sample_record (Suc 0) 0 88 [] = Accepted ([1774746000], 96)"
    "read_type_indices 32 sample_record 2 (Suc 0) 0 96 [] = Accepted ([1], 97)"
    "read_types 32 sample_record (Suc (Suc 0)) 0 97 [] = Accepted ([3600, 7200], 109)"
    by (simp_all add: demand_def valid_tzif_offset_def)
  ultimately have "read_second_block 32 sample_record 44 =
      Accepted \<lparr>tt_times = [1774746000], tt_type_indices = [1], tt_types = [3600, 7200]\<rparr>"
    using c by (simp add: read_second_block_def demand_def numeral_2_eq_2)
  moreover have "length sample_record = 113" by code_simp
  ultimately show ?thesis using locate by (simp add: parse_tzif_steps_def)
qed

lemma sample_zone:
  "parse_tzif_zone 32 ''Europe/Berlin'' sample_record =
     Some (\<lparr>ti_zone_name = ''Europe/Berlin'', ti_status = TZ_ok, ti_detail_index = 0\<rparr>,
       \<lparr>pz_zone_name = ''Europe/Berlin'', pz_initial_utc_offset_seconds = 3600,
        pz_transitions = tz_transitions (hd sample_zones), pz_source_transition_count = 1,
        pz_emitted_transition_count = 1, pz_truncated_at_cutoff = False\<rparr>)"
  unfolding parse_tzif_zone_def sample_steps
  by (simp add: zone_of_table_def Let_def sample_zones_def)

lemma sample_build:
  "build_pinned_timezone_rules 32 [(''Europe/Berlin'', sample_record)] sample_config =
     Some \<lparr>tf_version = ''iana-2026a'', tf_zones = sample_zones, tf_issues = [],
           tf_total_emitted_transitions = 1, tf_budget_exceeded = False\<rparr>"
  unfolding build_pinned_timezone_rules_def build_zones.simps sample_zone option.case prod.case
  by (simp add: sample_config_def sample_zones_def)

text \<open>
  C32: the rules of a zone say what its record says. At every instant inside the window, before
  the tail cutoff, the offset of the emitted rules is the one of the record's transition table:
  the type of the last transition at or before the instant, or type 0. Before the table's last
  transition that is the offset of RFC 8536, whatever the footer; from the last transition on
  the adapter keeps that transition's type and never reads the footer, which RFC 8536 would follow.
\<close>

theorem adapter_offsets_exact:
  assumes "w = 32 \<or> w = 64" and "build_pinned_timezone_rules w zones config = Some r"
    and "rules \<in> set (tf_zones r)"
    and "sint (cf_from_utc_seconds config) \<le> u" "u \<le> sint (cf_until_utc_seconds config)"
    and "u < kTzifTailCutoffUtcSeconds"
  shows "\<exists>(zone_name, data) \<in> set zones. tz_name rules = zone_name \<and>
    offset_at_utc rules u = table_offset_at data u \<and>
    (has_later_transition data u \<longrightarrow> offset_at_utc rules u = rfc8536_offset_at footer data u)"
  using build_faithful [OF assms(1-3)] assms(4-6)
  by (force simp: faithful_rules_def rfc8536_offset_at_def)

lemma adapter_offsets_exact_witness:
  "offset_at_utc (hd sample_zones) 1780000000 = table_offset_at sample_record 1780000000 \<and>
   offset_at_utc (hd sample_zones) 1770000000 = rfc8536_offset_at (\<lambda>_. 0) sample_record 1770000000"
proof -
  have later: "has_later_transition sample_record 1770000000" by code_simp
  have exact: "offset_at_utc (hd sample_zones) u = table_offset_at sample_record u \<and>
      (has_later_transition sample_record u \<longrightarrow>
        offset_at_utc (hd sample_zones) u = rfc8536_offset_at (\<lambda>_. 0) sample_record u)"
    if "1767225600 \<le> u" "u \<le> 1798761600" for u
    using adapter_offsets_exact [OF _ sample_build, of "hd sample_zones" u "\<lambda>_. 0"] that
    by (auto simp: sample_zones_def sample_config_def)
  from exact [of 1780000000] have "offset_at_utc (hd sample_zones) 1780000000 = table_offset_at sample_record 1780000000"
    by simp
  moreover from exact [of 1770000000, THEN conjunct2, rule_format, OF _ _ later]
  have "offset_at_utc (hd sample_zones) 1770000000 = rfc8536_offset_at (\<lambda>_. 0) sample_record 1770000000" by simp
  ultimately show ?thesis by (rule conjI)
qed

text \<open>
  C33: when the resolver refuses the rules of the adapter. Let the window start at least a day
  after the least 64-bit instant. Rules that pass the adapter's provenance check for a schedule
  have a valid transition chain, and resolving the schedule under them ends in
  \<open>invalid_rules\<close> exactly when the configured version is empty, which the check lets pass,
  and the time and weekdays of the schedule are legal.
\<close>

theorem adapter_rules_refused_iff:
  assumes "w = 32 \<or> w = 64" and "build_pinned_timezone_rules w zones config = Some r"
    and "rules \<in> set (tf_zones r)" and "adapter_rules_match_schedule schedule rules"
    and "i64_min + 86400 \<le> sint (cf_from_utc_seconds config)"
  shows "has_valid_transition_chain rules \<and>
    (or_status (resolve_next_occurrence schedule rules after_utc) = OR_invalid_rules \<longleftrightarrow>
       cf_version config = [] \<and> ws_local_hour schedule \<le> 23 \<and> ws_local_minute schedule \<le> 59 \<and>
       ws_iso_weekday_mask schedule \<noteq> 0 \<and> ws_iso_weekday_mask schedule AND NOT kAllIsoWeekdays = 0)"
proof -
  from build_faithful [OF assms(1-3)] obtain zone_name data where
    rules: "faithful_rules config zone_name data rules" by auto
  have "valid_utc_offset (tz_initial_utc_offset_seconds rules)"
    using rules by (simp add: faithful_rules_def valid_tzif_offset_def valid_utc_offset_def kSecondsPerDay_def)
  moreover have "chain_walk (tz_initial_utc_offset_seconds rules) None (tz_transitions rules)"
    by (rule continuous_chain_walk) (use rules assms(5) in \<open>fastforce simp: faithful_rules_def\<close>)+
  ultimately have valid: "has_valid_transition_chain rules" by (simp add: has_valid_transition_chain_def)
  have days: "or_status (resolve_days schedule rules u anchor deltas) \<noteq> OR_invalid_rules" for u anchor deltas
    by (induction deltas) (simp_all add: failed_resolution_def Let_def split: option.split)
  have names: "ws_timezone_name schedule \<noteq> []" "tz_name rules = ws_timezone_name schedule"
    "ws_timezone_rules_version schedule = cf_version config" "tz_version rules = cf_version config"
    using rules assms(4) by (simp_all add: faithful_rules_def adapter_rules_match_schedule_def)
  show ?thesis
    using valid names days
    by (auto simp: resolve_next_occurrence_def Let_def failed_resolution_def not_less split: if_splits)
qed

lemma adapter_rules_refused_iff_witness:
  "or_status (resolve_next_occurrence sample_schedule (hd sample_zones) 1774656000) \<noteq> OR_invalid_rules"
  using adapter_rules_refused_iff [OF _ sample_build, of "hd sample_zones" sample_schedule]
  by (simp add: sample_zones_def sample_config_def sample_schedule_def adapter_rules_match_schedule_def)

text \<open>
  C34: no zone is lost silently. If the budget holds, every zone is either among the rules, which
  are sorted by name, or reported with the status of its refusal, and the total is the number
  of emitted transitions. If it does not, no rules are returned at all and the last issue says
  at which count the budget broke.
\<close>

theorem adapter_accounts_for_every_zone:
  assumes "w = 32 \<or> w = 64" and "build_pinned_timezone_rules w zones config = Some r"
  shows "if tf_budget_exceeded r
    then tf_zones r = [] \<and> tf_total_emitted_transitions r = 0 \<and> tf_issues r \<noteq> [] \<and>
      ti_status (last (tf_issues r)) = TZ_excessive_counts \<and>
      ti_detail_index (last (tf_issues r)) = Suc (cf_maximum_total_transitions config)
    else mset (map tz_name (tf_zones r)) + mset (map ti_zone_name (tf_issues r)) = mset (map fst zones) \<and>
      sorted (map tz_name (tf_zones r)) \<and> TZ_ok \<notin> ti_status ` set (tf_issues r) \<and>
      tf_total_emitted_transitions r = (\<Sum>rules \<leftarrow> tf_zones r. length (tz_transitions rules)) \<and>
      tf_total_emitted_transitions r \<le> cf_maximum_total_transitions config"
proof (cases "tf_budget_exceeded r")
  case True
  with build_spec [OF assms] show ?thesis by (simp add: over_budget_def)
next
  case False
  with build_spec [OF assms] have "accounted config zones [] [] r" by simp
  with False show ?thesis by (auto simp: accounted_def)
qed

lemma adapter_accounts_for_every_zone_witness:
  "mset (map tz_name sample_zones) = {# ''Europe/Berlin'' #}"
  using adapter_accounts_for_every_zone [OF _ sample_build] by simp

end
