(* ===== verification/Json_Parser.thy ===== *)
theory Json_Parser
  imports Protocol_Service
begin

text \<open>
  The JSON parser for untrusted message bodies, \<open>json_parser.cpp\<close>.

  The position in the text is the list of the characters that are left; the depth is the number
  of levels that are left; the node counter is threaded through. The parser object writes its
  value and its error into the result, here each step returns one of the two. The loops over
  members and elements have fuel, and \<open>Json_Properties\<close> shows that it never runs out.
\<close>

section \<open>Types\<close>

abbreviation kJsonMaximumDepth :: nat where "kJsonMaximumDepth \<equiv> 16"
abbreviation kJsonMaximumNodes :: nat where "kJsonMaximumNodes \<equiv> 8192"
abbreviation kJsonMaximumStringBytes :: nat where "kJsonMaximumStringBytes \<equiv> 2048"

text \<open>The kinds of a value with the field that each kind uses.\<close>

datatype json_value =
    JObject "(string \<times> json_value) list"
  | JArray "json_value list"
  | JString string
  | JInteger i64
  | JBoolean bool
  | JNull

datatype json_parse_code =
    JP_ok
  | JP_input_too_large
  | JP_invalid_json
  | JP_number_range
  | JP_string_limit
  | JP_duplicate_key
  | JP_depth_limit
  | JP_node_limit
  | JP_trailing_content

record json_parse_error =
  je_code :: json_parse_code
  je_path :: string

record json_parse_result =
  jr_ok :: bool
  jr_value :: json_value
  jr_error :: json_parse_error

datatype 'a json_step =
    Exhausted
  | Failed json_parse_code string
  | Parsed 'a string nat

section \<open>UTF-8\<close>

text \<open>
  Bytes and code points are numbers: \<open>b AND 0x3F\<close> is \<open>b mod 64\<close>, \<open>cp << 6 OR b\<close> is
  \<open>cp * 64 + b\<close> for \<open>b < 64\<close>.
\<close>

definition byte_val :: "char \<Rightarrow> nat" where
  "byte_val c = of_char c"

definition utf8_lead :: "nat \<Rightarrow> (nat \<times> nat) option" where
  "utf8_lead b0 =
     (if 0xC2 \<le> b0 \<and> b0 \<le> 0xDF then Some (1, b0 mod 32)
      else if 0xE0 \<le> b0 \<and> b0 \<le> 0xEF then Some (2, b0 mod 16)
      else if 0xF0 \<le> b0 \<and> b0 \<le> 0xF4 then Some (3, b0 mod 8)
      else None)"

fun utf8_continue :: "nat \<Rightarrow> string \<Rightarrow> nat option" where
  "utf8_continue cp [] = Some cp"
| "utf8_continue cp (c # cs) =
     (let b = byte_val c in
      if b < 0x80 \<or> 0xBF < b then None else utf8_continue (cp * 64 + b mod 64) cs)"

fun is_valid_utf8 :: "string \<Rightarrow> bool" where
  "is_valid_utf8 [] = True"
| "is_valid_utf8 (c # text) =
     (if byte_val c < 0x80 then is_valid_utf8 text
      else case utf8_lead (byte_val c) of
        None \<Rightarrow> False
      | Some (extra, cp0) \<Rightarrow>
          if length text < extra then False
          else case utf8_continue cp0 (take extra text) of
            None \<Rightarrow> False
          | Some cp \<Rightarrow>
              if extra = 2 \<and> cp < 0x800 then False
              else if extra = 3 \<and> cp < 0x10000 then False
              else if 0x10FFFF < cp then False
              else if 0xD800 \<le> cp \<and> cp \<le> 0xDFFF then False
              else is_valid_utf8 (drop extra text))"

definition encode_code_point :: "nat \<Rightarrow> string" where
  "encode_code_point cp =
     (if cp < 0x80 then [char_of cp]
      else if cp < 0x800 then [char_of (0xC0 + cp div 64), char_of (0x80 + cp mod 64)]
      else if cp < 0x10000
      then [char_of (0xE0 + cp div 4096), char_of (0x80 + cp div 64 mod 64),
            char_of (0x80 + cp mod 64)]
      else [char_of (0xF0 + cp div 262144), char_of (0x80 + cp div 4096 mod 64),
            char_of (0x80 + cp div 64 mod 64), char_of (0x80 + cp mod 64)])"

section \<open>Strings\<close>

definition hex_digit :: "char \<Rightarrow> nat option" where
  "hex_digit c =
     (let b = byte_val c in
      if 48 \<le> b \<and> b \<le> 57 then Some (b - 48)
      else if 97 \<le> b \<and> b \<le> 102 then Some (b - 97 + 10)
      else if 65 \<le> b \<and> b \<le> 70 then Some (b - 65 + 10)
      else None)"

text \<open>Four hexadecimal digits and what is left.\<close>

fun hex4 :: "string \<Rightarrow> (nat \<times> string) option" where
  "hex4 (a # b # c # d # rest) =
     (case (hex_digit a, hex_digit b, hex_digit c, hex_digit d) of
        (Some w, Some x, Some y, Some z) \<Rightarrow> Some (((w * 16 + x) * 16 + y) * 16 + z, rest)
      | _ \<Rightarrow> None)"
| "hex4 _ = None"

text \<open>The switch over the character after the backslash: the code point of a short escape.\<close>

definition short_escape :: "char \<Rightarrow> char option" where
  "short_escape e =
     (if e = CHR 0x22 then Some (CHR 0x22)
      else if e = CHR 0x5C then Some (CHR 0x5C)
      else if e = CHR ''/'' then Some (CHR ''/'')
      else if e = CHR ''b'' then Some (CHR 0x08)
      else if e = CHR ''f'' then Some (CHR 0x0C)
      else if e = CHR ''n'' then Some (CHR 0x0A)
      else if e = CHR ''r'' then Some (CHR 0x0D)
      else if e = CHR ''t'' then Some (CHR 0x09)
      else None)"

text \<open>The case \<open>u\<close>: a code point, or two surrogates that make one.\<close>

definition unicode_escape :: "string \<Rightarrow> (nat \<times> string) option" where
  "unicode_escape text =
     (case hex4 text of
        None \<Rightarrow> None
      | Some (cp, rest) \<Rightarrow>
          if 0xD800 \<le> cp \<and> cp \<le> 0xDBFF
          then if length rest < 6 \<or> rest ! 0 \<noteq> CHR 0x5C \<or> rest ! 1 \<noteq> CHR ''u'' then None
            else (case hex4 (drop 2 rest) of
                    None \<Rightarrow> None
                  | Some (low, rest) \<Rightarrow>
                      if low < 0xDC00 \<or> 0xDFFF < low then None
                      else Some (0x10000 + (cp - 0xD800) * 1024 + (low - 0xDC00), rest))
          else if 0xDC00 \<le> cp \<and> cp \<le> 0xDFFF then None
          else Some (cp, rest))"

text \<open>\<open>text\<close> is what follows the backslash; the result is the longer output and the rest.\<close>

definition parse_escape :: "string \<Rightarrow> string \<Rightarrow> json_parse_code + (string \<times> string)" where
  "parse_escape out text =
     (case text of
        [] \<Rightarrow> Inl JP_invalid_json
      | e # rest \<Rightarrow>
          (case (if e = CHR ''u''
                 then map_option (\<lambda>(cp, rest). (out @ encode_code_point cp, rest)) (unicode_escape rest)
                 else map_option (\<lambda>c. (out @ [c], rest)) (short_escape e)) of
             None \<Rightarrow> Inl JP_invalid_json
           | Some (out, rest) \<Rightarrow>
               if kJsonMaximumStringBytes < length out then Inl JP_string_limit
               else Inr (out, rest)))"

lemma hex4_length: "hex4 text = Some (cp, rest) \<Longrightarrow> length text = length rest + 4"
  by (induction "text" rule: hex4.induct) (auto split: option.splits)

lemma unicode_escape_length: "unicode_escape text = Some (cp, rest) \<Longrightarrow> length rest < length text"
  by (auto simp: unicode_escape_def dest!: hex4_length split: option.splits if_splits)

lemma parse_escape_length: "parse_escape out text = Inr (out', rest) \<Longrightarrow> length rest < length text"
  by (auto simp: parse_escape_def dest!: unicode_escape_length split: list.splits option.splits if_splits)

text \<open>The loop of \<open>parse_raw_string\<close>, after the opening quote.\<close>

function parse_chars :: "string \<Rightarrow> string \<Rightarrow> json_parse_code + (string \<times> string)" where
  "parse_chars out text =
     (case text of
        [] \<Rightarrow> Inl JP_invalid_json
      | c # rest \<Rightarrow>
          if c = CHR 0x22 then Inr (out, rest)
          else if c = CHR 0x5C
          then (case parse_escape out rest of
                  Inl code \<Rightarrow> Inl code
                | Inr (out, rest) \<Rightarrow> parse_chars out rest)
          else if byte_val c < 0x20 then Inl JP_invalid_json
          else if kJsonMaximumStringBytes < length (out @ [c]) then Inl JP_string_limit
          else parse_chars (out @ [c]) rest)"
  by pat_completeness auto

termination
  by (relation "measure (length \<circ> snd)") (auto dest: parse_escape_length)

declare parse_chars.simps [simp del]

definition parse_raw_string :: "string \<Rightarrow> json_parse_code + (string \<times> string)" where
  "parse_raw_string text =
     (case parse_chars [] text of
        Inl code \<Rightarrow> Inl code
      | Inr (out, rest) \<Rightarrow> if is_valid_utf8 out then Inr (out, rest) else Inl JP_invalid_json)"

section \<open>Numbers\<close>

text \<open>
  \<open>std::from_chars\<close> reads the whole token, which is an optional sign and digits; it fails when
  the number is not a 64-bit one.
\<close>

definition parse_digits :: "string \<Rightarrow> bool \<Rightarrow> string \<Rightarrow> nat \<Rightarrow> json_value json_step" where
  "parse_digits path negative text nodes =
     (if text = [] \<or> \<not> isdigit (hd text) then Failed JP_invalid_json path
      else
        let digits = (if hd text = CHR ''0'' then [hd text] else takeWhile isdigit text);
            rest = drop (length digits) text
        in if hd text = CHR ''0'' \<and> rest \<noteq> [] \<and> isdigit (hd rest) then Failed JP_invalid_json path
           else if rest \<noteq> [] \<and> hd rest \<in> {CHR ''.'', CHR ''e'', CHR ''E''}
           then Failed JP_number_range path
           else
             let parsed = (if negative then - digits_to_int digits else digits_to_int digits)
             in if parsed < i64_min \<or> i64_max < parsed then Failed JP_number_range path
                else Parsed (JInteger (word_of_int parsed)) rest nodes)"

definition parse_number :: "string \<Rightarrow> string \<Rightarrow> nat \<Rightarrow> json_value json_step" where
  "parse_number path text nodes =
     (if text \<noteq> [] \<and> hd text = CHR ''-'' then parse_digits path True (tl text) nodes
      else parse_digits path False text nodes)"

section \<open>Values\<close>

definition is_ws :: "char \<Rightarrow> bool" where
  "is_ws c \<longleftrightarrow> c \<in> {CHR '' '', CHR 0x09, CHR 0x0A, CHR 0x0D}"

definition skip_ws :: "string \<Rightarrow> string" where
  "skip_ws text = dropWhile is_ws text"

definition literal :: "string \<Rightarrow> string \<Rightarrow> string option" where
  "literal expected text =
     (if take (length expected) text \<noteq> expected then None else Some (drop (length expected) text))"

definition parse_literal ::
    "string \<Rightarrow> json_value \<Rightarrow> string \<Rightarrow> string \<Rightarrow> nat \<Rightarrow> json_value json_step" where
  "parse_literal expected v path text nodes =
     (case literal expected text of
        None \<Rightarrow> Failed JP_invalid_json path
      | Some rest \<Rightarrow> Parsed v rest nodes)"

type_synonym value_parser = "string \<Rightarrow> string \<Rightarrow> nat \<Rightarrow> json_value json_step"

fun parse_members ::
    "value_parser \<Rightarrow> nat \<Rightarrow> string \<Rightarrow> (string \<times> json_value) list \<Rightarrow> string \<Rightarrow> nat \<Rightarrow>
     json_value json_step" where
  "parse_members pv 0 path members text nodes = Exhausted"
| "parse_members pv (Suc fuel) path members text nodes =
     (case skip_ws text of
        [] \<Rightarrow> Failed JP_invalid_json path
      | c # text \<Rightarrow>
          if c \<noteq> CHR 0x22 then Failed JP_invalid_json path
          else case parse_raw_string text of
            Inl code \<Rightarrow> Failed code path
          | Inr (key, text) \<Rightarrow>
              (case skip_ws text of
                 [] \<Rightarrow> Failed JP_invalid_json path
               | c # text \<Rightarrow>
                   if c \<noteq> CHR '':'' then Failed JP_invalid_json path
                   else
                     let child_path = path @ ''/'' @ key in
                     (case pv child_path (skip_ws text) nodes of
                        Exhausted \<Rightarrow> Exhausted
                      | Failed code where \<Rightarrow> Failed code where
                      | Parsed v text nodes \<Rightarrow>
                          if key \<in> set (map fst members) then Failed JP_duplicate_key child_path
                          else
                            let members = members @ [(key, v)] in
                            (case skip_ws text of
                               [] \<Rightarrow> Failed JP_invalid_json path
                             | c # text \<Rightarrow>
                                 if c = CHR '','' then parse_members pv fuel path members text nodes
                                 else if c = CHR 0x7D then Parsed (JObject members) text nodes
                                 else Failed JP_invalid_json path))))"

fun parse_elements ::
    "value_parser \<Rightarrow> nat \<Rightarrow> string \<Rightarrow> json_value list \<Rightarrow> string \<Rightarrow> nat \<Rightarrow> json_value json_step" where
  "parse_elements pv 0 path elements text nodes = Exhausted"
| "parse_elements pv (Suc fuel) path elements text nodes =
     (let child_path = path @ ''/'' @ decimal (length elements) in
      case pv child_path (skip_ws text) nodes of
        Exhausted \<Rightarrow> Exhausted
      | Failed code where \<Rightarrow> Failed code where
      | Parsed v text nodes \<Rightarrow>
          let elements = elements @ [v] in
          (case skip_ws text of
             [] \<Rightarrow> Failed JP_invalid_json path
           | c # text \<Rightarrow>
               if c = CHR '','' then parse_elements pv fuel path elements text nodes
               else if c = CHR '']'' then Parsed (JArray elements) text nodes
               else Failed JP_invalid_json path))"

text \<open>After the opening brace or bracket.\<close>

definition parse_object :: "value_parser \<Rightarrow> value_parser" where
  "parse_object pv path text nodes =
     (case skip_ws text of
        c # rest \<Rightarrow>
          if c = CHR 0x7D then Parsed (JObject []) rest nodes
          else parse_members pv (Suc (length text)) path [] (c # rest) nodes
      | [] \<Rightarrow> parse_members pv (Suc (length text)) path [] [] nodes)"

definition parse_array :: "value_parser \<Rightarrow> value_parser" where
  "parse_array pv path text nodes =
     (case skip_ws text of
        c # rest \<Rightarrow>
          if c = CHR '']'' then Parsed (JArray []) rest nodes
          else parse_elements pv (Suc (length text)) path [] (c # rest) nodes
      | [] \<Rightarrow> parse_elements pv (Suc (length text)) path [] [] nodes)"

definition parse_string_value :: value_parser where
  "parse_string_value path text nodes =
     (case parse_raw_string text of
        Inl code \<Rightarrow> Failed code path
      | Inr (out, rest) \<Rightarrow> Parsed (JString out) rest nodes)"

definition parse_dispatch :: "value_parser \<Rightarrow> value_parser" where
  "parse_dispatch pv path text nodes =
     (let c = hd text in
      if c = CHR 0x7B then parse_object pv path (tl text) nodes
      else if c = CHR ''['' then parse_array pv path (tl text) nodes
      else if c = CHR 0x22 then parse_string_value path (tl text) nodes
      else if c = CHR ''t'' then parse_literal ''true'' (JBoolean True) path text nodes
      else if c = CHR ''f'' then parse_literal ''false'' (JBoolean False) path text nodes
      else if c = CHR ''n'' then parse_literal ''null'' JNull path text nodes
      else parse_number path text nodes)"

text \<open>The first argument is the number of levels left, \<open>kJsonMaximumDepth - depth_\<close>.\<close>

fun parse_value :: "nat \<Rightarrow> value_parser" where
  "parse_value 0 path text nodes = Failed JP_depth_limit path"
| "parse_value (Suc levels) path text nodes =
     (if kJsonMaximumNodes \<le> nodes then Failed JP_node_limit path
      else if text = [] then Failed JP_invalid_json path
      else parse_dispatch (parse_value levels) path text (Suc nodes))"

definition json_failure :: "json_parse_code \<Rightarrow> string \<Rightarrow> json_parse_result" where
  "json_failure code path =
     \<lparr>jr_ok = False, jr_value = JNull, jr_error = \<lparr>je_code = code, je_path = path\<rparr>\<rparr>"

text \<open>\<open>None\<close> stands for exhausted fuel.\<close>

definition parse_json :: "string \<Rightarrow> json_parse_result option" where
  "parse_json text =
     (if text = [] then Some (json_failure JP_invalid_json [])
      else if kProtocolEnvelopeMaximumBytes < length text
      then Some (json_failure JP_input_too_large [])
      else case parse_value kJsonMaximumDepth [] (skip_ws text) 0 of
        Exhausted \<Rightarrow> None
      | Failed code path \<Rightarrow> Some (json_failure code path)
      | Parsed v rest nodes \<Rightarrow>
          if skip_ws rest \<noteq> [] then Some (json_failure JP_trailing_content [])
          else Some \<lparr>jr_ok = True, jr_value = v, jr_error = \<lparr>je_code = JP_ok, je_path = []\<rparr>\<rparr>)"

fun json_parse_code_string :: "json_parse_code \<Rightarrow> string" where
  "json_parse_code_string JP_ok = ''ok''"
| "json_parse_code_string JP_input_too_large = ''input_too_large''"
| "json_parse_code_string JP_invalid_json = ''invalid_json''"
| "json_parse_code_string JP_number_range = ''number_range''"
| "json_parse_code_string JP_string_limit = ''string_limit''"
| "json_parse_code_string JP_duplicate_key = ''duplicate_key''"
| "json_parse_code_string JP_depth_limit = ''depth_limit''"
| "json_parse_code_string JP_node_limit = ''node_limit''"
| "json_parse_code_string JP_trailing_content = ''trailing_content''"

end
