(* ===== verification/Body_Validator.thy ===== *)
theory Body_Validator
  imports Json_Parser
begin

text \<open>
  The validation of message bodies, \<open>message_body_validator.cpp\<close>: the hand-written checks of
  the body of each message type, and the composite gate envelope, parse, body, replay commit.

  A check that fills in a failure object and returns false is an option here: \<open>Some failure\<close>. A
  check that also delivers a value is a sum: \<open>Inl failure\<close> or \<open>Inr v\<close>.
\<close>

section \<open>Types\<close>

abbreviation kBodyMaximumAlarms :: nat where "kBodyMaximumAlarms \<equiv> 32"
abbreviation kBodyMaximumAlarmIdBytes :: nat where "kBodyMaximumAlarmIdBytes \<equiv> 64"
abbreviation kBodyMaximumLabelBytes :: nat where "kBodyMaximumLabelBytes \<equiv> 48"
abbreviation kBodyMaximumTimezoneBytes :: nat where "kBodyMaximumTimezoneBytes \<equiv> 64"
abbreviation kBodyMaximumSoundBytes :: nat where "kBodyMaximumSoundBytes \<equiv> 32"
abbreviation kBodyMaximumSourceEventIdBytes :: nat where "kBodyMaximumSourceEventIdBytes \<equiv> 128"
abbreviation kBodyMaximumSummaryBytes :: nat where "kBodyMaximumSummaryBytes \<equiv> 160"
abbreviation kBodyMaximumFieldBytes :: nat where "kBodyMaximumFieldBytes \<equiv> 64"

datatype message_body_code =
    MB_accepted
  | MB_schema_invalid
  | MB_payload_semantic_error

record message_body_result =
  mb_code :: message_body_code
  mb_accepted :: bool
  mb_retryable :: bool
  mb_field_path :: string

definition reject_body :: "message_body_code \<Rightarrow> string \<Rightarrow> message_body_result" where
  "reject_body code path =
     \<lparr>mb_code = code, mb_accepted = False, mb_retryable = False, mb_field_path = path\<rparr>"

definition accept_body :: message_body_result where
  "accept_body =
     \<lparr>mb_code = MB_accepted, mb_accepted = True, mb_retryable = False, mb_field_path = []\<rparr>"

text \<open>
  The early returns: a failed check returns its failure, a check that delivers a value hands it
  to what follows.
\<close>

definition unless_failed :: "message_body_result option \<Rightarrow> message_body_result \<Rightarrow> message_body_result" where
  "unless_failed check rest = (case check of Some failure \<Rightarrow> failure | None \<Rightarrow> rest)"

definition with_value :: "message_body_result + 'a \<Rightarrow> ('a \<Rightarrow> message_body_result) \<Rightarrow> message_body_result" where
  "with_value check rest = (case check of Inl failure \<Rightarrow> failure | Inr v \<Rightarrow> rest v)"

section \<open>Access to the members of an object\<close>

text \<open>
  The struct has a field for every kind, and the fields that the kind does not use are empty:
  the members of a value that is not an object, the text of a value that is not a string.
\<close>

fun json_members :: "json_value \<Rightarrow> (string \<times> json_value) list" where
  "json_members (JObject ms) = ms"
| "json_members _ = []"

fun json_string_field :: "json_value \<Rightarrow> string" where
  "json_string_field (JString s) = s"
| "json_string_field _ = []"

text \<open>The first member with the key.\<close>

definition json_find :: "json_value \<Rightarrow> string \<Rightarrow> json_value option" where
  "json_find v key = map_of (json_members v) key"

definition json_has :: "json_value \<Rightarrow> string \<Rightarrow> bool" where
  "json_has v key \<longleftrightarrow> json_find v key \<noteq> None"

definition child_path :: "string \<Rightarrow> string \<Rightarrow> string" where
  "child_path parent key = parent @ ''/'' @ key"

fun check_missing_required :: "json_value \<Rightarrow> string \<Rightarrow> string list \<Rightarrow> message_body_result option" where
  "check_missing_required v path_prefix [] = None"
| "check_missing_required v path_prefix (key # required) =
     (if \<not> json_has v key then Some (reject_body MB_schema_invalid (child_path path_prefix key))
      else check_missing_required v path_prefix required)"

fun unknown_key :: "(string \<times> json_value) list \<Rightarrow> string list \<Rightarrow> string option" where
  "unknown_key [] allowed = None"
| "unknown_key ((key, v) # members) allowed =
     (if key \<notin> set allowed then Some key else unknown_key members allowed)"

definition check_no_unknown_keys :: "json_value \<Rightarrow> string \<Rightarrow> string list \<Rightarrow> message_body_result option" where
  "check_no_unknown_keys v path_prefix allowed =
     map_option (\<lambda>key. reject_body MB_schema_invalid (child_path path_prefix key))
       (unknown_key (json_members v) allowed)"

definition require_string :: "json_value \<Rightarrow> string \<Rightarrow> string \<Rightarrow> message_body_result + string" where
  "require_string v key path_prefix =
     (case json_find v key of
        Some (JString s) \<Rightarrow> Inr s
      | _ \<Rightarrow> Inl (reject_body MB_schema_invalid (child_path path_prefix key)))"

definition require_boolean :: "json_value \<Rightarrow> string \<Rightarrow> string \<Rightarrow> message_body_result + bool" where
  "require_boolean v key path_prefix =
     (case json_find v key of
        Some (JBoolean b) \<Rightarrow> Inr b
      | _ \<Rightarrow> Inl (reject_body MB_schema_invalid (child_path path_prefix key)))"

definition require_integer :: "json_value \<Rightarrow> string \<Rightarrow> string \<Rightarrow> message_body_result + i64" where
  "require_integer v key path_prefix =
     (case json_find v key of
        Some (JInteger n) \<Rightarrow> Inr n
      | _ \<Rightarrow> Inl (reject_body MB_schema_invalid (child_path path_prefix key)))"

section \<open>An alarm\<close>

definition is_lower_alnum :: "char \<Rightarrow> bool" where
  "is_lower_alnum c \<longleftrightarrow> (97 \<le> byte_val c \<and> byte_val c \<le> 122) \<or> (48 \<le> byte_val c \<and> byte_val c \<le> 57)"

definition is_id_tail_char :: "char \<Rightarrow> bool" where
  "is_id_tail_char c \<longleftrightarrow> is_lower_alnum c \<or> c = CHR ''.'' \<or> c = CHR ''_'' \<or> c = CHR ''-''"

definition is_valid_alarm_id :: "string \<Rightarrow> bool" where
  "is_valid_alarm_id s =
     (if s = [] \<or> kBodyMaximumAlarmIdBytes < length s then False
      else if \<not> is_lower_alnum (hd s) then False
      else list_all is_id_tail_char (tl s))"

definition is_valid_local_time :: "string \<Rightarrow> bool" where
  "is_valid_local_time s =
     (if length s \<noteq> 5 \<or> s ! 2 \<noteq> CHR '':'' then False
      else
        let tens = byte_val (s ! 0); ones = byte_val (s ! 1);
            minute_tens = byte_val (s ! 3); minute_ones = byte_val (s ! 4)
        in if tens < 48 \<or> 50 < tens \<or> ones < 48 \<or> 57 < ones \<or>
              minute_tens < 48 \<or> 53 < minute_tens \<or> minute_ones < 48 \<or> 57 < minute_ones
           then False
           else \<not> (tens = 50 \<and> 51 < ones))"

definition kAlarmKeys :: "string list" where
  "kAlarmKeys =
     [''id'', ''label'', ''enabled'', ''localTime'', ''days'', ''timezone'', ''snoozeMinutes'',
      ''volume'', ''sound'', ''source'', ''sourceEventId'']"

text \<open>The loop over the days, from \<open>index\<close> on; \<open>seen\<close> is the array of seven flags.\<close>

fun check_days :: "string \<Rightarrow> nat \<Rightarrow> bool list \<Rightarrow> json_value list \<Rightarrow> message_body_result option" where
  "check_days days_path index seen [] = None"
| "check_days days_path index seen (day # days) =
     (let day_path = child_path days_path (decimal index) in
      case day of
        JInteger n \<Rightarrow>
          if n <s 0 \<or> 6 <s n then Some (reject_body MB_schema_invalid day_path)
          else if seen ! unat n then Some (reject_body MB_schema_invalid day_path)
          else check_days days_path (Suc index) (seen[unat n := True]) days
      | _ \<Rightarrow> Some (reject_body MB_schema_invalid day_path))"

definition validate_days :: "json_value \<Rightarrow> string \<Rightarrow> message_body_result option" where
  "validate_days alarm path =
     (let days_path = child_path path ''days'' in
      case json_find alarm ''days'' of
        Some (JArray elements) \<Rightarrow>
          if elements = [] \<or> 7 < length elements then Some (reject_body MB_schema_invalid days_path)
          else check_days days_path 0 (replicate 7 False) elements
      | _ \<Rightarrow> Some (reject_body MB_schema_invalid days_path))"

text \<open>The end of \<open>validate_alarm\<close>: the member \<open>sourceEventId\<close>, a string or null.\<close>

definition validate_source_event :: "json_value \<Rightarrow> string \<Rightarrow> message_body_result" where
  "validate_source_event alarm path =
     (case json_find alarm ''sourceEventId'' of
        None \<Rightarrow> reject_body MB_schema_invalid (child_path path ''sourceEventId'')
      | Some JNull \<Rightarrow> accept_body
      | Some (JString s) \<Rightarrow>
          if kBodyMaximumSourceEventIdBytes < length s
          then reject_body MB_schema_invalid (child_path path ''sourceEventId'') else accept_body
      | Some _ \<Rightarrow> reject_body MB_schema_invalid (child_path path ''sourceEventId''))"

fun is_object :: "json_value \<Rightarrow> bool" where
  "is_object (JObject ms) = True"
| "is_object _ = False"

definition validate_alarm :: "json_value \<Rightarrow> string \<Rightarrow> message_body_result" where
  "validate_alarm alarm path =
     (if \<not> is_object alarm then reject_body MB_schema_invalid path
      else unless_failed (check_missing_required alarm path kAlarmKeys) (
      unless_failed (check_no_unknown_keys alarm path kAlarmKeys) (
      with_value (require_string alarm ''id'' path) (\<lambda>text.
      if \<not> is_valid_alarm_id text then reject_body MB_schema_invalid (child_path path ''id'') else
      with_value (require_string alarm ''label'' path) (\<lambda>text.
      if text = [] \<or> kBodyMaximumLabelBytes < length text
      then reject_body MB_schema_invalid (child_path path ''label'') else
      with_value (require_boolean alarm ''enabled'' path) (\<lambda>enabled.
      with_value (require_string alarm ''localTime'' path) (\<lambda>text.
      if \<not> is_valid_local_time text then reject_body MB_schema_invalid (child_path path ''localTime'') else
      unless_failed (validate_days alarm path) (
      with_value (require_string alarm ''timezone'' path) (\<lambda>text.
      if length text < 3 \<or> kBodyMaximumTimezoneBytes < length text
      then reject_body MB_schema_invalid (child_path path ''timezone'') else
      with_value (require_integer alarm ''snoozeMinutes'' path) (\<lambda>number.
      if number <s 1 \<or> 30 <s number
      then reject_body MB_schema_invalid (child_path path ''snoozeMinutes'') else
      with_value (require_integer alarm ''volume'' path) (\<lambda>number.
      if number <s 0 \<or> 100 <s number
      then reject_body MB_schema_invalid (child_path path ''volume'') else
      with_value (require_string alarm ''sound'' path) (\<lambda>text.
      if text = [] \<or> kBodyMaximumSoundBytes < length text
      then reject_body MB_schema_invalid (child_path path ''sound'') else
      with_value (require_string alarm ''source'' path) (\<lambda>text.
      if text \<noteq> ''manual'' \<and> text \<noteq> ''ics''
      then reject_body MB_schema_invalid (child_path path ''source'') else
      validate_source_event alarm path)))))))))))))"

section \<open>A schedule\<close>

text \<open>The two loops of \<open>validate_schedule_body\<close>.\<close>

fun validate_alarms :: "nat \<Rightarrow> json_value list \<Rightarrow> message_body_result option" where
  "validate_alarms index [] = None"
| "validate_alarms index (alarm # alarms) =
     (let r = validate_alarm alarm (child_path ''/alarms'' (decimal index)) in
      if \<not> mb_accepted r then Some r else validate_alarms (Suc index) alarms)"

fun find_same_id :: "string \<Rightarrow> nat \<Rightarrow> json_value list \<Rightarrow> nat option" where
  "find_same_id first_id second [] = None"
| "find_same_id first_id second (alarm # alarms) =
     (case json_find alarm ''id'' of
        None \<Rightarrow> find_same_id first_id (Suc second) alarms
      | Some second_id \<Rightarrow>
          if json_string_field second_id = first_id then Some second
          else find_same_id first_id (Suc second) alarms)"

fun find_duplicate_id :: "nat \<Rightarrow> json_value list \<Rightarrow> nat option" where
  "find_duplicate_id first [] = None"
| "find_duplicate_id first (alarm # alarms) =
     (case json_find alarm ''id'' of
        None \<Rightarrow> find_duplicate_id (Suc first) alarms
      | Some first_id \<Rightarrow>
          (case find_same_id (json_string_field first_id) (Suc first) alarms of
             Some second \<Rightarrow> Some second
           | None \<Rightarrow> find_duplicate_id (Suc first) alarms))"

definition validate_schedule_body :: "json_value \<Rightarrow> message_body_result" where
  "validate_schedule_body body =
     (case json_find body ''alarms'' of
        Some (JArray alarms) \<Rightarrow>
          if kBodyMaximumAlarms < length alarms
          then reject_body MB_payload_semantic_error ''/alarms''
          else (case validate_alarms 0 alarms of
             Some failure \<Rightarrow> failure
           | None \<Rightarrow>
               (case find_duplicate_id 0 alarms of
                  Some second \<Rightarrow>
                    reject_body MB_payload_semantic_error (child_path ''/alarms'' (decimal second))
                | None \<Rightarrow> accept_body))
      | _ \<Rightarrow> reject_body MB_schema_invalid ''/alarms'')"

section \<open>The other bodies\<close>

definition kErrorCodes :: "string list" where
  "kErrorCodes =
     [''invalid_protocol'', ''unknown_type'', ''invalid_message_id'', ''duplicate_message_id'',
      ''invalid_sent_at'', ''expected_revision_required'', ''envelope_too_large'',
      ''revision_conflict'', ''schema_invalid'', ''payload_semantic_error'', ''unauthorized'',
      ''rate_limited'']"

definition is_valid_error_code :: "string \<Rightarrow> bool" where
  "is_valid_error_code code \<longleftrightarrow> code \<in> set kErrorCodes"

text \<open>The checks of the optional members of an error body.\<close>

definition validate_error_field :: "json_value \<Rightarrow> message_body_result option" where
  "validate_error_field body =
     (if json_has body ''field''
      then case require_string body ''field'' [] of Inl failure \<Rightarrow> Some failure | Inr text \<Rightarrow>
        if kBodyMaximumFieldBytes < length text then Some (reject_body MB_schema_invalid ''/field'')
        else None
      else None)"

definition validate_error_revision :: "json_value \<Rightarrow> message_body_result option" where
  "validate_error_revision body =
     (if json_has body ''currentRevision''
      then case require_integer body ''currentRevision'' [] of Inl failure \<Rightarrow> Some failure | Inr revision \<Rightarrow>
        if revision <s 0 then Some (reject_body MB_schema_invalid ''/currentRevision'')
        else None
      else None)"

definition validate_error_response_body :: "json_value \<Rightarrow> message_body_result" where
  "validate_error_response_body body =
     (unless_failed (check_missing_required body [] [''code'', ''summary'', ''retryable'']) (
      unless_failed (check_no_unknown_keys body [] [''code'', ''summary'', ''field'', ''retryable'', ''currentRevision'']) (
      with_value (require_string body ''code'' []) (\<lambda>text.
      if \<not> is_valid_error_code text then reject_body MB_schema_invalid ''/code'' else
      with_value (require_string body ''summary'' []) (\<lambda>text.
      if text = [] \<or> kBodyMaximumSummaryBytes < length text
      then reject_body MB_schema_invalid ''/summary'' else
      unless_failed (validate_error_field body) (
      with_value (require_boolean body ''retryable'' []) (\<lambda>retryable.
      unless_failed (validate_error_revision body) (
      accept_body))))))))"

definition validate_sync_receipt_body :: "json_value \<Rightarrow> message_body_result" where
  "validate_sync_receipt_body body =
     (unless_failed (check_missing_required body [] [''appliedRevision'', ''alarmCount'', ''nextAlarmUtc'']) (
      with_value (require_integer body ''appliedRevision'' []) (\<lambda>number.
      if number <s 0 then reject_body MB_schema_invalid ''/appliedRevision'' else
      with_value (require_integer body ''alarmCount'' []) (\<lambda>number.
      if number <s 0 then reject_body MB_schema_invalid ''/alarmCount'' else
      if kBodyMaximumAlarms < unat number
      then reject_body MB_payload_semantic_error ''/alarmCount'' else
      with_value (require_string body ''nextAlarmUtc'' []) (\<lambda>text.
      if \<not> is_valid_protocol_utc_instant text then reject_body MB_schema_invalid ''/nextAlarmUtc'' else
      accept_body)))))"

section \<open>A message\<close>

definition validate_protocol_message_body :: "json_value \<Rightarrow> string \<Rightarrow> message_body_result" where
  "validate_protocol_message_body body type =
     (if \<not> is_object body then reject_body MB_schema_invalid ''/body''
      else if type = ''schedule.preview'' \<or> type = ''schedule.apply'' then validate_schedule_body body
      else if type = ''error.response'' then validate_error_response_body body
      else if type = ''event.syncReceipt'' then validate_sync_receipt_body body
      else accept_body)"

record protocol_message_result =
  pm_accepted :: bool
  pm_retryable :: bool
  pm_code :: string
  pm_field_path :: string

definition refuse_message :: "bool \<Rightarrow> string \<Rightarrow> string \<Rightarrow> protocol_message_result" where
  "refuse_message retryable code field_path =
     \<lparr>pm_accepted = False, pm_retryable = retryable, pm_code = code, pm_field_path = field_path\<rparr>"

text \<open>The outer option is the one of \<open>parse_json\<close>; the window is \<open>None\<close> for the null pointer.\<close>

definition validate_protocol_message ::
    "protocol_envelope \<Rightarrow> string \<Rightarrow> replay_window option \<Rightarrow>
     (protocol_message_result \<times> replay_window option) option" where
  "validate_protocol_message envelope body_json window =
     (case validate_protocol_envelope envelope window False of (envelope_result, window) \<Rightarrow>
      if \<not> pv_accepted envelope_result
      then Some (refuse_message (pv_retryable envelope_result)
                   (protocol_code_string (pv_code envelope_result)) [], window)
      else case parse_json body_json of None \<Rightarrow> None | Some parsed \<Rightarrow>
      if \<not> jr_ok parsed
      then if je_code (jr_error parsed) = JP_input_too_large
        then Some (refuse_message False ''envelope_too_large'' [], window)
        else Some (refuse_message False ''schema_invalid'' (''/body'' @ je_path (jr_error parsed)), window)
      else
        let body_result = validate_protocol_message_body (jr_value parsed) (pe_type envelope) in
        if \<not> mb_accepted body_result
        then Some (refuse_message (mb_retryable body_result)
                     (if mb_code body_result = MB_schema_invalid then ''schema_invalid''
                      else ''payload_semantic_error'') (mb_field_path body_result), window)
        else Some (\<lparr>pm_accepted = True, pm_retryable = False, pm_code = ''accepted'', pm_field_path = []\<rparr>,
                   map_option (replay_remember (pe_message_id envelope)) window))"

fun message_body_code_string :: "message_body_code \<Rightarrow> string" where
  "message_body_code_string MB_accepted = ''accepted''"
| "message_body_code_string MB_schema_invalid = ''schema_invalid''"
| "message_body_code_string MB_payload_semantic_error = ''payload_semantic_error''"

end
