(* ===== verification/Json_Grammar.thy ===== *)
theory Json_Grammar
  imports Json_Parser
begin

text \<open>
  What the JSON parser accepts: the texts of a declarative grammar whose value stays within the
  documented limits, and nothing else. This theory has the lexical part: the UTF-8 check against
  the encoder, strings with their escapes, and numbers. Values follow in \<open>Json_Properties\<close>.
\<close>

section \<open>UTF-8\<close>

definition scalar_value :: "nat \<Rightarrow> bool" where
  "scalar_value cp \<longleftrightarrow> cp \<le> 0x10FFFF \<and> \<not> (0xD800 \<le> cp \<and> cp \<le> 0xDFFF)"

lemma byte_val_char_of [simp]: "n < 256 \<Longrightarrow> byte_val (char_of n) = n"
  by (simp add: byte_val_def)

lemma char_of_byte_val [simp]: "char_of (byte_val c) = c"
  by (simp add: byte_val_def)

lemma byte_val_less: "byte_val c < 256"
  by (simp add: byte_val_def)

lemma mod_in_block: "k * m \<le> n \<Longrightarrow> n < k * m + m \<Longrightarrow> n mod m = n - k * (m :: nat)"
  by (auto simp: le_iff_add)

lemma cont_mod [simp]: "r < 64 \<Longrightarrow> (128 + r) mod 64 = (r :: nat)"
  using mod_in_block [of 2 64 "128 + r"] by simp

lemma split_64: "r < 64 \<Longrightarrow> (v * 64 + r) mod 64 = r \<and> (v * 64 + r) div 64 = (v :: nat)"
  by simp

lemma valid_utf8_encoded:
  assumes "scalar_value cp"
  shows "is_valid_utf8 (encode_code_point cp @ s) \<longleftrightarrow> is_valid_utf8 s"
proof -
  consider (one) "cp < 0x80" | (two) "0x80 \<le> cp" "cp < 0x800" | (three) "0x800 \<le> cp" "cp < 0x10000"
    | (four) "0x10000 \<le> cp" "cp < 0x110000"
    using assms unfolding scalar_value_def by linarith
  then show ?thesis
  proof cases
    case one
    then show ?thesis by (simp add: encode_code_point_def)
  next
    case two
    define q r where "q = cp div 64" and "r = cp mod 64"
    have cp: "cp = q * 64 + r" "r < 64" by (simp_all add: q_def r_def)
    with two have q: "2 \<le> q" "q < 32" by simp_all
    then have "utf8_lead (192 + q) = Some (1, q)" using mod_in_block [of 6 32 "192 + q"] by (simp add: utf8_lead_def)
    moreover have "encode_code_point cp = [char_of (192 + q), char_of (128 + r)]"
      using two by (simp add: encode_code_point_def q_def r_def)
    ultimately show ?thesis using q cp two by (simp add: Let_def)
  next
    case three
    define p q r where "p = cp div 4096" and "q = cp div 64 mod 64" and "r = cp mod 64"
    have "cp div 4096 = cp div 64 div 64" by (simp add: div_mult2_eq [symmetric])
    then have "cp div 64 = p * 64 + q" by (simp add: p_def q_def)
    then have cp: "cp = (p * 64 + q) * 64 + r" "q < 64" "r < 64"
      using div_mult_mod_eq [of cp 64] by (simp_all add: q_def r_def)
    with three have p: "p < 16" by simp
    then have "utf8_lead (224 + p) = Some (2, p)" using mod_in_block [of 14 16 "224 + p"] by (simp add: utf8_lead_def)
    moreover have "encode_code_point cp = [char_of (224 + p), char_of (128 + q), char_of (128 + r)]"
      using three by (simp add: encode_code_point_def p_def q_def r_def)
    ultimately show ?thesis using p cp three assms by (auto simp: Let_def scalar_value_def)
  next
    case four
    define t p q r where "t = cp div 262144" and "p = cp div 4096 mod 64" and "q = cp div 64 mod 64"
      and "r = cp mod 64"
    have "cp div 262144 = cp div 4096 div 64" "cp div 4096 = cp div 64 div 64"
      by (simp_all add: div_mult2_eq [symmetric])
    then have "cp div 4096 = t * 64 + p" "cp div 64 = cp div 4096 * 64 + q"
      by (simp_all add: t_def p_def q_def)
    then have cp: "cp = ((t * 64 + p) * 64 + q) * 64 + r" "p < 64" "q < 64" "r < 64"
      using div_mult_mod_eq [of cp 64] by (simp_all add: p_def q_def r_def)
    with four have t: "t < 5" by simp
    then have "utf8_lead (240 + t) = Some (3, t)" using mod_in_block [of 30 8 "240 + t"] by (simp add: utf8_lead_def)
    moreover have "encode_code_point cp = [char_of (240 + t), char_of (128 + p), char_of (128 + q), char_of (128 + r)]"
      using four by (simp add: encode_code_point_def t_def p_def q_def r_def)
    ultimately show ?thesis using t cp four assms by (simp add: Let_def scalar_value_def)
  qed
qed

lemma utf8_continue_Some:
  "utf8_continue cp0 cs = Some cp \<Longrightarrow>
     list_all (\<lambda>c. 128 \<le> byte_val c \<and> byte_val c < 192) cs \<and>
     cp = foldl (\<lambda>v c. v * 64 + (byte_val c - 128)) cp0 cs"
proof (induction cp0 cs rule: utf8_continue.induct)
  case (2 cp0 c cs)
  then have b: "128 \<le> byte_val c" "byte_val c < 192" by (auto simp: Let_def split: if_splits)
  then have "byte_val c mod 64 = byte_val c - 128" using mod_in_block [of 2 64 "byte_val c"] by simp
  with 2 b show ?case by (auto simp: Let_def split: if_splits)
qed simp

lemma cont_char: "128 \<le> byte_val c \<Longrightarrow> byte_val c < 192 \<Longrightarrow> \<exists>x < 64. c = char_of (128 + x :: nat)"
  by (rule exI [of _ "byte_val c - 128"]) simp

lemma encode_decoded:
  assumes "utf8_lead (byte_val c) = Some (extra, cp0)" "length cs = extra" "utf8_continue cp0 cs = Some cp"
    and "\<not> (extra = 2 \<and> cp < 0x800)" "\<not> (extra = 3 \<and> cp < 0x10000)"
  shows "encode_code_point cp = c # cs"
proof -
  note cont = utf8_continue_Some [OF assms(3)]
  consider (two) "extra = 1" "194 \<le> byte_val c" "byte_val c < 224" "cp0 = byte_val c - 192"
    | (three) "extra = 2" "224 \<le> byte_val c" "byte_val c < 240" "cp0 = byte_val c - 224"
    | (four) "extra = 3" "240 \<le> byte_val c" "byte_val c < 245" "cp0 = byte_val c - 240"
  proof -
    have "194 \<le> n \<Longrightarrow> n < 224 \<Longrightarrow> n mod 32 = n - 192" "224 \<le> n \<Longrightarrow> n < 240 \<Longrightarrow> n mod 16 = n - 224"
      "240 \<le> n \<Longrightarrow> n < 245 \<Longrightarrow> n mod 8 = n - 240" for n :: nat
      using mod_in_block [of 6 32 n] mod_in_block [of 14 16 n] mod_in_block [of 30 8 n] by simp_all
    with assms(1) that show thesis
      by (auto simp: utf8_lead_def split: if_splits)
  qed
  then show ?thesis
  proof cases
    case two
    with assms(2) obtain a where cs: "cs = [a]" by (auto simp: length_Suc_conv)
    with cont cont_char [of a] obtain x :: nat where a: "a = char_of (128 + x)" "x < 64" by auto
    define q where "q = byte_val c - 192"
    have c: "c = char_of (192 + q)" "q < 32" "2 \<le> q" using two char_of_byte_val [of c] by (simp_all add: q_def)
    have "cp = q * 64 + x" using cont cs a two by (simp add: q_def)
    with c a cs show ?thesis by (simp add: encode_code_point_def)
  next
    case three
    with assms(2) obtain a b where cs: "cs = [a, b]" by (auto simp: length_Suc_conv numeral_2_eq_2)
    with cont cont_char [of a] cont_char [of b] obtain x y :: nat where
      ab: "a = char_of (128 + x)" "x < 64" "b = char_of (128 + y)" "y < 64" by auto
    define q where "q = byte_val c - 224"
    have c: "c = char_of (224 + q)" "q < 16" using three char_of_byte_val [of c] by (simp_all add: q_def)
    have cp: "cp = (q * 64 + x) * 64 + y" using cont cs ab three by (simp add: q_def)
    then have parts: "cp mod 64 = y" "cp div 64 = q * 64 + x"
      using split_64 [of y "q * 64 + x"] ab unfolding cp by blast+
    then have "cp div 4096 = q" "cp div 64 mod 64 = x" using ab div_mult2_eq [of cp 64 64] by simp_all
    with parts three assms(4) c cp ab cs show ?thesis by (simp add: encode_code_point_def)
  next
    case four
    with assms(2) obtain a b d where cs: "cs = [a, b, d]" by (auto simp: length_Suc_conv numeral_3_eq_3)
    with cont cont_char [of a] cont_char [of b] cont_char [of d] obtain x y z :: nat where
      ab: "a = char_of (128 + x)" "x < 64" "b = char_of (128 + y)" "y < 64" "d = char_of (128 + z)" "z < 64"
      by auto
    define q where "q = byte_val c - 240"
    have c: "c = char_of (240 + q)" "q < 5" using four char_of_byte_val [of c] by (simp_all add: q_def)
    have cp: "cp = ((q * 64 + x) * 64 + y) * 64 + z" using cont cs ab four by (simp add: q_def)
    then have parts: "cp mod 64 = z" "cp div 64 = (q * 64 + x) * 64 + y"
      using split_64 [of z "(q * 64 + x) * 64 + y"] ab unfolding cp by blast+
    have high: "cp div 64 mod 64 = y" "cp div 64 div 64 = q * 64 + x"
      using split_64 [of y "q * 64 + x"] ab unfolding parts(2) by blast+
    then have low: "cp div 4096 = q * 64 + x" using div_mult2_eq [of cp 64 64] by simp
    have "cp div 4096 mod 64 = x" "cp div 4096 div 64 = q"
      using split_64 [of x q] ab unfolding low by blast+
    moreover from this have "cp div 262144 = q" using div_mult2_eq [of cp 4096 64] by simp
    ultimately show ?thesis using parts high four assms(5) c ab cs by (simp add: encode_code_point_def)
  qed
qed

lemma valid_utf8_decodes:
  "is_valid_utf8 s \<Longrightarrow> \<exists>cps. list_all scalar_value cps \<and> s = concat (map encode_code_point cps)"
proof (induction s rule: is_valid_utf8.induct)
  case 1
  show ?case by (rule exI [of _ "[]"]) simp
next
  case (2 c s)
  show ?case
  proof (cases "byte_val c < 0x80")
    case True
    with 2 obtain cps where cps: "list_all scalar_value cps" "s = concat (map encode_code_point cps)" by auto
    moreover have "encode_code_point (byte_val c) = [c]" "scalar_value (byte_val c)"
      using True by (simp_all add: encode_code_point_def scalar_value_def)
    ultimately show ?thesis by (intro exI [of _ "byte_val c # cps"]) simp
  next
    case False
    with "2.prems" obtain extra cp0 where lead: "utf8_lead (byte_val c) = Some (extra, cp0)"
      by (cases "utf8_lead (byte_val c)") auto
    note prems = "2.prems" [unfolded is_valid_utf8.simps lead option.case prod.case if_not_P [OF False]]
    from prems obtain cp where len: "\<not> length s < extra" and cp: "utf8_continue cp0 (take extra s) = Some cp"
      by (cases "utf8_continue cp0 (take extra s)") (simp_all split: if_splits)
    from prems [unfolded if_not_P [OF len] cp option.case]
    have checks: "\<not> (extra = 2 \<and> cp < 0x800)" "\<not> (extra = 3 \<and> cp < 0x10000)"
        "\<not> 0x10FFFF < cp" "\<not> (0xD800 \<le> cp \<and> cp \<le> 0xDFFF)"
      and rest: "is_valid_utf8 (drop extra s)" by argo+
    have "\<exists>cps. list_all scalar_value cps \<and> drop extra s = concat (map encode_code_point cps)"
      by (rule "2.IH"(2) [OF False lead refl len cp checks rest])
    then obtain cps where cps: "list_all scalar_value cps" "drop extra s = concat (map encode_code_point cps)"
      by blast
    have "encode_code_point cp = c # take extra s"
      by (rule encode_decoded [OF lead _ cp checks(1,2)]) (use len in simp)
    moreover have "scalar_value cp" using checks(3,4) by (simp add: scalar_value_def)
    ultimately show ?thesis using cps
      by (intro exI [of _ "cp # cps"]) (simp flip: cps(2))
  qed
qed

lemma valid_utf8_iff:
  "is_valid_utf8 s \<longleftrightarrow> (\<exists>cps. list_all scalar_value cps \<and> s = concat (map encode_code_point cps))"
proof
  have "list_all scalar_value cps \<Longrightarrow> is_valid_utf8 (concat (map encode_code_point cps))" for cps
    by (induction cps) (simp_all add: valid_utf8_encoded)
  then show "\<exists>cps. list_all scalar_value cps \<and> s = concat (map encode_code_point cps) \<Longrightarrow> is_valid_utf8 s"
    by blast
qed (rule valid_utf8_decodes)

section \<open>The grammar: strings\<close>

text \<open>A code point as hexadecimal digits, one group or a pair of surrogates.\<close>

inductive code_point_text :: "nat \<Rightarrow> string \<Rightarrow> bool" where
  single: "hex4 u = Some (cp, []) \<Longrightarrow> cp < 0xD800 \<or> 0xDFFF < cp \<Longrightarrow> code_point_text cp u"
| pair: "hex4 u = Some (high, []) \<Longrightarrow> 0xD800 \<le> high \<Longrightarrow> high \<le> 0xDBFF \<Longrightarrow>
    hex4 u' = Some (low, []) \<Longrightarrow> 0xDC00 \<le> low \<Longrightarrow> low \<le> 0xDFFF \<Longrightarrow>
    code_point_text (0x10000 + (high - 0xD800) * 1024 + (low - 0xDC00)) (u @ [CHR 0x5C, CHR ''u''] @ u')"

text \<open>The characters of a string and the text between its quotes.\<close>

inductive chars_text :: "string \<Rightarrow> string \<Rightarrow> bool" where
  empty: "chars_text [] []"
| plain: "c \<noteq> CHR 0x22 \<Longrightarrow> c \<noteq> CHR 0x5C \<Longrightarrow> 0x20 \<le> byte_val c \<Longrightarrow> chars_text s t \<Longrightarrow>
    chars_text (c # s) (c # t)"
| short: "short_escape e = Some c \<Longrightarrow> chars_text s t \<Longrightarrow> chars_text (c # s) (CHR 0x5C # e # t)"
| unicode: "code_point_text cp u \<Longrightarrow> chars_text s t \<Longrightarrow>
    chars_text (encode_code_point cp @ s) (CHR 0x5C # CHR ''u'' # u @ t)"

lemma hex4_split: "hex4 text = Some (n, rest) \<longleftrightarrow> (\<exists>u. text = u @ rest \<and> hex4 u = Some (n, []))"
proof
  assume "hex4 text = Some (n, rest)"
  then show "\<exists>u. text = u @ rest \<and> hex4 u = Some (n, [])"
  proof (induction "text" rule: hex4.induct)
    case (1 a b c d rest')
    then show ?case by (intro exI [of _ "[a, b, c, d]"]) (auto split: option.splits)
  qed simp_all
next
  assume "\<exists>u. text = u @ rest \<and> hex4 u = Some (n, [])"
  then obtain u where u: "text = u @ rest" "hex4 u = Some (n, [])" by blast
  from u(2) have "length u = 4" using hex4_length by fastforce
  then obtain a b c d where "u = [a, b, c, d]" by (auto simp: length_Suc_conv eval_nat_numeral)
  with u show "hex4 text = Some (n, rest)" by (auto split: option.splits)
qed

lemma hex4_append: "hex4 u = Some (n, []) \<Longrightarrow> hex4 (u @ rest) = Some (n, rest)"
  using hex4_split by blast

lemma unicode_escape_split:
  "unicode_escape text = Some (cp, rest) \<longleftrightarrow> (\<exists>u. text = u @ rest \<and> code_point_text cp u)"
proof
  assume esc: "unicode_escape text = Some (cp, rest)"
  then obtain n rest0 where "hex4 text = Some (n, rest0)" by (auto simp: unicode_escape_def split: option.splits)
  then obtain u where u: "text = u @ rest0" "hex4 u = Some (n, [])" using hex4_split by blast
  note first = hex4_append [OF u(2), of rest0]
  show "\<exists>u. text = u @ rest \<and> code_point_text cp u"
  proof (cases "0xD800 \<le> n \<and> n \<le> 0xDBFF")
    case False
    with esc first u show ?thesis
      by (intro exI [of _ u]) (auto simp: unicode_escape_def intro: code_point_text.single split: if_splits)
  next
    case True
    with esc first u obtain low where two: "\<not> length rest0 < 6" "rest0 ! 0 = CHR 0x5C" "rest0 ! 1 = CHR ''u''"
      and low: "hex4 (drop 2 rest0) = Some (low, rest)" "0xDC00 \<le> low" "low \<le> 0xDFFF"
      and cp: "cp = 0x10000 + (n - 0xD800) * 1024 + (low - 0xDC00)"
      by (auto simp: unicode_escape_def split: option.splits if_splits)
    from low(1) obtain u' where u': "drop 2 rest0 = u' @ rest" "hex4 u' = Some (low, [])"
      using hex4_split by blast
    have "rest0 = [CHR 0x5C, CHR ''u''] @ drop 2 rest0"
      using two by (cases rest0; cases "tl rest0") auto
    with u' have "rest0 = [CHR 0x5C, CHR ''u''] @ u' @ rest" by simp
    moreover have "code_point_text cp (u @ [CHR 0x5C, CHR ''u''] @ u')"
      unfolding cp using True by (intro code_point_text.pair u(2) u'(2) low(2,3)) simp_all
    ultimately show ?thesis using u(1) by (intro exI [of _ "u @ [CHR 0x5C, CHR ''u''] @ u'"]) simp
  qed
next
  assume "\<exists>u. text = u @ rest \<and> code_point_text cp u"
  then obtain u where u: "text = u @ rest" "code_point_text cp u" by blast
  from u(2) show "unicode_escape text = Some (cp, rest)"
  proof cases
    case single
    then show ?thesis by (auto simp: unicode_escape_def u(1) hex4_append)
  next
    case (pair v high v' low)
    have "length v' = 4" using hex4_length [of v' low "[]"] pair by simp
    with pair show ?thesis by (simp add: unicode_escape_def u(1) hex4_append)
  qed
qed

lemma parse_escape_Inr:
  "parse_escape out text = Inr (out', rest) \<longleftrightarrow>
     length out' \<le> 2048 \<and>
     ((\<exists>e c. text = e # rest \<and> short_escape e = Some c \<and> out' = out @ [c]) \<or>
      (\<exists>cp u. text = CHR ''u'' # u @ rest \<and> code_point_text cp u \<and> out' = out @ encode_code_point cp))"
proof (cases "text")
  case (Cons e text')
  have "short_escape (CHR ''u'') = None" by (simp add: short_escape_def)
  moreover have "parse_escape out text = Inr (out', rest) \<longleftrightarrow> length out' \<le> 2048 \<and>
      (\<exists>cp. unicode_escape text' = Some (cp, rest) \<and> out' = out @ encode_code_point cp)" if "e = CHR ''u''"
    using Cons that by (auto simp: parse_escape_def split: option.splits)
  moreover have "parse_escape out text = Inr (out', rest) \<longleftrightarrow> length out' \<le> 2048 \<and>
      text' = rest \<and> (\<exists>c. short_escape e = Some c \<and> out' = out @ [c])" if "e \<noteq> CHR ''u''"
    using Cons that by (auto simp: parse_escape_def split: option.splits)
  ultimately show ?thesis using Cons unicode_escape_split [of text' _ rest] by (cases "e = CHR ''u''") auto
qed (simp add: parse_escape_def)

text \<open>The string loop reads exactly the texts of the grammar, up to the closing quote.\<close>

lemma parse_chars_sound:
  assumes "parse_chars out text = Inr (s, rest)" and "length out \<le> 2048"
  shows "\<exists>s' t. s = out @ s' \<and> text = t @ CHR 0x22 # rest \<and> chars_text s' t \<and> length s \<le> 2048"
  using assms
proof (induction out "text" rule: parse_chars.induct)
  case (1 out "text")
  show ?case
  proof (cases "text")
    case Nil
    with "1.prems" show ?thesis by (simp add: parse_chars.simps [of out])
  next
    case (Cons c text')
    note run = "1.prems"(1) [unfolded parse_chars.simps [of out] Cons list.case]
    consider (close) "c = CHR 0x22" | (escape) "c = CHR 0x5C" | (other) "c \<noteq> CHR 0x22" "c \<noteq> CHR 0x5C" by blast
    then show ?thesis
    proof cases
      case close
      with run Cons "1.prems"(2) show ?thesis by (auto intro: chars_text.empty)
    next
      case escape
      with run obtain out1 rest1 where esc: "parse_escape out text' = Inr (out1, rest1)"
        and next_run: "parse_chars out1 rest1 = Inr (s, rest)" by (auto split: sum.splits)
      from esc have "length out1 \<le> 2048" by (simp add: parse_escape_Inr)
      from "1.IH"(1) [OF Cons _ escape esc refl next_run this] escape obtain s' t where
        tail: "s = out1 @ s'" "rest1 = t @ CHR 0x22 # rest" "chars_text s' t" "length s \<le> 2048" by auto
      from esc consider (s) e d where "text' = e # rest1" "short_escape e = Some d" "out1 = out @ [d]"
        | (u) cp u where "text' = CHR ''u'' # u @ rest1" "code_point_text cp u" "out1 = out @ encode_code_point cp"
        by (auto simp: parse_escape_Inr)
      then show ?thesis
      proof cases
        case s
        with tail Cons escape show ?thesis
          by (intro exI [of _ "d # s'"] exI [of _ "CHR 0x5C # e # t"]) (auto intro: chars_text.short)
      next
        case u
        with tail Cons escape show ?thesis
          by (intro exI [of _ "encode_code_point cp @ s'"] exI [of _ "CHR 0x5C # CHR ''u'' # u @ t"])
            (auto intro: chars_text.unicode)
      qed
    next
      case other
      with run have plain: "\<not> byte_val c < 0x20" "\<not> 2048 < length (out @ [c])"
        and next_run: "parse_chars (out @ [c]) text' = Inr (s, rest)" by (auto split: if_splits)
      from "1.IH"(2) [OF Cons other plain next_run] plain obtain s' t where
        "s = (out @ [c]) @ s'" "text' = t @ CHR 0x22 # rest" "chars_text s' t" "length s \<le> 2048" by auto
      with Cons other plain show ?thesis
        by (intro exI [of _ "c # s'"] exI [of _ "c # t"]) (auto intro: chars_text.plain)
    qed
  qed
qed

lemma parse_chars_complete:
  assumes "chars_text s t" and "length (out @ s) \<le> 2048"
  shows "parse_chars out (t @ CHR 0x22 # rest) = Inr (out @ s, rest)"
  using assms
proof (induction s t arbitrary: out rule: chars_text.induct)
  case empty
  then show ?case by (simp add: parse_chars.simps)
next
  case (plain c s t)
  then show ?case by (simp add: parse_chars.simps [of out])
next
  case (short e c s t)
  have "parse_escape out (e # t @ CHR 0x22 # rest) = Inr (out @ [c], t @ CHR 0x22 # rest)"
    using short by (auto simp: parse_escape_Inr)
  with short show ?case by (simp add: parse_chars.simps [of out])
next
  case (unicode cp u s t)
  have "parse_escape out (CHR ''u'' # u @ t @ CHR 0x22 # rest) = Inr (out @ encode_code_point cp, t @ CHR 0x22 # rest)"
    using unicode by (auto simp: parse_escape_Inr)
  with unicode show ?case by (simp add: parse_chars.simps [of out])
qed

text \<open>A string of the grammar with its quotes, of legal length and encoding.\<close>

definition legal_string :: "string \<Rightarrow> bool" where
  "legal_string s \<longleftrightarrow>
     length s \<le> 2048 \<and> (\<exists>cps. list_all scalar_value cps \<and> s = concat (map encode_code_point cps))"

lemma legal_string_iff: "legal_string s \<longleftrightarrow> length s \<le> 2048 \<and> is_valid_utf8 s"
  by (simp add: legal_string_def valid_utf8_iff)

definition string_text :: "string \<Rightarrow> string \<Rightarrow> bool" where
  "string_text s t \<longleftrightarrow> (\<exists>u. chars_text s u \<and> t = CHR 0x22 # u @ [CHR 0x22])"

lemma parse_raw_string_sound:
  assumes "parse_raw_string text = Inr (s, rest)"
  shows "\<exists>t. CHR 0x22 # text = t @ rest \<and> string_text s t \<and> legal_string s"
proof -
  from assms have "parse_chars [] text = Inr (s, rest)" "is_valid_utf8 s"
    by (auto simp: parse_raw_string_def split: sum.splits if_splits)
  with parse_chars_sound [of "[]" "text" s rest] obtain u where
    "text = u @ CHR 0x22 # rest" "chars_text s u" "length s \<le> 2048" by auto
  with \<open>is_valid_utf8 s\<close> show ?thesis
    by (intro exI [of _ "CHR 0x22 # u @ [CHR 0x22]"]) (auto simp: string_text_def legal_string_iff)
qed

lemma parse_raw_string_complete:
  assumes "string_text s t" "legal_string s"
  shows "\<exists>u. t = CHR 0x22 # u \<and> parse_raw_string (u @ rest) = Inr (s, rest)"
proof -
  from assms(1) obtain u where u: "chars_text s u" "t = CHR 0x22 # u @ [CHR 0x22]"
    by (auto simp: string_text_def)
  with parse_chars_complete [OF u(1), of "[]" rest] assms(2) show ?thesis
    by (auto simp: parse_raw_string_def legal_string_iff)
qed

section \<open>The grammar: numbers\<close>

definition digits_text :: "int \<Rightarrow> string \<Rightarrow> bool" where
  "digits_text n t \<longleftrightarrow> t \<noteq> [] \<and> list_all isdigit t \<and> (hd t = CHR ''0'' \<longrightarrow> t = ''0'') \<and> n = digits_to_int t"

definition number_text :: "int \<Rightarrow> string \<Rightarrow> bool" where
  "number_text n t \<longleftrightarrow> digits_text n t \<or> (\<exists>u. t = CHR ''-'' # u \<and> digits_text (- n) u)"

text \<open>What may follow a value: nothing, white space, or a separator.\<close>

definition follows :: "string \<Rightarrow> bool" where
  "follows r \<longleftrightarrow> r = [] \<or> is_ws (hd r) \<or> hd r \<in> {CHR '','', CHR '']'', CHR 0x7D}"

lemma follows_not_number:
  assumes "follows (c # r)"
  shows "\<not> isdigit c" "c \<notin> {CHR ''.'', CHR ''e'', CHR ''E''}"
  using assms by (auto simp: follows_def is_ws_def isdigit_def)

lemma digits_at_front:
  assumes "body \<noteq> []" "isdigit (hd body)"
    and "digits = (if hd body = CHR ''0'' then [hd body] else takeWhile isdigit body)"
    and "\<not> (hd body = CHR ''0'' \<and> drop (length digits) body \<noteq> [] \<and> isdigit (hd (drop (length digits) body)))"
  shows "digits_text (digits_to_int digits) digits \<and> body = digits @ drop (length digits) body"
proof (cases "hd body = CHR ''0''")
  case True
  with assms show ?thesis by (cases body) (auto simp: digits_text_def)
next
  case False
  then have d: "digits = takeWhile isdigit body" using assms(3) by simp
  have "digits \<noteq> []" "hd digits = hd body" using assms(1,2) by (cases body; simp add: d)+
  moreover have "body = digits @ drop (length digits) body"
    unfolding d by (metis dropWhile_eq_drop takeWhile_dropWhile_id)
  moreover have "list_all isdigit digits" unfolding d list_all_iff by (auto dest: set_takeWhileD)
  ultimately show ?thesis using False by (simp add: digits_text_def)
qed

lemma parse_digits_sound:
  assumes "parse_digits path negative body nodes = Parsed v r nodes'"
  shows "\<exists>t m. body = t @ r \<and> digits_text m t \<and> nodes' = nodes \<and>
    (let n = (if negative then - m else m) in
     v = JInteger (word_of_int n) \<and> i64_min \<le> n \<and> n \<le> i64_max)"
proof -
  define digits where "digits = (if hd body = CHR ''0'' then [hd body] else takeWhile isdigit body)"
  define n where "n = (if negative then - digits_to_int digits else digits_to_int digits)"
  define rest where "rest = drop (length digits) body"
  define leading where "leading \<longleftrightarrow> hd body = CHR ''0'' \<and> rest \<noteq> [] \<and> isdigit (hd rest)"
  define fraction where "fraction \<longleftrightarrow> rest \<noteq> [] \<and> hd rest \<in> {CHR ''.'', CHR ''e'', CHR ''E''}"
  note run = assms [unfolded parse_digits_def Let_def, folded digits_def, folded n_def rest_def,
      folded leading_def fraction_def]
  have ok: "\<not> (body = [] \<or> \<not> isdigit (hd body))" "\<not> leading" "\<not> fraction" "\<not> (n < i64_min \<or> i64_max < n)"
    using run by (simp_all only: split: if_splits) simp_all
  with run have v: "v = JInteger (word_of_int n)" "r = rest" "nodes' = nodes" by simp_all
  have body: "body \<noteq> []" "isdigit (hd body)" and n: "i64_min \<le> n" "n \<le> i64_max" using ok by auto
  have lead: "\<not> (hd body = CHR ''0'' \<and> drop (length digits) body \<noteq> [] \<and> isdigit (hd (drop (length digits) body)))"
    using ok(2) unfolding leading_def rest_def .
  show ?thesis
    using digits_at_front [OF body digits_def lead] v n
    by (intro exI [of _ digits] exI [of _ "digits_to_int digits"]) (auto simp: rest_def n_def Let_def)
qed

lemma parse_digits_complete:
  assumes t: "digits_text m t" and r: "follows r"
    and n: "n = (if negative then - m else m)" "i64_min \<le> n" "n \<le> i64_max"
  shows "parse_digits path negative (t @ r) nodes = Parsed (JInteger (word_of_int n)) r nodes"
proof -
  have t: "t \<noteq> []" "list_all isdigit t" "hd t = CHR ''0'' \<longrightarrow> t = ''0''" "m = digits_to_int t"
    using t by (simp_all add: digits_text_def)
  have rest: "\<not> (r \<noteq> [] \<and> isdigit (hd r))" "\<not> (r \<noteq> [] \<and> hd r \<in> {CHR ''.'', CHR ''e'', CHR ''E''})"
    using follows_not_number [of "hd r" "tl r"] r by (cases r; simp)+
  then have "takeWhile isdigit r = []" by (cases r) auto
  then have "takeWhile isdigit (t @ r) = t"
    using t(2) by (simp add: takeWhile_append2 list_all_iff)
  moreover have "hd (t @ r) = hd t" using t(1) by simp
  ultimately have digits: "(if hd (t @ r) = CHR ''0'' then [hd (t @ r)] else takeWhile isdigit (t @ r)) = t"
    using t(3) by auto
  have front: "\<not> (t @ r = [] \<or> \<not> isdigit (hd (t @ r)))" using t(1,2) by (cases t) simp_all
  have cut: "drop (length t) (t @ r) = r" by simp
  have ok: "\<not> (hd (t @ r) = CHR ''0'' \<and> r \<noteq> [] \<and> isdigit (hd r))" "\<not> (n < i64_min \<or> i64_max < n)"
    using rest(1) n by simp_all
  show ?thesis
    unfolding parse_digits_def if_not_P [OF front] Let_def digits cut if_not_P [OF ok(1)]
      if_not_P [OF rest(2)] t(4) [symmetric] n(1) [symmetric] if_not_P [OF ok(2)] by (rule refl)
qed

lemma parse_number_sound:
  assumes "parse_number path text nodes = Parsed v r nodes'"
  shows "\<exists>t n. text = t @ r \<and> number_text n t \<and> v = JInteger (word_of_int n) \<and>
    i64_min \<le> n \<and> n \<le> i64_max \<and> nodes' = nodes"
proof (cases "text \<noteq> [] \<and> hd text = CHR ''-''")
  case True
  then have "text = CHR ''-'' # tl text" by (cases "text") simp_all
  moreover have "parse_digits path True (tl text) nodes = Parsed v r nodes'"
    using assms True by (simp add: parse_number_def)
  moreover from parse_digits_sound [OF this] obtain t m where t: "tl text = t @ r" "digits_text m t"
    "nodes' = nodes" "v = JInteger (word_of_int (- m))" "i64_min \<le> - m" "- m \<le> i64_max"
    unfolding Let_def if_True by blast
  ultimately have "text = (CHR ''-'' # t) @ r" by simp
  moreover have "number_text (- m) (CHR ''-'' # t)" using t(2) by (simp add: number_text_def)
  ultimately show ?thesis using t(3-) by blast
next
  case False
  then have "parse_digits path False text nodes = Parsed v r nodes'"
    using assms by (auto simp: parse_number_def)
  from parse_digits_sound [OF this] obtain t m where "text = t @ r" "digits_text m t"
    "nodes' = nodes" "v = JInteger (word_of_int m)" "i64_min \<le> m" "m \<le> i64_max"
    unfolding Let_def if_False by blast
  then show ?thesis unfolding number_text_def by blast
qed

lemma parse_number_complete:
  assumes "number_text n t" "follows r" "i64_min \<le> n" "n \<le> i64_max"
  shows "parse_number path (t @ r) nodes = Parsed (JInteger (word_of_int n)) r nodes"
proof -
  from assms(1) consider (plain) "digits_text n t" | (negative) u where "t = CHR ''-'' # u" "digits_text (- n) u"
    by (auto simp: number_text_def)
  then show ?thesis
  proof cases
    case plain
    then have "hd (t @ r) \<noteq> CHR ''-''" by (cases t) (auto simp: digits_text_def isdigit_def)
    with parse_digits_complete [OF plain assms(2), of n False] assms(3,4) show ?thesis
      by (simp add: parse_number_def)
  next
    case negative
    with parse_digits_complete [OF negative(2) assms(2), of n True] assms(3,4) show ?thesis
      by (simp add: parse_number_def)
  qed
qed

end
