(* ===== verification/Json_Properties.thy ===== *)
theory Json_Properties
  imports Json_Grammar
begin

text \<open>
  The JSON parser against its grammar: \<open>parse_json\<close> accepts a text exactly when the grammar
  derives it from a value within the limits, it returns that value, and it ends on every input.
\<close>

section \<open>The grammar: values\<close>

text \<open>White space.\<close>

abbreviation ws :: "string \<Rightarrow> bool" where
  "ws w \<equiv> list_all is_ws w"

text \<open>
  A value and its text without white space around it; the members of an object and the text
  between its braces; the elements of an array and the text between its brackets.
\<close>

inductive json_text :: "json_value \<Rightarrow> string \<Rightarrow> bool"
  and members_text :: "(string \<times> json_value) list \<Rightarrow> string \<Rightarrow> bool"
  and elements_text :: "json_value list \<Rightarrow> string \<Rightarrow> bool" where
  null: "json_text JNull ''null''"
| true: "json_text (JBoolean True) ''true''"
| false: "json_text (JBoolean False) ''false''"
| integer: "number_text n t \<Longrightarrow> i64_min \<le> n \<Longrightarrow> n \<le> i64_max \<Longrightarrow> json_text (JInteger (word_of_int n)) t"
| string: "string_text s t \<Longrightarrow> json_text (JString s) t"
| empty_object: "ws w \<Longrightarrow> json_text (JObject []) (CHR 0x7B # w @ [CHR 0x7D])"
| object: "members_text (m # ms) t \<Longrightarrow> json_text (JObject (m # ms)) (CHR 0x7B # t @ [CHR 0x7D])"
| empty_array: "ws w \<Longrightarrow> json_text (JArray []) (CHR ''['' # w @ [CHR '']''])"
| array: "elements_text (v # vs) t \<Longrightarrow> json_text (JArray (v # vs)) (CHR ''['' # t @ [CHR '']''])"
| last_member: "ws w1 \<Longrightarrow> string_text k kt \<Longrightarrow> ws w2 \<Longrightarrow> ws w3 \<Longrightarrow> json_text v vt \<Longrightarrow> ws w4 \<Longrightarrow>
    members_text [(k, v)] (w1 @ kt @ w2 @ CHR '':'' # w3 @ vt @ w4)"
| more_members: "ws w1 \<Longrightarrow> string_text k kt \<Longrightarrow> ws w2 \<Longrightarrow> ws w3 \<Longrightarrow> json_text v vt \<Longrightarrow> ws w4 \<Longrightarrow>
    members_text (m # ms) t \<Longrightarrow>
    members_text ((k, v) # m # ms) (w1 @ kt @ w2 @ CHR '':'' # w3 @ vt @ w4 @ CHR '','' # t)"
| last_element: "ws w1 \<Longrightarrow> json_text v vt \<Longrightarrow> ws w2 \<Longrightarrow> elements_text [v] (w1 @ vt @ w2)"
| more_elements: "ws w1 \<Longrightarrow> json_text v vt \<Longrightarrow> ws w2 \<Longrightarrow> elements_text (v' # vs) t \<Longrightarrow>
    elements_text (v # v' # vs) (w1 @ vt @ w2 @ CHR '','' # t)"

section \<open>Limits\<close>

primrec json_depth :: "json_value \<Rightarrow> nat"
  and members_depth :: "(string \<times> json_value) list \<Rightarrow> nat"
  and member_depth :: "string \<times> json_value \<Rightarrow> nat"
  and elements_depth :: "json_value list \<Rightarrow> nat" where
  "json_depth (JObject ms) = Suc (members_depth ms)"
| "json_depth (JArray vs) = Suc (elements_depth vs)"
| "json_depth (JString s) = 1"
| "json_depth (JInteger n) = 1"
| "json_depth (JBoolean b) = 1"
| "json_depth JNull = 1"
| "members_depth [] = 0"
| "members_depth (m # ms) = max (member_depth m) (members_depth ms)"
| "member_depth (k, v) = json_depth v"
| "elements_depth [] = 0"
| "elements_depth (v # vs) = max (json_depth v) (elements_depth vs)"

primrec json_nodes :: "json_value \<Rightarrow> nat"
  and members_nodes :: "(string \<times> json_value) list \<Rightarrow> nat"
  and member_nodes :: "string \<times> json_value \<Rightarrow> nat"
  and elements_nodes :: "json_value list \<Rightarrow> nat" where
  "json_nodes (JObject ms) = Suc (members_nodes ms)"
| "json_nodes (JArray vs) = Suc (elements_nodes vs)"
| "json_nodes (JString s) = 1"
| "json_nodes (JInteger n) = 1"
| "json_nodes (JBoolean b) = 1"
| "json_nodes JNull = 1"
| "members_nodes [] = 0"
| "members_nodes (m # ms) = member_nodes m + members_nodes ms"
| "member_nodes (k, v) = json_nodes v"
| "elements_nodes [] = 0"
| "elements_nodes (v # vs) = json_nodes v + elements_nodes vs"

text \<open>Every string and key is of legal length and encoding, and the keys of each object differ.\<close>

primrec json_legal :: "json_value \<Rightarrow> bool"
  and members_legal :: "(string \<times> json_value) list \<Rightarrow> bool"
  and member_legal :: "string \<times> json_value \<Rightarrow> bool"
  and elements_legal :: "json_value list \<Rightarrow> bool" where
  "json_legal (JObject ms) \<longleftrightarrow> members_legal ms \<and> distinct (map fst ms)"
| "json_legal (JArray vs) \<longleftrightarrow> elements_legal vs"
| "json_legal (JString s) \<longleftrightarrow> legal_string s"
| "json_legal (JInteger n) \<longleftrightarrow> True"
| "json_legal (JBoolean b) \<longleftrightarrow> True"
| "json_legal JNull \<longleftrightarrow> True"
| "members_legal [] \<longleftrightarrow> True"
| "members_legal (m # ms) \<longleftrightarrow> member_legal m \<and> members_legal ms"
| "member_legal (k, v) \<longleftrightarrow> legal_string k \<and> json_legal v"
| "elements_legal [] \<longleftrightarrow> True"
| "elements_legal (v # vs) \<longleftrightarrow> json_legal v \<and> elements_legal vs"

section \<open>White space\<close>

lemma skip_ws_split: "\<exists>w. ws w \<and> text = w @ skip_ws text"
  by (rule exI [of _ "takeWhile is_ws text"])
    (auto simp: skip_ws_def list_all_iff dest: set_takeWhileD)

lemma skip_ws_length: "length (skip_ws text) \<le> length text"
  by (simp add: skip_ws_def length_dropWhile_le)

lemma skip_ws_append: "ws w \<Longrightarrow> skip_ws (w @ c # text) = (if is_ws c then skip_ws text else c # text)"
  by (induction w) (simp_all add: skip_ws_def)

lemma skip_ws_all: "ws w \<Longrightarrow> skip_ws w = []"
  by (induction w) (simp_all add: skip_ws_def)

lemma not_ws [simp]: "\<not> is_ws (CHR 0x22)" "\<not> is_ws (CHR '':'')" "\<not> is_ws (CHR '','')" "\<not> is_ws (CHR 0x7D)"
  "\<not> is_ws (CHR '']'')"
  by (simp_all add: is_ws_def)

section \<open>Soundness\<close>

text \<open>
  A value parser is sound when what it reads is derived by the grammar, within the limits. It
  then consumes at least one character, and the loops over it cannot run out of fuel.
\<close>

definition sound :: "value_parser \<Rightarrow> nat \<Rightarrow> bool" where
  "sound pv levels \<longleftrightarrow>
     (\<forall>path text nodes v rest nodes'. pv path text nodes = Parsed v rest nodes' \<longrightarrow>
        (\<exists>t. text = t @ rest \<and> t \<noteq> [] \<and> json_text v t \<and> json_legal v \<and> json_depth v \<le> levels \<and>
           nodes' = nodes + json_nodes v \<and> nodes' \<le> 8192))"

lemma soundD:
  assumes "sound pv levels" "pv path text nodes = Parsed v rest nodes'"
  obtains t where "text = t @ rest" "t \<noteq> []" "json_text v t" "json_legal v" "json_depth v \<le> levels"
    "nodes' = nodes + json_nodes v" "nodes' \<le> 8192"
  using assms unfolding sound_def by blast

lemma parse_members_step:
  assumes "parse_members pv (Suc fuel) path acc text nodes = Parsed v rest nodes'"
  obtains t1 key t2 t3 value_at t4 n4 t5 where "skip_ws text = CHR 0x22 # t1"
    "parse_raw_string t1 = Inr (key, t2)" "skip_ws t2 = CHR '':'' # t3"
    "pv (path @ ''/'' @ key) (skip_ws t3) nodes = Parsed value_at t4 n4" "key \<notin> set (map fst acc)"
    "skip_ws t4 = CHR '','' # t5 \<and>
       parse_members pv fuel path (acc @ [(key, value_at)]) t5 n4 = Parsed v rest nodes' \<or>
     skip_ws t4 = CHR 0x7D # rest \<and> v = JObject (acc @ [(key, value_at)]) \<and> nodes' = n4"
  using assms
  by (auto simp: Let_def split: list.splits sum.splits json_step.splits if_splits)

lemma parse_elements_step:
  assumes "parse_elements pv (Suc fuel) path acc text nodes = Parsed v rest nodes'"
  obtains value_at t4 n4 t5 where
    "pv (path @ ''/'' @ decimal (length acc)) (skip_ws text) nodes = Parsed value_at t4 n4"
    "skip_ws t4 = CHR '','' # t5 \<and>
       parse_elements pv fuel path (acc @ [value_at]) t5 n4 = Parsed v rest nodes' \<or>
     skip_ws t4 = CHR '']'' # rest \<and> v = JArray (acc @ [value_at]) \<and> nodes' = n4"
  using assms
  by (auto simp: Let_def split: list.splits json_step.splits if_splits)

lemma members_text_ws: "ws w \<Longrightarrow> members_text ms t \<Longrightarrow> members_text ms (w @ t)"
  by (erule members_text.cases)
    (auto simp: json_text_members_text_elements_text.last_member [of "w @ _", simplified]
      json_text_members_text_elements_text.more_members [of "w @ _", simplified])

lemma elements_text_ws: "ws w \<Longrightarrow> elements_text vs t \<Longrightarrow> elements_text vs (w @ t)"
  by (erule elements_text.cases)
    (auto simp: json_text_members_text_elements_text.last_element [of "w @ _", simplified]
      json_text_members_text_elements_text.more_elements [of "w @ _", simplified])

lemmas grammar = json_text_members_text_elements_text.intros

lemma parse_members_sound:
  assumes "sound pv levels" and "parse_members pv fuel path acc text nodes = Parsed v rest nodes'"
    and "distinct (map fst acc)"
  shows "\<exists>ms t. ms \<noteq> [] \<and> v = JObject (acc @ ms) \<and> text = t @ CHR 0x7D # rest \<and> members_text ms t \<and>
    members_legal ms \<and> distinct (map fst (acc @ ms)) \<and> members_depth ms \<le> levels \<and>
    nodes' = nodes + members_nodes ms \<and> nodes' \<le> 8192"
  using assms(2,3)
proof (induction fuel arbitrary: acc "text" nodes)
  case 0
  then show ?case by simp
next
  case (Suc fuel)
  from Suc.prems(1) obtain t1 key t2 t3 x t4 n4 t5 where step: "skip_ws text = CHR 0x22 # t1"
    "parse_raw_string t1 = Inr (key, t2)" "skip_ws t2 = CHR '':'' # t3"
    "pv (path @ ''/'' @ key) (skip_ws t3) nodes = Parsed x t4 n4" "key \<notin> set (map fst acc)"
    "skip_ws t4 = CHR '','' # t5 \<and>
       parse_members pv fuel path (acc @ [(key, x)]) t5 n4 = Parsed v rest nodes' \<or>
     skip_ws t4 = CHR 0x7D # rest \<and> v = JObject (acc @ [(key, x)]) \<and> nodes' = n4"
    by (rule parse_members_step)
  obtain w1 where w1: "ws w1" "text = w1 @ CHR 0x22 # t1" using skip_ws_split [of "text"] step(1) by auto
  obtain kt where kt: "CHR 0x22 # t1 = kt @ t2" "string_text key kt" "legal_string key"
    using parse_raw_string_sound [OF step(2)] by blast
  obtain w2 where w2: "ws w2" "t2 = w2 @ CHR '':'' # t3" using skip_ws_split [of t2] step(3) by auto
  obtain w3 where w3: "ws w3" "t3 = w3 @ skip_ws t3" using skip_ws_split [of t3] by auto
  from assms(1) step(4) obtain vt where vt: "skip_ws t3 = vt @ t4" "json_text x vt" "json_legal x"
    "json_depth x \<le> levels" "n4 = nodes + json_nodes x" "n4 \<le> 8192" by (rule soundD)
  obtain w4 where w4: "ws w4" "t4 = w4 @ skip_ws t4" using skip_ws_split [of t4] by auto
  have front: "text = w1 @ kt @ w2 @ CHR '':'' # w3 @ vt @ w4 @ skip_ws t4"
    unfolding w1(2) kt(1) using w2(2) w3(2) vt(1) w4(2) by simp
  have fresh: "distinct (map fst (acc @ [(key, x)]))" using Suc.prems(2) step(5) by simp
  from step(6) show ?case
  proof (elim disjE conjE)
    assume "skip_ws t4 = CHR 0x7D # rest" "v = JObject (acc @ [(key, x)])" "nodes' = n4"
    then show ?thesis
      using front w1(1) w2(1) w3(1) w4(1) kt vt fresh
      by (intro exI [of _ "[(key, x)]"] exI [of _ "w1 @ kt @ w2 @ CHR '':'' # w3 @ vt @ w4"])
        (auto intro: grammar)
  next
    assume "skip_ws t4 = CHR '','' # t5"
      and run: "parse_members pv fuel path (acc @ [(key, x)]) t5 n4 = Parsed v rest nodes'"
    moreover from Suc.IH [OF run fresh] obtain m ms t where ms: "v = JObject ((acc @ [(key, x)]) @ m # ms)"
      "t5 = t @ CHR 0x7D # rest" "members_text (m # ms) t" "members_legal (m # ms)"
      "distinct (map fst ((acc @ [(key, x)]) @ m # ms))" "members_depth (m # ms) \<le> levels"
      "nodes' = n4 + members_nodes (m # ms)" "nodes' \<le> 8192" by (auto simp: neq_Nil_conv)
    ultimately show ?thesis
      using front kt vt
        more_members [OF w1(1) kt(2) w2(1) w3(1) vt(2) w4(1) ms(3)]
      by (intro exI [of _ "(key, x) # m # ms"] exI [of _ "w1 @ kt @ w2 @ CHR '':'' # w3 @ vt @ w4 @ CHR '','' # t"]) simp
  qed
qed

lemma parse_elements_sound:
  assumes "sound pv levels" and "parse_elements pv fuel path acc text nodes = Parsed v rest nodes'"
  shows "\<exists>vs t. vs \<noteq> [] \<and> v = JArray (acc @ vs) \<and> text = t @ CHR '']'' # rest \<and> elements_text vs t \<and>
    elements_legal vs \<and> elements_depth vs \<le> levels \<and>
    nodes' = nodes + elements_nodes vs \<and> nodes' \<le> 8192"
  using assms(2)
proof (induction fuel arbitrary: acc "text" nodes)
  case 0
  then show ?case by simp
next
  case (Suc fuel)
  from Suc.prems obtain x t4 n4 t5 where step:
    "pv (path @ ''/'' @ decimal (length acc)) (skip_ws text) nodes = Parsed x t4 n4"
    "skip_ws t4 = CHR '','' # t5 \<and>
       parse_elements pv fuel path (acc @ [x]) t5 n4 = Parsed v rest nodes' \<or>
     skip_ws t4 = CHR '']'' # rest \<and> v = JArray (acc @ [x]) \<and> nodes' = n4"
    by (rule parse_elements_step)
  obtain w1 where w1: "ws w1" "text = w1 @ skip_ws text" using skip_ws_split [of "text"] by blast
  from assms(1) step(1) obtain vt where vt: "skip_ws text = vt @ t4" "json_text x vt" "json_legal x"
    "json_depth x \<le> levels" "n4 = nodes + json_nodes x" "n4 \<le> 8192" by (rule soundD)
  obtain w2 where w2: "ws w2" "t4 = w2 @ skip_ws t4" using skip_ws_split [of t4] by blast
  have front: "text = w1 @ vt @ w2 @ skip_ws t4" using w1(2) vt(1) w2(2) by simp
  from step(2) show ?case
  proof (elim disjE conjE)
    assume "skip_ws t4 = CHR '']'' # rest" "v = JArray (acc @ [x])" "nodes' = n4"
    then show ?thesis
      using front w1(1) w2(1) vt
      by (intro exI [of _ "[x]"] exI [of _ "w1 @ vt @ w2"]) (auto intro: grammar)
  next
    assume "skip_ws t4 = CHR '','' # t5"
      and run: "parse_elements pv fuel path (acc @ [x]) t5 n4 = Parsed v rest nodes'"
    moreover from Suc.IH [OF run] obtain y ys t where vs: "v = JArray ((acc @ [x]) @ y # ys)"
      "t5 = t @ CHR '']'' # rest" "elements_text (y # ys) t" "elements_legal (y # ys)"
      "elements_depth (y # ys) \<le> levels"
      "nodes' = n4 + elements_nodes (y # ys)" "nodes' \<le> 8192" by (auto simp: neq_Nil_conv)
    ultimately show ?thesis
      using front vt more_elements [OF w1(1) vt(2) w2(1) vs(3)]
      by (intro exI [of _ "x # y # ys"] exI [of _ "w1 @ vt @ w2 @ CHR '','' # t"]) simp
  qed
qed

lemma parse_object_sound:
  assumes "sound pv levels" and "parse_object pv path text nodes = Parsed v rest nodes'" and "nodes \<le> 8192"
  shows "\<exists>t. CHR 0x7B # text = t @ rest \<and> t \<noteq> [] \<and> json_text v t \<and> json_legal v \<and> json_depth v \<le> Suc levels \<and>
    Suc nodes' = nodes + json_nodes v \<and> nodes' \<le> 8192"
proof -
  obtain w where w: "ws w" "text = w @ skip_ws text" using skip_ws_split by blast
  show ?thesis
  proof (cases "skip_ws text = CHR 0x7D # rest \<and> v = JObject [] \<and> nodes' = nodes")
    case True
    with w empty_object [OF w(1)] assms(3) show ?thesis
      by (intro exI [of _ "CHR 0x7B # w @ [CHR 0x7D]"]) auto
  next
    case False
    then have "parse_members pv (Suc (length text)) path [] (skip_ws text) nodes = Parsed v rest nodes'"
      using assms(2) by (auto simp: parse_object_def split: list.splits if_splits)
    from parse_members_sound [OF assms(1) this] obtain m ms t where ms: "v = JObject (m # ms)"
      "skip_ws text = t @ CHR 0x7D # rest" "members_text (m # ms) t" "members_legal (m # ms)"
      "distinct (map fst (m # ms))" "members_depth (m # ms) \<le> levels"
      "nodes' = nodes + members_nodes (m # ms)" "nodes' \<le> 8192" by (auto simp: neq_Nil_conv)
    then show ?thesis
      using w(2) object [OF members_text_ws [OF w(1) ms(3)]]
      by (intro exI [of _ "CHR 0x7B # (w @ t) @ [CHR 0x7D]"]) auto
  qed
qed

lemma parse_array_sound:
  assumes "sound pv levels" and "parse_array pv path text nodes = Parsed v rest nodes'" and "nodes \<le> 8192"
  shows "\<exists>t. CHR ''['' # text = t @ rest \<and> t \<noteq> [] \<and> json_text v t \<and> json_legal v \<and> json_depth v \<le> Suc levels \<and>
    Suc nodes' = nodes + json_nodes v \<and> nodes' \<le> 8192"
proof -
  obtain w where w: "ws w" "text = w @ skip_ws text" using skip_ws_split by blast
  show ?thesis
  proof (cases "skip_ws text = CHR '']'' # rest \<and> v = JArray [] \<and> nodes' = nodes")
    case True
    with w empty_array [OF w(1)] assms(3) show ?thesis
      by (intro exI [of _ "CHR ''['' # w @ [CHR '']'']"]) auto
  next
    case False
    then have "parse_elements pv (Suc (length text)) path [] (skip_ws text) nodes = Parsed v rest nodes'"
      using assms(2) by (auto simp: parse_array_def split: list.splits if_splits)
    from parse_elements_sound [OF assms(1) this] obtain x xs t where vs: "v = JArray (x # xs)"
      "skip_ws text = t @ CHR '']'' # rest" "elements_text (x # xs) t" "elements_legal (x # xs)"
      "elements_depth (x # xs) \<le> levels"
      "nodes' = nodes + elements_nodes (x # xs)" "nodes' \<le> 8192" by (auto simp: neq_Nil_conv)
    then show ?thesis
      using w(2) array [OF elements_text_ws [OF w(1) vs(3)]]
      by (intro exI [of _ "CHR ''['' # (w @ t) @ [CHR '']'']"]) auto
  qed
qed

lemma parse_literal_sound:
  "parse_literal expected v path text nodes = Parsed v' rest nodes' \<Longrightarrow>
     text = expected @ rest \<and> v' = v \<and> nodes' = nodes"
  by (auto simp: parse_literal_def literal_def split: if_splits) (metis append_take_drop_id)

lemma parse_value_sound: "sound (parse_value levels) levels"
proof (induction levels)
  case 0
  then show ?case by (simp add: sound_def)
next
  case (Suc levels)
  show ?case
    unfolding sound_def
  proof (intro allI impI)
    fix path "text" nodes v rest nodes'
    assume run: "parse_value (Suc levels) path text nodes = Parsed v rest nodes'"
    then have room: "Suc nodes \<le> 8192" and "text \<noteq> []"
      and dispatch: "parse_dispatch (parse_value levels) path text (Suc nodes) = Parsed v rest nodes'"
      by (auto split: if_splits)
    then obtain c text' where c: "text = c # text'" by (cases "text") auto
    note d = dispatch [unfolded parse_dispatch_def Let_def c list.sel]
    consider (object) "c = CHR 0x7B" | (array) "c = CHR ''[''" | (string) "c = CHR 0x22"
      | (true) "c = CHR ''t''" | (false) "c = CHR ''f''" | (null) "c = CHR ''n''"
      | (number) "c \<noteq> CHR 0x7B" "c \<noteq> CHR ''[''" "c \<noteq> CHR 0x22" "c \<noteq> CHR ''t''" "c \<noteq> CHR ''f''" "c \<noteq> CHR ''n''"
      by blast
    then show "\<exists>t. text = t @ rest \<and> t \<noteq> [] \<and> json_text v t \<and> json_legal v \<and> json_depth v \<le> Suc levels \<and>
        nodes' = nodes + json_nodes v \<and> nodes' \<le> 8192"
    proof cases
      case object
      with d have "parse_object (parse_value levels) path text' (Suc nodes) = Parsed v rest nodes'" by simp
      from parse_object_sound [OF Suc.IH this room] show ?thesis unfolding c object by simp
    next
      case array
      with d have "parse_array (parse_value levels) path text' (Suc nodes) = Parsed v rest nodes'" by simp
      from parse_array_sound [OF Suc.IH this room] show ?thesis unfolding c array by simp
    next
      case string
      with d have "parse_string_value path text' (Suc nodes) = Parsed v rest nodes'" by simp
      then obtain s where s: "parse_raw_string text' = Inr (s, rest)" "v = JString s" "nodes' = Suc nodes"
        by (auto simp: parse_string_value_def split: sum.splits)
      from parse_raw_string_sound [OF s(1)] s(2,3) room show ?thesis
        unfolding c string by (auto simp: string_text_def intro!: grammar)
    next
      case true
      with d parse_literal_sound [of "''true''"] have "text = ''true'' @ rest \<and> v = JBoolean True \<and> nodes' = Suc nodes"
        unfolding c by simp
      with room show ?thesis by (intro exI [of _ "''true''"]) (auto intro: grammar)
    next
      case false
      with d parse_literal_sound [of "''false''"] have "text = ''false'' @ rest \<and> v = JBoolean False \<and> nodes' = Suc nodes"
        unfolding c by simp
      with room show ?thesis by (intro exI [of _ "''false''"]) (auto intro: grammar)
    next
      case null
      with d parse_literal_sound [of "''null''"] have "text = ''null'' @ rest \<and> v = JNull \<and> nodes' = Suc nodes"
        unfolding c by simp
      with room show ?thesis by (intro exI [of _ "''null''"]) (auto intro: grammar)
    next
      case number
      with d have "parse_number path text (Suc nodes) = Parsed v rest nodes'" unfolding c by simp
      from parse_number_sound [OF this] obtain t n where t: "text = t @ rest" "number_text n t"
        "v = JInteger (word_of_int n)" "i64_min \<le> n" "n \<le> i64_max" "nodes' = Suc nodes" by blast
      from t(2) have "t \<noteq> []" by (auto simp: number_text_def digits_text_def)
      with t room show ?thesis by (intro exI [of _ t]) (auto intro: grammar)
    qed
  qed
qed

section \<open>The loops end\<close>

lemma parse_raw_string_length: "parse_raw_string text = Inr (s, rest) \<Longrightarrow> length rest < length text"
proof -
  assume "parse_raw_string text = Inr (s, rest)"
  from parse_raw_string_sound [OF this] obtain t where t: "CHR 0x22 # text = t @ rest" "string_text s t" by blast
  then have "length (CHR 0x22 # text) = length t + length rest" by (metis length_append)
  moreover have "2 \<le> length t" using t(2) by (auto simp: string_text_def)
  ultimately show ?thesis by simp
qed

lemma parse_members_ends:
  assumes "sound pv levels" and "\<And>path text nodes. pv path text nodes \<noteq> Exhausted"
  shows "length text < fuel \<Longrightarrow> parse_members pv fuel path acc text nodes \<noteq> Exhausted"
proof (induction fuel arbitrary: acc "text" nodes)
  case (Suc fuel)
  have shorter: "length t5 < length text"
    if "skip_ws text = CHR 0x22 # t1" "parse_raw_string t1 = Inr (key, t2)" "skip_ws t2 = c # t3"
      "pv p (skip_ws t3) nodes = Parsed x t4 n4" "skip_ws t4 = c' # t5" for t1 key t2 c t3 p x t4 n4 c' t5
  proof -
    from assms(1) that(4) obtain vt where "skip_ws t3 = vt @ t4" by (rule soundD)
    then have "length t4 \<le> length (skip_ws t3)" by simp
    with that skip_ws_length [of "text"] skip_ws_length [of t2] skip_ws_length [of t3] skip_ws_length [of t4]
      parse_raw_string_length [OF that(2)] show ?thesis by simp
  qed
  have "parse_members pv fuel path acc' t5 n4 \<noteq> Exhausted"
    if "skip_ws text = CHR 0x22 # t1" "parse_raw_string t1 = Inr (key, t2)" "skip_ws t2 = c # t3"
      "pv p (skip_ws t3) nodes = Parsed x t4 n4" "skip_ws t4 = c' # t5" for t1 key t2 c t3 p x t4 n4 c' t5 acc'
    by (rule Suc.IH) (use shorter [OF that] Suc.prems in simp)
  then show ?case
    using assms(2) by (auto simp: Let_def split: list.splits sum.splits json_step.splits)
qed simp

lemma parse_elements_ends:
  assumes "sound pv levels" and "\<And>path text nodes. pv path text nodes \<noteq> Exhausted"
  shows "length text < fuel \<Longrightarrow> parse_elements pv fuel path acc text nodes \<noteq> Exhausted"
proof (induction fuel arbitrary: acc "text" nodes)
  case (Suc fuel)
  have shorter: "length t5 < length text"
    if "pv p (skip_ws text) nodes = Parsed x t4 n4" "skip_ws t4 = c' # t5" for p x t4 n4 c' t5
  proof -
    from assms(1) that(1) obtain vt where "skip_ws text = vt @ t4" "vt \<noteq> []" by (rule soundD)
    then have "length t4 < length (skip_ws text)" by simp
    with that skip_ws_length [of "text"] skip_ws_length [of t4] show ?thesis by simp
  qed
  have "parse_elements pv fuel path acc' t5 n4 \<noteq> Exhausted"
    if "pv p (skip_ws text) nodes = Parsed x t4 n4" "skip_ws t4 = c' # t5" for p x t4 n4 c' t5 acc'
    by (rule Suc.IH) (use shorter [OF that] Suc.prems in simp)
  then show ?case
    using assms(2) by (auto simp: Let_def split: list.splits json_step.splits)
qed simp

lemma not_exhausted_if: "(if b then r else r') \<noteq> Exhausted \<longleftrightarrow> (if b then r \<noteq> Exhausted else r' \<noteq> Exhausted)"
  by simp

lemma parse_value_ends: "parse_value levels path text nodes \<noteq> Exhausted"
proof (induction levels arbitrary: path "text" nodes)
  case (Suc levels)
  note loops = parse_members_ends [OF parse_value_sound Suc.IH] parse_elements_ends [OF parse_value_sound Suc.IH]
  have fuel: "length (c # t') < Suc (length t)" if "skip_ws t = c # t'" for c t' t
    using skip_ws_length [of t] that by simp
  have "parse_object (parse_value levels) path t n \<noteq> Exhausted" for t n
  proof (cases "skip_ws t")
    case Nil
    show ?thesis unfolding parse_object_def Nil list.case by (rule loops(1)) simp
  next
    case (Cons c t')
    have "parse_members (parse_value levels) (Suc (length t)) path [] (c # t') n \<noteq> Exhausted"
      by (rule loops(1)) (rule fuel [OF Cons])
    then show ?thesis unfolding parse_object_def Cons list.case by (simp only: not_exhausted_if json_step.distinct simp_thms if_cancel)
  qed
  moreover have "parse_array (parse_value levels) path t n \<noteq> Exhausted" for t n
  proof (cases "skip_ws t")
    case Nil
    show ?thesis unfolding parse_array_def Nil list.case by (rule loops(2)) simp
  next
    case (Cons c t')
    have "parse_elements (parse_value levels) (Suc (length t)) path [] (c # t') n \<noteq> Exhausted"
      by (rule loops(2)) (rule fuel [OF Cons])
    then show ?thesis unfolding parse_array_def Cons list.case by (simp only: not_exhausted_if json_step.distinct simp_thms if_cancel)
  qed
  moreover have "parse_digits path negative t n \<noteq> Exhausted" for negative t n
    unfolding parse_digits_def Let_def by (simp only: not_exhausted_if json_step.distinct simp_thms if_cancel)
  then have "parse_number path t n \<noteq> Exhausted" for t n by (simp only: parse_number_def not_exhausted_if simp_thms if_cancel)
  moreover have "parse_string_value path t n \<noteq> Exhausted" "parse_literal e v path t n \<noteq> Exhausted" for e v t n
    by (simp_all add: parse_string_value_def parse_literal_def split: sum.split option.split)
  ultimately have "parse_dispatch (parse_value levels) path text (Suc nodes) \<noteq> Exhausted"
    unfolding parse_dispatch_def Let_def by (simp only: not_exhausted_if simp_thms if_cancel)
  then show ?case by (simp only: parse_value.simps not_exhausted_if json_step.distinct simp_thms if_cancel)
qed simp

section \<open>Completeness\<close>

lemma number_text_start:
  assumes "number_text n t"
  shows "\<exists>c t'. t = c # t' \<and> (isdigit c \<or> c = CHR ''-'')"
  using assms by (cases t) (auto simp: number_text_def digits_text_def)

lemma json_text_start:
  assumes "json_text v t"
  shows "\<exists>c t'. t = c # t' \<and> \<not> is_ws c \<and> c \<noteq> CHR '']''"
  using assms
  by (cases rule: json_text.cases)
    (auto simp: is_ws_def isdigit_def string_text_def dest!: number_text_start)

lemma follows_simps [simp]:
  "follows (CHR '','' # r)" "follows (CHR '']'' # r)" "follows (CHR 0x7D # r)" "follows []"
  by (simp_all add: follows_def)

lemma follows_ws: "ws w \<Longrightarrow> follows r \<Longrightarrow> follows (w @ r)"
  by (cases w) (simp_all add: follows_def)

lemma skip_ws_before: "ws w \<Longrightarrow> json_text v t \<Longrightarrow> skip_ws (w @ t @ r) = t @ r"
  using json_text_start [of v t] by (auto simp: skip_ws_append)

lemma parse_literal_complete: "parse_literal e v path (e @ r) nodes = Parsed v r nodes"
  by (simp add: parse_literal_def literal_def)

lemma parse_number_dispatch:
  assumes "number_text n t"
  shows "parse_dispatch pv path (t @ r) nodes = parse_number path (t @ r) nodes"
proof -
  obtain c t' where "t = c # t'" "isdigit c \<or> c = CHR ''-''" using number_text_start [OF assms] by blast
  moreover from this(2) have "c \<noteq> CHR 0x7B" "c \<noteq> CHR ''[''" "c \<noteq> CHR 0x22" "c \<noteq> CHR ''t''" "c \<noteq> CHR ''f''"
    "c \<noteq> CHR ''n''" by (auto simp: isdigit_def)
  ultimately show ?thesis unfolding parse_dispatch_def Let_def by (simp only: append_Cons list.sel if_False)
qed

lemma parse_members_head:
  assumes "ws w1" "string_text k kt" "legal_string k" "ws w2" "ws w3" "json_text v vt"
    and run: "\<And>path. pv path (vt @ r) nodes = Parsed v r n4" and "k \<notin> set (map fst acc)"
  shows "parse_members pv (Suc fuel) path acc (w1 @ kt @ w2 @ CHR '':'' # w3 @ vt @ r) nodes =
    (case skip_ws r of [] \<Rightarrow> Failed JP_invalid_json path
     | c # r' \<Rightarrow>
         if c = CHR '','' then parse_members pv fuel path (acc @ [(k, v)]) r' n4
         else if c = CHR 0x7D then Parsed (JObject (acc @ [(k, v)])) r' n4
         else Failed JP_invalid_json path)"
proof -
  from parse_raw_string_complete [OF assms(2,3), of "w2 @ CHR '':'' # w3 @ vt @ r"] obtain u where
    u: "kt = CHR 0x22 # u" "parse_raw_string (u @ w2 @ CHR '':'' # w3 @ vt @ r) =
      Inr (k, w2 @ CHR '':'' # w3 @ vt @ r)" by blast
  have skips: "skip_ws (w1 @ kt @ w2 @ CHR '':'' # w3 @ vt @ r) = CHR 0x22 # u @ w2 @ CHR '':'' # w3 @ vt @ r"
    "skip_ws (w2 @ CHR '':'' # w3 @ vt @ r) = CHR '':'' # w3 @ vt @ r" "skip_ws (w3 @ vt @ r) = vt @ r"
    using assms(1,4,5) skip_ws_before [OF assms(5,6)] by (simp_all add: u(1) skip_ws_append)
  show ?thesis
    unfolding parse_members.simps skips list.case u(2) sum.case prod.case Let_def run json_step.case
    by (simp only: assms(8) simp_thms if_False)
qed

lemma parse_elements_head:
  assumes "ws w1" "json_text v vt" and run: "\<And>path. pv path (vt @ r) nodes = Parsed v r n4"
  shows "parse_elements pv (Suc fuel) path acc (w1 @ vt @ r) nodes =
    (case skip_ws r of [] \<Rightarrow> Failed JP_invalid_json path
     | c # r' \<Rightarrow>
         if c = CHR '','' then parse_elements pv fuel path (acc @ [v]) r' n4
         else if c = CHR '']'' then Parsed (JArray (acc @ [v])) r' n4
         else Failed JP_invalid_json path)"
  using run skip_ws_before [OF assms(1,2), of r] by (simp add: Let_def)

lemma skip_ws_members:
  assumes "members_text ms t"
  shows "\<exists>u. skip_ws (t @ r) = CHR 0x22 # u \<and> length u < length (t @ r) \<and>
    (\<forall>pv fuel path acc nodes. parse_members pv fuel path acc (CHR 0x22 # u) nodes =
       parse_members pv fuel path acc (t @ r) nodes)"
proof -
  from assms obtain w k kt t' where "ws w" "t = w @ kt @ t'" "string_text k kt"
    by (cases rule: members_text.cases) auto
  then obtain u where u: "skip_ws (t @ r) = CHR 0x22 # u" by (auto simp: string_text_def skip_ws_append)
  have "parse_members pv fuel path acc (skip_ws (t @ r)) nodes = parse_members pv fuel path acc (t @ r) nodes"
    for pv fuel path acc nodes
  proof (cases fuel)
    case (Suc fuel')
    have "skip_ws (skip_ws (t @ r)) = skip_ws (t @ r)" by (simp add: skip_ws_def dropWhile_idem)
    then show ?thesis by (simp add: Suc)
  qed simp
  with u skip_ws_length [of "t @ r"] show ?thesis by auto
qed

lemma skip_ws_elements:
  assumes "elements_text vs t"
  shows "\<exists>c u. skip_ws (t @ r) = c # u \<and> c \<noteq> CHR '']'' \<and>
    (\<forall>pv fuel path acc nodes. parse_elements pv fuel path acc (c # u) nodes =
       parse_elements pv fuel path acc (t @ r) nodes)"
proof -
  from assms obtain w v vt t' where "ws w" "t = w @ vt @ t'" "json_text v vt"
    by (cases rule: elements_text.cases) auto
  with json_text_start [of v vt] obtain c u where u: "skip_ws (t @ r) = c # u" "c \<noteq> CHR '']''"
    by (auto simp: skip_ws_append)
  have "parse_elements pv fuel path acc (skip_ws (t @ r)) nodes = parse_elements pv fuel path acc (t @ r) nodes"
    for pv fuel path acc nodes
  proof (cases fuel)
    case (Suc fuel')
    have "skip_ws (skip_ws (t @ r)) = skip_ws (t @ r)" by (simp add: skip_ws_def dropWhile_idem)
    then show ?thesis by (simp add: Suc)
  qed simp
  with u show ?thesis by auto
qed

text \<open>What the grammar derives within the limits is read, whatever legal text follows it.\<close>

definition reads :: "json_value \<Rightarrow> string \<Rightarrow> bool" where
  "reads v t \<longleftrightarrow>
     (\<forall>levels path r nodes. json_legal v \<and> json_depth v \<le> levels \<and> nodes + json_nodes v \<le> 8192 \<and> follows r \<longrightarrow>
        parse_value levels path (t @ r) nodes = Parsed v r (nodes + json_nodes v))"

definition reads_members :: "(string \<times> json_value) list \<Rightarrow> string \<Rightarrow> bool" where
  "reads_members ms t \<longleftrightarrow>
     (\<forall>levels fuel path acc r nodes. members_legal ms \<and> distinct (map fst (acc @ ms)) \<and> members_depth ms \<le> levels \<and>
        nodes + members_nodes ms \<le> 8192 \<and> length t < fuel \<longrightarrow>
        parse_members (parse_value levels) fuel path acc (t @ CHR 0x7D # r) nodes =
          Parsed (JObject (acc @ ms)) r (nodes + members_nodes ms))"

definition reads_elements :: "json_value list \<Rightarrow> string \<Rightarrow> bool" where
  "reads_elements vs t \<longleftrightarrow>
     (\<forall>levels fuel path acc r nodes. elements_legal vs \<and> elements_depth vs \<le> levels \<and>
        nodes + elements_nodes vs \<le> 8192 \<and> length t < fuel \<longrightarrow>
        parse_elements (parse_value levels) fuel path acc (t @ CHR '']'' # r) nodes =
          Parsed (JArray (acc @ vs)) r (nodes + elements_nodes vs))"

lemma readsD:
  "reads v t \<Longrightarrow> json_legal v \<Longrightarrow> json_depth v \<le> levels \<Longrightarrow> nodes + json_nodes v \<le> 8192 \<Longrightarrow> follows r \<Longrightarrow>
     parse_value levels path (t @ r) nodes = Parsed v r (nodes + json_nodes v)"
  unfolding reads_def by blast

lemma reads_membersD:
  "reads_members ms t \<Longrightarrow> members_legal ms \<Longrightarrow> distinct (map fst (acc @ ms)) \<Longrightarrow> members_depth ms \<le> levels \<Longrightarrow>
     nodes + members_nodes ms \<le> 8192 \<Longrightarrow> length t < fuel \<Longrightarrow>
     parse_members (parse_value levels) fuel path acc (t @ CHR 0x7D # r) nodes =
       Parsed (JObject (acc @ ms)) r (nodes + members_nodes ms)"
  unfolding reads_members_def by blast

lemma reads_elementsD:
  "reads_elements vs t \<Longrightarrow> elements_legal vs \<Longrightarrow> elements_depth vs \<le> levels \<Longrightarrow>
     nodes + elements_nodes vs \<le> 8192 \<Longrightarrow> length t < fuel \<Longrightarrow>
     parse_elements (parse_value levels) fuel path acc (t @ CHR '']'' # r) nodes =
       Parsed (JArray (acc @ vs)) r (nodes + elements_nodes vs)"
  unfolding reads_elements_def by blast

lemma json_depth_pos: "0 < json_depth v" and json_nodes_pos: "0 < json_nodes v"
  by (cases v; simp)+

text \<open>A value is read when the dispatch reads it, one level down and one node on.\<close>

lemma reads_dispatch:
  assumes "t \<noteq> []"
    and "\<And>levels path r nodes. json_legal v \<Longrightarrow> json_depth v \<le> Suc levels \<Longrightarrow> nodes + json_nodes v \<le> 8192 \<Longrightarrow> follows r \<Longrightarrow>
      parse_dispatch (parse_value levels) path (t @ r) (Suc nodes) = Parsed v r (nodes + json_nodes v)"
  shows "reads v t"
  unfolding reads_def
proof (intro allI impI, elim conjE)
  fix levels path r nodes
  assume lim: "json_legal v" "json_depth v \<le> levels" "nodes + json_nodes v \<le> 8192" "follows r"
  from lim(2) json_depth_pos [of v] obtain l where l: "levels = Suc l" by (cases levels) auto
  from lim(3) json_nodes_pos [of v] have "\<not> kJsonMaximumNodes \<le> nodes" by simp
  with assms(1) assms(2) [of l nodes r path] lim show "parse_value levels path (t @ r) nodes = Parsed v r (nodes + json_nodes v)"
    unfolding l by (simp only: parse_value.simps if_False append_is_Nil_conv simp_thms)
qed

lemma reads_literals: "reads JNull ''null''" "reads (JBoolean True) ''true''" "reads (JBoolean False) ''false''"
proof -
  have hds: "hd (''null'' @ r) = CHR ''n''" "hd (''true'' @ r) = CHR ''t''" "hd (''false'' @ r) = CHR ''f''" for r
    by simp_all
  show "reads JNull ''null''" "reads (JBoolean True) ''true''" "reads (JBoolean False) ''false''"
    by (rule reads_dispatch, simp, unfold parse_dispatch_def Let_def hds,
        simp add: parse_literal_complete del: append_Cons)+
qed

lemma reads_integer:
  assumes "number_text n t" "i64_min \<le> n" "n \<le> i64_max"
  shows "reads (JInteger (word_of_int n)) t"
proof (rule reads_dispatch)
  show "t \<noteq> []" using number_text_start [OF assms(1)] by auto
  fix levels path r nodes
  assume "follows r"
  with assms show "parse_dispatch (parse_value levels) path (t @ r) (Suc nodes) =
      Parsed (JInteger (word_of_int n)) r (nodes + json_nodes (JInteger (word_of_int n)))"
    by (simp add: parse_number_dispatch [OF assms(1)] parse_number_complete)
qed

lemma reads_string:
  assumes "string_text s t"
  shows "reads (JString s) t"
proof (rule reads_dispatch)
  show "t \<noteq> []" using assms by (auto simp: string_text_def)
  fix levels path r nodes
  assume "json_legal (JString s)"
  then have "legal_string s" by simp
  from parse_raw_string_complete [OF assms this, of r] obtain u where
    u: "t = CHR 0x22 # u" "parse_raw_string (u @ r) = Inr (s, r)" by blast
  then show "parse_dispatch (parse_value levels) path (t @ r) (Suc nodes) =
      Parsed (JString s) r (nodes + json_nodes (JString s))"
    by (simp add: parse_dispatch_def parse_string_value_def)
qed

lemma reads_empty_object:
  assumes "ws w"
  shows "reads (JObject []) (CHR 0x7B # w @ [CHR 0x7D])"
  by (rule reads_dispatch) (use assms in \<open>simp_all add: parse_dispatch_def parse_object_def skip_ws_append\<close>)

lemma reads_empty_array:
  assumes "ws w"
  shows "reads (JArray []) (CHR ''['' # w @ [CHR '']''])"
  by (rule reads_dispatch) (use assms in \<open>simp_all add: parse_dispatch_def parse_array_def skip_ws_append\<close>)

lemma reads_object:
  assumes "members_text ms t" "reads_members ms t"
  shows "reads (JObject ms) (CHR 0x7B # t @ [CHR 0x7D])"
proof (rule reads_dispatch)
  fix levels path r nodes
  assume lim: "json_legal (JObject ms)" "json_depth (JObject ms) \<le> Suc levels" "nodes + json_nodes (JObject ms) \<le> 8192"
  obtain u where u: "skip_ws (t @ CHR 0x7D # r) = CHR 0x22 # u" "\<And>pv fuel path acc nodes.
      parse_members pv fuel path acc (CHR 0x22 # u) nodes = parse_members pv fuel path acc (t @ CHR 0x7D # r) nodes"
    using skip_ws_members [OF assms(1), of "CHR 0x7D # r"] by blast
  have "parse_members (parse_value levels) (Suc (length (t @ CHR 0x7D # r))) path [] (t @ CHR 0x7D # r) (Suc nodes) =
      Parsed (JObject ([] @ ms)) r (Suc nodes + members_nodes ms)"
    by (rule reads_membersD [OF assms(2)]) (use lim in simp_all)
  then show "parse_dispatch (parse_value levels) path ((CHR 0x7B # t @ [CHR 0x7D]) @ r) (Suc nodes) =
      Parsed (JObject ms) r (nodes + json_nodes (JObject ms))"
    unfolding parse_dispatch_def Let_def parse_object_def
    by (simp add: u del: parse_members.simps)
qed simp

lemma reads_array:
  assumes "elements_text vs t" "reads_elements vs t"
  shows "reads (JArray vs) (CHR ''['' # t @ [CHR '']''])"
proof (rule reads_dispatch)
  fix levels path r nodes
  assume lim: "json_legal (JArray vs)" "json_depth (JArray vs) \<le> Suc levels" "nodes + json_nodes (JArray vs) \<le> 8192"
  obtain c u where u: "skip_ws (t @ CHR '']'' # r) = c # u" "c \<noteq> CHR '']''" "\<And>pv fuel path acc nodes.
      parse_elements pv fuel path acc (c # u) nodes = parse_elements pv fuel path acc (t @ CHR '']'' # r) nodes"
    using skip_ws_elements [OF assms(1), of "CHR '']'' # r"] by blast
  have "parse_elements (parse_value levels) (Suc (length (t @ CHR '']'' # r))) path [] (t @ CHR '']'' # r) (Suc nodes) =
      Parsed (JArray ([] @ vs)) r (Suc nodes + elements_nodes vs)"
    by (rule reads_elementsD [OF assms(2)]) (use lim in simp_all)
  then show "parse_dispatch (parse_value levels) path ((CHR ''['' # t @ [CHR '']'']) @ r) (Suc nodes) =
      Parsed (JArray vs) r (nodes + json_nodes (JArray vs))"
    unfolding parse_dispatch_def Let_def parse_array_def
    by (simp add: u del: parse_elements.simps)
qed simp

lemma reads_last_member:
  assumes "ws w1" "string_text k kt" "ws w2" "ws w3" "json_text v vt" "reads v vt" "ws w4"
  shows "reads_members [(k, v)] (w1 @ kt @ w2 @ CHR '':'' # w3 @ vt @ w4)"
  unfolding reads_members_def
proof (intro allI impI, elim conjE)
  fix levels fuel path acc r nodes
  assume lim: "members_legal [(k, v)]" "distinct (map fst (acc @ [(k, v)]))" "members_depth [(k, v)] \<le> levels"
    "nodes + members_nodes [(k, v)] \<le> 8192" "length (w1 @ kt @ w2 @ CHR '':'' # w3 @ vt @ w4) < fuel"
  then obtain fuel' where fuel: "fuel = Suc fuel'" by (cases fuel) auto
  from lim have legal: "legal_string k" "k \<notin> set (map fst acc)" by auto
  have run: "parse_value levels p (vt @ w4 @ CHR 0x7D # r) nodes = Parsed v (w4 @ CHR 0x7D # r) (nodes + json_nodes v)" for p
    by (rule readsD [OF assms(6)]) (use lim follows_ws [OF assms(7)] in simp_all)
  have "parse_members (parse_value levels) (Suc fuel') path acc
      (w1 @ kt @ w2 @ CHR '':'' # w3 @ vt @ w4 @ CHR 0x7D # r) nodes =
      Parsed (JObject (acc @ [(k, v)])) r (nodes + json_nodes v)"
    by (simp only: parse_members_head [where pv = "parse_value levels" and r = "w4 @ CHR 0x7D # r", OF assms(1,2) legal(1) assms(3,4,5) run legal(2)] skip_ws_append [OF assms(7)]
        not_ws if_False list.case char.inject simp_thms if_True)
  then show "parse_members (parse_value levels) fuel path acc ((w1 @ kt @ w2 @ CHR '':'' # w3 @ vt @ w4) @ CHR 0x7D # r) nodes =
      Parsed (JObject (acc @ [(k, v)])) r (nodes + members_nodes [(k, v)])"
    unfolding fuel by (simp del: parse_members.simps)
qed

lemma reads_more_members:
  assumes "ws w1" "string_text k kt" "ws w2" "ws w3" "json_text v vt" "reads v vt" "ws w4" "reads_members ms t"
  shows "reads_members ((k, v) # ms) (w1 @ kt @ w2 @ CHR '':'' # w3 @ vt @ w4 @ CHR '','' # t)"
  unfolding reads_members_def
proof (intro allI impI, elim conjE)
  fix levels fuel path acc r nodes
  assume lim: "members_legal ((k, v) # ms)" "distinct (map fst (acc @ (k, v) # ms))" "members_depth ((k, v) # ms) \<le> levels"
    "nodes + members_nodes ((k, v) # ms) \<le> 8192" "length (w1 @ kt @ w2 @ CHR '':'' # w3 @ vt @ w4 @ CHR '','' # t) < fuel"
  then obtain fuel' where fuel: "fuel = Suc fuel'" by (cases fuel) auto
  from lim have legal: "legal_string k" "k \<notin> set (map fst acc)" by auto
  have run: "parse_value levels p (vt @ w4 @ CHR '','' # t @ CHR 0x7D # r) nodes =
      Parsed v (w4 @ CHR '','' # t @ CHR 0x7D # r) (nodes + json_nodes v)" for p
    by (rule readsD [OF assms(6)]) (use lim follows_ws [OF assms(7)] in simp_all)
  have "parse_members (parse_value levels) fuel' path (acc @ [(k, v)]) (t @ CHR 0x7D # r) (nodes + json_nodes v) =
      Parsed (JObject ((acc @ [(k, v)]) @ ms)) r (nodes + json_nodes v + members_nodes ms)"
    by (rule reads_membersD [OF assms(8)]) (use lim fuel in simp_all)
  then have "parse_members (parse_value levels) (Suc fuel') path acc
      (w1 @ kt @ w2 @ CHR '':'' # w3 @ vt @ w4 @ CHR '','' # t @ CHR 0x7D # r) nodes =
      Parsed (JObject (acc @ (k, v) # ms)) r (nodes + json_nodes v + members_nodes ms)"
    by (simp only: parse_members_head [where pv = "parse_value levels" and r = "w4 @ CHR '','' # t @ CHR 0x7D # r", OF assms(1,2) legal(1) assms(3,4,5) run legal(2)] skip_ws_append [OF assms(7)]
        not_ws if_False list.case simp_thms if_True append.simps append_assoc)
  then show "parse_members (parse_value levels) fuel path acc
      ((w1 @ kt @ w2 @ CHR '':'' # w3 @ vt @ w4 @ CHR '','' # t) @ CHR 0x7D # r) nodes =
      Parsed (JObject (acc @ (k, v) # ms)) r (nodes + members_nodes ((k, v) # ms))"
    unfolding fuel by (simp add: add.assoc del: parse_members.simps)
qed

lemma reads_last_element:
  assumes "ws w1" "json_text v vt" "reads v vt" "ws w2"
  shows "reads_elements [v] (w1 @ vt @ w2)"
  unfolding reads_elements_def
proof (intro allI impI, elim conjE)
  fix levels fuel path acc r nodes
  assume lim: "elements_legal [v]" "elements_depth [v] \<le> levels"
    "nodes + elements_nodes [v] \<le> 8192" "length (w1 @ vt @ w2) < fuel"
  then obtain fuel' where fuel: "fuel = Suc fuel'" by (cases fuel) auto
  have run: "parse_value levels p (vt @ w2 @ CHR '']'' # r) nodes = Parsed v (w2 @ CHR '']'' # r) (nodes + json_nodes v)" for p
    by (rule readsD [OF assms(3)]) (use lim follows_ws [OF assms(4)] in simp_all)
  show "parse_elements (parse_value levels) fuel path acc ((w1 @ vt @ w2) @ CHR '']'' # r) nodes =
      Parsed (JArray (acc @ [v])) r (nodes + elements_nodes [v])"
    using parse_elements_head [where pv = "parse_value levels" and r = "w2 @ CHR '']'' # r", OF assms(1,2) run, of fuel' path acc]
    unfolding fuel by (simp add: skip_ws_append [OF assms(4)] del: parse_elements.simps)
qed

lemma reads_more_elements:
  assumes "ws w1" "json_text v vt" "reads v vt" "ws w2" "reads_elements vs t"
  shows "reads_elements (v # vs) (w1 @ vt @ w2 @ CHR '','' # t)"
  unfolding reads_elements_def
proof (intro allI impI, elim conjE)
  fix levels fuel path acc r nodes
  assume lim: "elements_legal (v # vs)" "elements_depth (v # vs) \<le> levels"
    "nodes + elements_nodes (v # vs) \<le> 8192" "length (w1 @ vt @ w2 @ CHR '','' # t) < fuel"
  then obtain fuel' where fuel: "fuel = Suc fuel'" by (cases fuel) auto
  have run: "parse_value levels p (vt @ w2 @ CHR '','' # t @ CHR '']'' # r) nodes =
      Parsed v (w2 @ CHR '','' # t @ CHR '']'' # r) (nodes + json_nodes v)" for p
    by (rule readsD [OF assms(3)]) (use lim follows_ws [OF assms(4)] in simp_all)
  have "parse_elements (parse_value levels) fuel' path (acc @ [v]) (t @ CHR '']'' # r) (nodes + json_nodes v) =
      Parsed (JArray ((acc @ [v]) @ vs)) r (nodes + json_nodes v + elements_nodes vs)"
    by (rule reads_elementsD [OF assms(5)]) (use lim fuel in simp_all)
  then show "parse_elements (parse_value levels) fuel path acc ((w1 @ vt @ w2 @ CHR '','' # t) @ CHR '']'' # r) nodes =
      Parsed (JArray (acc @ v # vs)) r (nodes + elements_nodes (v # vs))"
    using parse_elements_head [where pv = "parse_value levels" and r = "w2 @ CHR '','' # t @ CHR '']'' # r", OF assms(1,2) run, of fuel' path acc]
    unfolding fuel by (simp add: skip_ws_append [OF assms(4)] add.assoc del: parse_elements.simps)
qed

lemma grammar_reads:
  "json_text v t \<Longrightarrow> reads v t"
  "members_text ms u \<Longrightarrow> reads_members ms u"
  "elements_text vs w \<Longrightarrow> reads_elements vs w"
proof (induction rule: json_text_members_text_elements_text.inducts)
qed (simp_all only: reads_literals reads_integer reads_string reads_empty_object reads_empty_array reads_object reads_array
  reads_last_member reads_more_members reads_last_element reads_more_elements)

section \<open>The parser\<close>

lemma document_split:
  assumes "ws w" "json_text v t" "ws w'"
  shows "skip_ws (w @ t @ w') = t @ w'" "follows w'" "skip_ws w' = []" "w @ t @ w' \<noteq> []"
proof -
  show "skip_ws (w @ t @ w') = t @ w'" by (rule skip_ws_before [OF assms(1,2)])
  show "follows w'" using follows_ws [OF assms(3), of "[]"] by simp
  show "skip_ws w' = []" by (rule skip_ws_all [OF assms(3)])
  show "w @ t @ w' \<noteq> []" using json_text_start [OF assms(2)] by auto
qed

text \<open>A text of legal size that is white space around a text of the value, within the limits.\<close>

definition json_document :: "json_value \<Rightarrow> string \<Rightarrow> bool" where
  "json_document v text \<longleftrightarrow>
     length text \<le> kProtocolEnvelopeMaximumBytes \<and>
     (\<exists>w t w'. text = w @ t @ w' \<and> ws w \<and> ws w' \<and> json_text v t \<and> json_legal v \<and>
        json_depth v \<le> kJsonMaximumDepth \<and> json_nodes v \<le> kJsonMaximumNodes)"

lemma parse_json_document:
  "parse_json text = Some \<lparr>jr_ok = True, jr_value = v, jr_error = \<lparr>je_code = JP_ok, je_path = []\<rparr>\<rparr> \<longleftrightarrow>
     json_document v text"
    (is "?run \<longleftrightarrow> _")
proof
  assume ?run
  then obtain rest nodes where run: "parse_value kJsonMaximumDepth [] (skip_ws text) 0 = Parsed v rest nodes"
    and rest: "skip_ws rest = []" and fits: "length text \<le> kProtocolEnvelopeMaximumBytes"
    by (auto simp: parse_json_def json_failure_def split: if_splits json_step.splits)
  from parse_value_sound run obtain t where t: "skip_ws text = t @ rest" "json_text v t" "json_legal v"
    "json_depth v \<le> kJsonMaximumDepth" "nodes = 0 + json_nodes v" "nodes \<le> 8192" by (rule soundD)
  obtain w where w: "ws w" "text = w @ skip_ws text" using skip_ws_split by blast
  obtain w' where "ws w'" "rest = w' @ skip_ws rest" using skip_ws_split by blast
  with rest have w': "ws rest" by simp
  have "text = w @ t @ rest" using w(2) t(1) by simp
  with w(1) w' t fits show "json_document v text" unfolding json_document_def by auto
next
  assume "json_document v text"
  then obtain w t w' where g: "text = w @ t @ w'" "ws w" "ws w'" "json_text v t" "json_legal v"
    "json_depth v \<le> kJsonMaximumDepth" "json_nodes v \<le> kJsonMaximumNodes"
    and fits: "length text \<le> kProtocolEnvelopeMaximumBytes" unfolding json_document_def by blast
  note split = document_split [OF g(2,4,3)]
  have "parse_value kJsonMaximumDepth [] (skip_ws text) 0 = Parsed v w' (0 + json_nodes v)"
    unfolding g(1) split(1)
    by (rule readsD [OF grammar_reads(1) [OF g(4)] g(5,6) _ split(2)]) (use g(7) in simp)
  moreover have "\<not> kProtocolEnvelopeMaximumBytes < length text" using fits by simp
  ultimately show ?run
    using split(3) split(4) [folded g(1)] unfolding parse_json_def by (simp only: if_False json_step.case simp_thms)
qed

text \<open>C36: \<open>parse_json\<close> accepts a text with the value \<open>v\<close> exactly when the text has at most 65536
  bytes and is white space around a text that the JSON grammar derives for \<open>v\<close>, where \<open>v\<close> nests at
  most 16 levels deep, has at most 8192 values, and its strings and keys are UTF-8 encodings of at
  most 2048 bytes with no key twice in an object.\<close>

theorem parse_json_accepts_exactly_the_grammar:
  "parse_json text = Some \<lparr>jr_ok = True, jr_value = v, jr_error = \<lparr>je_code = JP_ok, je_path = []\<rparr>\<rparr> \<longleftrightarrow>
     length text \<le> kProtocolEnvelopeMaximumBytes \<and>
     (\<exists>w t w'. text = w @ t @ w' \<and> ws w \<and> ws w' \<and> json_text v t \<and> json_legal v \<and>
        json_depth v \<le> kJsonMaximumDepth \<and> json_nodes v \<le> kJsonMaximumNodes)"
  using parse_json_document [of "text" v] unfolding json_document_def .

text \<open>No failure has the code \<open>ok\<close>.\<close>

lemma parse_escape_code: "parse_escape out text \<noteq> Inl JP_ok"
  by (auto simp: parse_escape_def split: list.split option.split)

lemma parse_chars_code: "parse_chars out text \<noteq> Inl JP_ok"
proof (induction out "text" rule: parse_chars.induct)
  case (1 out "text")
  show ?case
  proof (cases "text")
    case (Cons c rest)
    have "parse_chars out' rest' \<noteq> Inl JP_ok" if "c \<noteq> CHR 0x22" "c = CHR 0x5C" "parse_escape out rest = Inr (out', rest')"
      for out' rest' by (rule 1(1)) (use Cons that in simp_all)
    with 1(2) [OF Cons] parse_escape_code [of out rest] show ?thesis
      by (auto simp: parse_chars.simps [of out "c # rest"] Cons split: sum.split prod.split)
  qed (simp add: parse_chars.simps)
qed

lemma parse_raw_string_code: "parse_raw_string text \<noteq> Inl JP_ok"
  using parse_chars_code [of "[]" "text"] by (auto simp: parse_raw_string_def split: sum.split)

lemma parse_members_code:
  assumes "\<And>path text nodes p. pv path text nodes \<noteq> Failed JP_ok p"
  shows "parse_members pv fuel path acc text nodes \<noteq> Failed JP_ok p"
proof (induction fuel arbitrary: acc "text" nodes)
  case (Suc fuel)
  then show ?case
    using assms parse_raw_string_code by (auto simp: Let_def split: list.splits sum.splits json_step.splits)
qed simp

lemma parse_elements_code:
  assumes "\<And>path text nodes p. pv path text nodes \<noteq> Failed JP_ok p"
  shows "parse_elements pv fuel path acc text nodes \<noteq> Failed JP_ok p"
proof (induction fuel arbitrary: acc "text" nodes)
  case (Suc fuel)
  then show ?case
    using assms by (auto simp: Let_def split: list.splits json_step.splits)
qed simp

lemma failed_if: "(if b then r else r') \<noteq> Failed c p \<longleftrightarrow> (if b then r \<noteq> Failed c p else r' \<noteq> Failed c p)"
  by simp

lemma parse_value_code: "parse_value levels path text nodes \<noteq> Failed JP_ok p"
proof (induction levels arbitrary: path "text" nodes p)
  case (Suc levels)
  note loops = parse_members_code [OF Suc.IH] parse_elements_code [OF Suc.IH]
  have "parse_object (parse_value levels) path t n \<noteq> Failed JP_ok p"
    "parse_array (parse_value levels) path t n \<noteq> Failed JP_ok p" for t n
    unfolding parse_object_def parse_array_def using loops
    by (auto simp del: parse_members.simps parse_elements.simps split: list.split)
  moreover have "parse_digits path negative t n \<noteq> Failed JP_ok p" for negative t n
    unfolding parse_digits_def Let_def
    by (simp only: failed_if json_step.distinct json_step.inject json_parse_code.distinct simp_thms if_cancel)
  then have "parse_number path t n \<noteq> Failed JP_ok p" for t n by (simp only: parse_number_def failed_if simp_thms if_cancel)
  moreover have "parse_string_value path t n \<noteq> Failed JP_ok p" "parse_literal e v path t n \<noteq> Failed JP_ok p" for e v t n
    using parse_raw_string_code [of t]
    by (auto simp: parse_string_value_def parse_literal_def split: sum.split option.split)
  ultimately have "parse_dispatch (parse_value levels) path text (Suc nodes) \<noteq> Failed JP_ok p"
    unfolding parse_dispatch_def Let_def by (simp only: failed_if simp_thms if_cancel)
  then show ?case
    by (simp only: parse_value.simps failed_if json_step.distinct json_step.inject json_parse_code.distinct simp_thms if_cancel)
qed simp

text \<open>C37: \<open>parse_json\<close> ends on every input, however malformed: the fuel of its loops never runs
  out. It reports success exactly when its code is \<open>ok\<close>, and every failure carries a null value.\<close>

theorem parse_json_always_answers:
  "\<exists>result. parse_json text = Some result \<and>
     (jr_ok result \<longleftrightarrow> je_code (jr_error result) = JP_ok) \<and> (jr_ok result \<or> jr_value result = JNull)"
proof (cases "parse_value kJsonMaximumDepth [] (skip_ws text) 0")
  case Exhausted
  then show ?thesis using parse_value_ends by blast
next
  case (Failed code path)
  then have "code \<noteq> JP_ok" using parse_value_code by blast
  with Failed show ?thesis unfolding parse_json_def json_failure_def by (simp del: parse_value.simps)
next
  case (Parsed v rest nodes)
  then show ?thesis unfolding parse_json_def json_failure_def by (simp del: parse_value.simps)
qed

end
