(* ===== verification/Body_Properties.thy ===== *)
theory Body_Properties
  imports Body_Validator Json_Properties "HOL-Library.Code_Target_Nat"
begin

text \<open>
  The hand-written body checks against declarative schemas: the checked-in JSON schemas as data,
  one function that says what conforms to a schema over a measure of string lengths, and the proof
  that the validator gives the verdict that the schemas and the documented conflicts prescribe, with
  lengths in bytes where the schemas count characters. Then the whole gate: when a
  message is accepted, and that an accepted message cannot be replayed.
\<close>

section \<open>Schemas\<close>

text \<open>
  The constructs of JSON Schema that the schemas use, over a measure of the length of a string.
  The members of an object are listed with whether they are required; a closed object has no others.
\<close>

datatype schema =
    S_any
  | S_boolean
  | S_null
  | S_integer int int
  | S_string nat nat
  | S_enum "string list"
  | S_pattern "string \<Rightarrow> bool"
  | S_either schema schema
  | S_unique_array nat nat schema
  | S_object bool "(string \<times> bool \<times> schema) list"

fun conforms_by :: "(string \<Rightarrow> nat) \<Rightarrow> schema \<Rightarrow> json_value \<Rightarrow> bool" where
  "conforms_by len S_any v = True"
| "conforms_by len S_boolean v = (case v of JBoolean b \<Rightarrow> True | _ \<Rightarrow> False)"
| "conforms_by len S_null v = (v = JNull)"
| "conforms_by len (S_integer lo hi) v = (case v of JInteger n \<Rightarrow> lo \<le> sint n \<and> sint n \<le> hi | _ \<Rightarrow> False)"
| "conforms_by len (S_string lo hi) v = (case v of JString s \<Rightarrow> lo \<le> len s \<and> len s \<le> hi | _ \<Rightarrow> False)"
| "conforms_by len (S_enum options) v = (case v of JString s \<Rightarrow> s \<in> set options | _ \<Rightarrow> False)"
| "conforms_by len (S_pattern matches) v = (case v of JString s \<Rightarrow> matches s | _ \<Rightarrow> False)"
| "conforms_by len (S_either a b) v = (conforms_by len a v \<or> conforms_by len b v)"
| "conforms_by len (S_unique_array lo hi item) v =
     (case v of
        JArray vs \<Rightarrow> lo \<le> length vs \<and> length vs \<le> hi \<and> distinct vs \<and> list_all (conforms_by len item) vs
      | _ \<Rightarrow> False)"
| "conforms_by len (S_object closed props) v =
     (case v of
        JObject ms \<Rightarrow>
          (closed \<longrightarrow> fst ` set ms \<subseteq> fst ` set props) \<and>
          list_all (\<lambda>(key, required, s). case map_of ms key of
             None \<Rightarrow> \<not> required
           | Some v \<Rightarrow> conforms_by len s v) props
      | _ \<Rightarrow> False)"

text \<open>
  The schemas count characters: the bytes of the UTF-8 text that do not continue a code point.
  The validator counts bytes.
\<close>

definition char_count :: "string \<Rightarrow> nat" where
  "char_count s = length (filter (\<lambda>c. byte_val c < 128 \<or> 192 \<le> byte_val c) s)"

abbreviation conforms :: "schema \<Rightarrow> json_value \<Rightarrow> bool" where
  "conforms \<equiv> conforms_by length"

text \<open>Character classes and the two patterns.\<close>

definition char_in :: "char \<Rightarrow> char \<Rightarrow> char \<Rightarrow> bool" where
  "char_in a b c \<longleftrightarrow> byte_val a \<le> byte_val c \<and> byte_val c \<le> byte_val b"

definition id_pattern :: "string \<Rightarrow> bool" where
  "id_pattern s \<longleftrightarrow>
     (\<exists>c cs. s = c # cs \<and> length cs \<le> 63 \<and> (char_in CHR ''a'' CHR ''z'' c \<or> char_in CHR ''0'' CHR ''9'' c) \<and>
        (\<forall>d\<in>set cs. char_in CHR ''a'' CHR ''z'' d \<or> char_in CHR ''0'' CHR ''9'' d \<or> d \<in> set ''._-''))"

definition local_time_pattern :: "string \<Rightarrow> bool" where
  "local_time_pattern s \<longleftrightarrow>
     (\<exists>h1 h2 m1 m2. s = [h1, h2, CHR '':'', m1, m2] \<and>
        (char_in CHR ''0'' CHR ''1'' h1 \<and> char_in CHR ''0'' CHR ''9'' h2 \<or>
         h1 = CHR ''2'' \<and> char_in CHR ''0'' CHR ''3'' h2) \<and>
        char_in CHR ''0'' CHR ''5'' m1 \<and> char_in CHR ''0'' CHR ''9'' m2)"

text \<open>The schemas \<open>alarm.schema.json\<close> and \<open>error_response.schema.json\<close>.\<close>

definition alarm_schema :: schema where
  "alarm_schema = S_object True
     [(''id'', True, S_pattern id_pattern),
      (''label'', True, S_string 1 48),
      (''enabled'', True, S_boolean),
      (''localTime'', True, S_pattern local_time_pattern),
      (''days'', True, S_unique_array 1 7 (S_integer 0 6)),
      (''timezone'', True, S_string 3 64),
      (''snoozeMinutes'', True, S_integer 1 30),
      (''volume'', True, S_integer 0 100),
      (''sound'', True, S_string 1 32),
      (''source'', True, S_enum [''manual'', ''ics'']),
      (''sourceEventId'', True, S_either (S_string 0 128) S_null)]"

definition error_schema :: schema where
  "error_schema = S_object True
     [(''code'', True, S_enum [''invalid_protocol'', ''unknown_type'', ''invalid_message_id'',
        ''duplicate_message_id'', ''invalid_sent_at'', ''expected_revision_required'', ''envelope_too_large'',
        ''revision_conflict'', ''schema_invalid'', ''payload_semantic_error'', ''unauthorized'', ''rate_limited'']),
      (''summary'', True, S_string 1 160),
      (''field'', False, S_string 0 64),
      (''retryable'', True, S_boolean),
      (''currentRevision'', False, S_integer 0 9223372036854775807)]"

text \<open>
  The sync receipt has no checked-in schema: its members are pinned by the fixture contract and
  others are tolerated. The three parts are checked one after the other, because a count above
  the storage bound is a conflict and not a malformed body.
\<close>

definition receipt_members :: schema where
  "receipt_members = S_object False
     [(''appliedRevision'', True, S_integer 0 9223372036854775807),
      (''alarmCount'', True, S_integer 0 9223372036854775807),
      (''nextAlarmUtc'', True, S_any)]"

definition receipt_count :: schema where
  "receipt_count = S_object False [(''alarmCount'', True, S_integer 0 32)]"

definition receipt_instant :: schema where
  "receipt_instant = S_object False [(''nextAlarmUtc'', True, S_pattern is_valid_protocol_utc_instant)]"

text \<open>The verdict that the schemas and the documented conflicts prescribe, over a measure of lengths.\<close>

definition verdict_by :: "(string \<Rightarrow> nat) \<Rightarrow> json_value \<Rightarrow> string \<Rightarrow> message_body_code" where
  "verdict_by len body type =
     (if \<not> conforms_by len (S_object False []) body then MB_schema_invalid
      else if type \<in> {''schedule.preview'', ''schedule.apply''}
      then (case json_find body ''alarms'' of
              Some (JArray alarms) \<Rightarrow>
                if 32 < length alarms then MB_payload_semantic_error
                else if \<not> list_all (conforms_by len alarm_schema) alarms then MB_schema_invalid
                else if \<not> distinct (map (\<lambda>alarm. json_find alarm ''id'') alarms) then MB_payload_semantic_error
                else MB_accepted
            | _ \<Rightarrow> MB_schema_invalid)
      else if type = ''error.response''
      then (if conforms_by len error_schema body then MB_accepted else MB_schema_invalid)
      else if type = ''event.syncReceipt''
      then (if \<not> conforms_by len receipt_members body then MB_schema_invalid
            else if \<not> conforms_by len receipt_count body then MB_payload_semantic_error
            else if \<not> conforms_by len receipt_instant body then MB_schema_invalid
            else MB_accepted)
      else MB_accepted)"

abbreviation body_verdict :: "json_value \<Rightarrow> string \<Rightarrow> message_body_code" where
  "body_verdict \<equiv> verdict_by length"

section \<open>What the checks accept\<close>

lemma accepted_simps [simp]:
  "mb_accepted accept_body" "\<not> mb_accepted (reject_body code path)"
  "mb_code accept_body = MB_accepted" "mb_code (reject_body code path) = code"
  "\<not> mb_retryable accept_body" "\<not> mb_retryable (reject_body code path)"
  by (simp_all add: accept_body_def reject_body_def)

text \<open>A well-formed result; and one that can only say that the body does not fit the schema.\<close>

definition result_ok :: "message_body_result \<Rightarrow> bool" where
  "result_ok r \<longleftrightarrow> (mb_accepted r \<longleftrightarrow> mb_code r = MB_accepted) \<and> \<not> mb_retryable r"

definition schema_result :: "message_body_result \<Rightarrow> bool" where
  "schema_result r \<longleftrightarrow> result_ok r \<and> mb_code r \<noteq> MB_payload_semantic_error"

definition schema_failure :: "message_body_result \<Rightarrow> bool" where
  "schema_failure r \<longleftrightarrow> (\<exists>path. r = reject_body MB_schema_invalid path)"

lemma schema_result_simps [simp]: "schema_result accept_body" "schema_result (reject_body MB_schema_invalid path)"
  by (simp_all add: schema_result_def result_ok_def)

lemma schema_failure_simps [simp]: "schema_failure (reject_body MB_schema_invalid path)"
  by (auto simp: schema_failure_def)

lemma check_missing_required_iff: "check_missing_required v p required = None \<longleftrightarrow> list_all (json_has v) required"
  by (induction required) simp_all

lemma unknown_key_iff: "unknown_key ms allowed = None \<longleftrightarrow> fst ` set ms \<subseteq> set allowed"
  by (induction ms allowed rule: unknown_key.induct) auto

lemma check_no_unknown_keys_iff:
  "check_no_unknown_keys v p allowed = None \<longleftrightarrow> fst ` set (json_members v) \<subseteq> set allowed"
  by (simp add: check_no_unknown_keys_def unknown_key_iff)

lemma check_failures:
  "check_missing_required v p required = Some f \<Longrightarrow> schema_failure f"
  "check_no_unknown_keys v p allowed = Some f \<Longrightarrow> schema_failure f"
  "check_days p index seen days = Some f \<Longrightarrow> schema_failure f"
  "validate_days v p = Some f \<Longrightarrow> schema_failure f"
  "validate_error_field v = Some f \<Longrightarrow> schema_failure f"
  "validate_error_revision v = Some f \<Longrightarrow> schema_failure f"
proof -
  show days: "check_days p index seen days = Some f \<Longrightarrow> schema_failure f" for p index seen days
    by (induction p index seen days rule: check_days.induct)
      (auto simp: Let_def split: json_value.splits if_splits)
  show "check_missing_required v p required = Some f \<Longrightarrow> schema_failure f"
    by (induction required) (auto split: if_splits)
  show "check_no_unknown_keys v p allowed = Some f \<Longrightarrow> schema_failure f"
    by (auto simp: check_no_unknown_keys_def)
  show "validate_days v p = Some f \<Longrightarrow> schema_failure f"
    by (auto simp: validate_days_def Let_def split: option.splits json_value.splits if_splits dest: days)
  show "validate_error_field v = Some f \<Longrightarrow> schema_failure f"
    "validate_error_revision v = Some f \<Longrightarrow> schema_failure f"
    by (auto simp: validate_error_field_def validate_error_revision_def require_string_def require_integer_def
        split: option.splits json_value.splits if_splits sum.splits)
qed

lemma accepted_unless_failed:
  "(\<And>f. check = Some f \<Longrightarrow> schema_failure f) \<Longrightarrow> mb_accepted (unless_failed check r) \<longleftrightarrow> check = None \<and> mb_accepted r"
  by (cases check) (auto simp: unless_failed_def schema_failure_def)

lemma schema_unless_failed:
  "(\<And>f. check = Some f \<Longrightarrow> schema_failure f) \<Longrightarrow> schema_result r \<Longrightarrow> schema_result (unless_failed check r)"
  by (cases check) (auto simp: unless_failed_def schema_failure_def)

lemma accepted_checks:
  "mb_accepted (unless_failed (check_missing_required v p required) r) \<longleftrightarrow> list_all (json_has v) required \<and> mb_accepted r"
  "mb_accepted (unless_failed (check_no_unknown_keys v p allowed) r) \<longleftrightarrow>
     fst ` set (json_members v) \<subseteq> set allowed \<and> mb_accepted r"
  "mb_accepted (unless_failed (validate_days v p) r) \<longleftrightarrow> validate_days v p = None \<and> mb_accepted r"
  "mb_accepted (unless_failed (validate_error_field v) r) \<longleftrightarrow> validate_error_field v = None \<and> mb_accepted r"
  "mb_accepted (unless_failed (validate_error_revision v) r) \<longleftrightarrow> validate_error_revision v = None \<and> mb_accepted r"
  by (simp_all only: accepted_unless_failed check_failures check_missing_required_iff check_no_unknown_keys_iff)

lemma accepted_values:
  "mb_accepted (with_value (require_string v k p) rs) \<longleftrightarrow>
     (\<exists>s. json_find v k = Some (JString s) \<and> mb_accepted (rs s))"
  "mb_accepted (with_value (require_boolean v k p) rb) \<longleftrightarrow>
     (\<exists>b. json_find v k = Some (JBoolean b) \<and> mb_accepted (rb b))"
  "mb_accepted (with_value (require_integer v k p) ri) \<longleftrightarrow>
     (\<exists>n. json_find v k = Some (JInteger n) \<and> mb_accepted (ri n))"
  by (auto simp: with_value_def require_string_def require_boolean_def require_integer_def
      split: option.splits json_value.splits)

lemma schema_values:
  "(\<And>s. schema_result (rs s)) \<Longrightarrow> schema_result (with_value (require_string v k p) rs)"
  "(\<And>b. schema_result (rb b)) \<Longrightarrow> schema_result (with_value (require_boolean v k p) rb)"
  "(\<And>n. schema_result (ri n)) \<Longrightarrow> schema_result (with_value (require_integer v k p) ri)"
  by (auto simp: with_value_def require_string_def require_boolean_def require_integer_def
      split: option.splits json_value.splits)

lemma accepted_if: "mb_accepted (if b then reject_body code p else r) \<longleftrightarrow> \<not> b \<and> mb_accepted r"
  by simp

lemma schema_if: "schema_result r \<Longrightarrow> schema_result (if b then reject_body MB_schema_invalid p else r)"
  by simp

lemma schema_source_event: "schema_result (validate_source_event alarm path)"
  by (simp add: validate_source_event_def split: option.split json_value.split)

lemmas schema_rules = schema_if schema_values schema_source_event schema_result_simps
  schema_unless_failed [OF check_failures(1)] schema_unless_failed [OF check_failures(2)]
  schema_unless_failed [OF check_failures(4)] schema_unless_failed [OF check_failures(5)]
  schema_unless_failed [OF check_failures(6)]

lemma schema_alarm: "schema_result (validate_alarm alarm path)"
  unfolding validate_alarm_def by (intro schema_rules)

lemma schema_error_response: "schema_result (validate_error_response_body body)"
  unfolding validate_error_response_body_def by (intro schema_rules)

section \<open>The fields of an alarm\<close>

lemma char_in_simps [simp]:
  "char_in CHR ''a'' CHR ''z'' c \<longleftrightarrow> 97 \<le> byte_val c \<and> byte_val c \<le> 122"
  "char_in CHR ''0'' CHR ''9'' c \<longleftrightarrow> 48 \<le> byte_val c \<and> byte_val c \<le> 57"
  "char_in CHR ''0'' CHR ''1'' c \<longleftrightarrow> 48 \<le> byte_val c \<and> byte_val c \<le> 49"
  "char_in CHR ''0'' CHR ''3'' c \<longleftrightarrow> 48 \<le> byte_val c \<and> byte_val c \<le> 51"
  "char_in CHR ''0'' CHR ''5'' c \<longleftrightarrow> 48 \<le> byte_val c \<and> byte_val c \<le> 53"
  by (simp_all add: char_in_def byte_val_def)

lemma is_valid_alarm_id_iff: "is_valid_alarm_id s \<longleftrightarrow> id_pattern s"
  by (cases s)
    (auto simp: is_valid_alarm_id_def id_pattern_def is_lower_alnum_def is_id_tail_char_def list_all_iff)

lemma char_of_two: "char_of (50 :: nat) = CHR ''2''" and small_two: "(50 :: nat) < 256"
  by code_simp+

lemma is_valid_local_time_iff: "is_valid_local_time s \<longleftrightarrow> local_time_pattern s"
proof (cases "\<exists>h1 h2 m1 m2. s = [h1, h2, CHR '':'', m1, m2]")
  case True
  then obtain h1 h2 m1 m2 where s: "s = [h1, h2, CHR '':'', m1, m2]" by blast
  have "h1 = CHR ''2'' \<longleftrightarrow> byte_val h1 = 50"
    by (metis byte_val_char_of [OF small_two] char_of_byte_val char_of_two)
  then show ?thesis by (auto simp: s is_valid_local_time_def local_time_pattern_def Let_def)
next
  case False
  then have "\<not> local_time_pattern s" by (auto simp: local_time_pattern_def)
  moreover have "\<not> (length s = 5 \<and> s ! 2 = CHR '':'')"
    using False by (auto simp: numeral_eq_Suc length_Suc_conv)
  ultimately show ?thesis by (auto simp: is_valid_local_time_def)
qed

lemma uint_nonneg: "0 \<le> sint n \<Longrightarrow> uint n = sint n" for n :: i64
proof -
  assume nonneg: "0 \<le> sint n"
  have "uint n = uint (word_of_int (sint n) :: i64)" by simp
  also have "\<dots> = sint n mod 2 ^ 64" by (simp only: uint_word_of_int) simp
  also have "\<dots> = sint n" using nonneg sint_lt [of n] by simp
  finally show ?thesis .
qed

lemma unat_nonneg: "0 \<le> sint n \<Longrightarrow> int (unat n) = sint n" for n :: i64
  using uint_nonneg [of n] by (simp only: uint_nat)

lemma sless_bounds:
  "n <s 0 \<longleftrightarrow> sint n < 0" "n <s 1 \<longleftrightarrow> sint n < 1" "6 <s n \<longleftrightarrow> 6 < sint n" "30 <s n \<longleftrightarrow> 30 < sint n"
  "100 <s n \<longleftrightarrow> 100 < sint n" for n :: i64
  by (simp_all add: word_sless_alt)

lemma check_days_iff:
  assumes "length seen = 7"
  shows "check_days p index seen days = None \<longleftrightarrow>
    distinct days \<and> list_all (conforms (S_integer 0 6)) days \<and>
    (\<forall>n. JInteger n \<in> set days \<longrightarrow> \<not> seen ! unat n)"
  using assms
proof (induction p index seen days rule: check_days.induct)
  case (2 p index seen day days)
  show ?case
  proof (cases "\<exists>n. day = JInteger n \<and> 0 \<le> sint n \<and> sint n \<le> 6")
    case True
    then obtain n where n: "day = JInteger n" "0 \<le> sint n" "sint n \<le> 6" by blast
    from n have small: "unat n < 7" using unat_nonneg [of n] by linarith
    have inj: "unat m = unat n \<longleftrightarrow> m = n" for m by (simp add: word_unat_eq_iff)
    show ?thesis
    proof (cases "seen ! unat n")
      case seen: True
      with n show ?thesis by (auto simp: Let_def sless_bounds)
    next
      case False
      with n have "check_days p index seen (day # days) = check_days p (Suc index) (seen[unat n := True]) days"
        by (simp add: Let_def sless_bounds)
      also have "\<dots> = None \<longleftrightarrow> distinct days \<and> list_all (conforms (S_integer 0 6)) days \<and>
          (\<forall>m. JInteger m \<in> set days \<longrightarrow> \<not> seen[unat n := True] ! unat m)"
        by (rule "2.IH" [OF refl n(1)]) (use n False "2.prems" in \<open>simp_all add: sless_bounds\<close>)
      also have "(\<forall>m. JInteger m \<in> set days \<longrightarrow> \<not> seen[unat n := True] ! unat m) \<longleftrightarrow>
          JInteger n \<notin> set days \<and> (\<forall>m. JInteger m \<in> set days \<longrightarrow> \<not> seen ! unat m)"
        using small "2.prems" inj by (simp add: nth_list_update) metis
      finally show ?thesis using n False by auto
    qed
  next
    case False
    then show ?thesis by (cases day) (auto simp: Let_def sless_bounds)
  qed
qed simp

lemma validate_days_iff:
  "validate_days alarm path = None \<longleftrightarrow>
     (\<exists>v. json_find alarm ''days'' = Some v \<and> conforms (S_unique_array 1 7 (S_integer 0 6)) v)"
proof -
  have "check_days p 0 (replicate 7 False) days = None \<longleftrightarrow> distinct days \<and> list_all (conforms (S_integer 0 6)) days"
    if "list_all (conforms (S_integer 0 6)) days" for p days
  proof -
    have "unat n < 7" if "JInteger n \<in> set days" for n
    proof -
      from \<open>list_all _ days\<close> that have "conforms (S_integer 0 6) (JInteger n)" by (simp only: list_all_iff)
      then have "0 \<le> sint n" "sint n \<le> 6" by simp_all
      with unat_nonneg [of n] show ?thesis by linarith
    qed
    then show ?thesis by (simp add: check_days_iff)
  qed
  moreover have "list_all (conforms (S_integer 0 6)) days" if "check_days p 0 (replicate 7 False) days = None" for p days
    using that by (simp add: check_days_iff)
  ultimately have "check_days p 0 (replicate 7 False) days = None \<longleftrightarrow>
      distinct days \<and> list_all (conforms (S_integer 0 6)) days" for p days by blast
  then show ?thesis
    by (auto simp: validate_days_def Let_def neq_Nil_conv Suc_le_eq simp del: conforms_by.simps(4)
        split: option.splits json_value.splits)
qed

lemma validate_source_event_iff:
  "mb_accepted (validate_source_event alarm path) \<longleftrightarrow>
     (\<exists>v. json_find alarm ''sourceEventId'' = Some v \<and> conforms (S_either (S_string 0 128) S_null) v)"
  by (auto simp: validate_source_event_def split: option.splits json_value.splits)

text \<open>The members of an object that conforms, one by one.\<close>

lemma conforms_members:
  "(case r of None \<Rightarrow> \<not> True | Some v \<Rightarrow> conforms s v) \<longleftrightarrow> (\<exists>v. r = Some v \<and> conforms s v)"
  by (cases r) auto

lemma conforms_kinds:
  "conforms (S_string lo hi) v \<longleftrightarrow> (\<exists>s. v = JString s \<and> lo \<le> length s \<and> length s \<le> hi)"
  "conforms (S_enum options) v \<longleftrightarrow> (\<exists>s. v = JString s \<and> s \<in> set options)"
  "conforms (S_pattern matches) v \<longleftrightarrow> (\<exists>s. v = JString s \<and> matches s)"
  "conforms (S_integer a b) v \<longleftrightarrow> (\<exists>n. v = JInteger n \<and> a \<le> sint n \<and> sint n \<le> b)"
  "conforms S_boolean v \<longleftrightarrow> (\<exists>b. v = JBoolean b)"
  by (cases v; simp)+

section \<open>The bodies\<close>

text \<open>A member that is required; a member that is optional.\<close>

definition needs :: "json_value \<Rightarrow> string \<Rightarrow> schema \<Rightarrow> bool" where
  "needs v key s \<longleftrightarrow> (\<exists>x. json_find v key = Some x \<and> conforms s x)"

definition allows :: "json_value \<Rightarrow> string \<Rightarrow> schema \<Rightarrow> bool" where
  "allows v key s \<longleftrightarrow> (case json_find v key of None \<Rightarrow> True | Some x \<Rightarrow> conforms s x)"

lemma conforms_object:
  "conforms (S_object closed props) v \<longleftrightarrow>
     is_object v \<and> (closed \<longrightarrow> fst ` set (json_members v) \<subseteq> fst ` set props) \<and>
     list_all (\<lambda>(key, required, s). if required then needs v key s else allows v key s) props"
proof (cases v)
  case (JObject ms)
  have "(case map_of ms key of None \<Rightarrow> \<not> required | Some v \<Rightarrow> conforms s v) \<longleftrightarrow>
      (if required then needs v key s else allows v key s)" for key required s
    by (auto simp: JObject json_find_def needs_def allows_def split: option.split)
  then show ?thesis by (simp add: JObject)
qed simp_all

lemma needs_has: "needs v key s \<Longrightarrow> json_has v key"
  by (auto simp: needs_def json_has_def)

lemma needs_kinds:
  "needs v key (S_string lo hi) \<longleftrightarrow> (\<exists>s. json_find v key = Some (JString s) \<and> lo \<le> length s \<and> length s \<le> hi)"
  "needs v key (S_enum options) \<longleftrightarrow> (\<exists>s. json_find v key = Some (JString s) \<and> s \<in> set options)"
  "needs v key (S_pattern matches) \<longleftrightarrow> (\<exists>s. json_find v key = Some (JString s) \<and> matches s)"
  "needs v key (S_integer a b) \<longleftrightarrow> (\<exists>n. json_find v key = Some (JInteger n) \<and> a \<le> sint n \<and> sint n \<le> b)"
  "needs v key S_boolean \<longleftrightarrow> (\<exists>b. json_find v key = Some (JBoolean b))"
  by (simp_all only: needs_def conforms_kinds) blast+

lemma string_bounds: "\<not> (text = [] \<or> hi < length text) \<longleftrightarrow> 1 \<le> length text \<and> length text \<le> hi"
  "\<not> (length text < lo \<or> hi < length text) \<longleftrightarrow> lo \<le> length text \<and> length text \<le> hi"
  by (auto simp: Suc_le_eq)

lemma integer_bounds:
  "\<not> (n <s 1 \<or> 30 <s n) \<longleftrightarrow> 1 \<le> sint n \<and> sint n \<le> 30"
  "\<not> (n <s 0 \<or> 100 <s n) \<longleftrightarrow> 0 \<le> sint n \<and> sint n \<le> 100"
  "\<not> n <s 0 \<longleftrightarrow> 0 \<le> sint n \<and> sint n \<le> 9223372036854775807" for n :: i64
  using sint_i64_le [of n] by (auto simp: sless_bounds)

lemma accepted_members:
  "mb_accepted (with_value (require_string v key p) (\<lambda>s. if \<not> matches s then reject_body c q else r)) \<longleftrightarrow>
     needs v key (S_pattern matches) \<and> mb_accepted r"
  "mb_accepted (with_value (require_string v key p) (\<lambda>s. if s = [] \<or> hi < length s then reject_body c q else r)) \<longleftrightarrow>
     needs v key (S_string 1 hi) \<and> mb_accepted r"
  "mb_accepted (with_value (require_string v key p) (\<lambda>s. if length s < lo \<or> hi < length s then reject_body c q else r)) \<longleftrightarrow>
     needs v key (S_string lo hi) \<and> mb_accepted r"
  "mb_accepted (with_value (require_string v key p) (\<lambda>s. if s \<noteq> x \<and> s \<noteq> y then reject_body c q else r)) \<longleftrightarrow>
     needs v key (S_enum [x, y]) \<and> mb_accepted r"
  "mb_accepted (with_value (require_boolean v key p) (\<lambda>b. r)) \<longleftrightarrow> needs v key S_boolean \<and> mb_accepted r"
  "mb_accepted (with_value (require_integer v key p) (\<lambda>n. if n <s 1 \<or> 30 <s n then reject_body c q else r)) \<longleftrightarrow>
     needs v key (S_integer 1 30) \<and> mb_accepted r"
  "mb_accepted (with_value (require_integer v key p) (\<lambda>n. if n <s 0 \<or> 100 <s n then reject_body c q else r)) \<longleftrightarrow>
     needs v key (S_integer 0 100) \<and> mb_accepted r"
proof -
  show "mb_accepted (with_value (require_string v key p) (\<lambda>s. if s \<noteq> x \<and> s \<noteq> y then reject_body c q else r)) \<longleftrightarrow>
     needs v key (S_enum [x, y]) \<and> mb_accepted r"
    unfolding accepted_values accepted_if needs_kinds by auto
qed (unfold accepted_values accepted_if needs_kinds string_bounds integer_bounds not_not, blast+)

lemma validate_alarm_iff: "mb_accepted (validate_alarm alarm path) \<longleftrightarrow> conforms alarm_schema alarm"
proof -
  have "mb_accepted (validate_alarm alarm path) \<longleftrightarrow>
    is_object alarm \<and> list_all (json_has alarm) kAlarmKeys \<and> fst ` set (json_members alarm) \<subseteq> set kAlarmKeys \<and>
    needs alarm ''id'' (S_pattern is_valid_alarm_id) \<and> needs alarm ''label'' (S_string 1 48) \<and>
    needs alarm ''enabled'' S_boolean \<and> needs alarm ''localTime'' (S_pattern is_valid_local_time) \<and>
    needs alarm ''days'' (S_unique_array 1 7 (S_integer 0 6)) \<and> needs alarm ''timezone'' (S_string 3 64) \<and>
    needs alarm ''snoozeMinutes'' (S_integer 1 30) \<and> needs alarm ''volume'' (S_integer 0 100) \<and>
    needs alarm ''sound'' (S_string 1 32) \<and> needs alarm ''source'' (S_enum [''manual'', ''ics'']) \<and>
    needs alarm ''sourceEventId'' (S_either (S_string 0 128) S_null)"
    unfolding validate_alarm_def accepted_if accepted_checks accepted_members
      validate_days_iff validate_source_event_iff needs_def not_not ..
  also have "is_valid_alarm_id = id_pattern" by (rule ext) (rule is_valid_alarm_id_iff)
  also have "is_valid_local_time = local_time_pattern" by (rule ext) (rule is_valid_local_time_iff)
  finally show ?thesis
    unfolding alarm_schema_def conforms_object kAlarmKeys_def list.pred_inject prod.case if_True list.set image_insert
      image_empty fst_conv by (auto intro: needs_has)
qed

text \<open>The schedule: the first loop is the schema, the second one finds a repeated identifier.\<close>

lemma validate_alarms_iff: "validate_alarms index alarms = None \<longleftrightarrow> list_all (conforms alarm_schema) alarms"
  by (induction index alarms rule: validate_alarms.induct)
    (simp_all only: validate_alarms.simps Let_def list.pred_inject validate_alarm_iff if_bool_eq_conj option.distinct
      simp_thms, auto)

lemma validate_alarms_failure:
  "validate_alarms index alarms = Some f \<Longrightarrow> schema_result f \<and> \<not> mb_accepted f"
  using schema_alarm
  by (induction index alarms rule: validate_alarms.induct) (auto simp: Let_def split: if_splits)

lemma alarm_schema_id:
  assumes "conforms alarm_schema alarm"
  shows "\<exists>s. json_find alarm ''id'' = Some (JString s)"
proof -
  from assms have "needs alarm ''id'' (S_pattern id_pattern)"
    unfolding alarm_schema_def conforms_object list.pred_inject prod.case if_True by blast
  then show ?thesis unfolding needs_kinds by blast
qed

lemma find_same_id_iff:
  "list_all (\<lambda>alarm. \<exists>s. json_find alarm ''id'' = Some (JString s)) alarms \<Longrightarrow>
     find_same_id first_id second alarms = None \<longleftrightarrow>
     Some (JString first_id) \<notin> set (map (\<lambda>alarm. json_find alarm ''id'') alarms)"
  by (induction first_id second alarms rule: find_same_id.induct) (auto split: if_splits)

lemma find_duplicate_id_iff:
  "list_all (\<lambda>alarm. \<exists>s. json_find alarm ''id'' = Some (JString s)) alarms \<Longrightarrow>
     find_duplicate_id first alarms = None \<longleftrightarrow> distinct (map (\<lambda>alarm. json_find alarm ''id'') alarms)"
proof (induction first alarms rule: find_duplicate_id.induct)
  case (2 first alarm alarms)
  then obtain s where s: "json_find alarm ''id'' = Some (JString s)" by auto
  with 2 find_same_id_iff [of alarms s "Suc first"] show ?case by (auto split: option.split)
qed simp

lemma schedule_body_code:
  "mb_code (validate_schedule_body body) =
     (case json_find body ''alarms'' of
        Some (JArray alarms) \<Rightarrow>
          if 32 < length alarms then MB_payload_semantic_error
          else if \<not> list_all (conforms alarm_schema) alarms then MB_schema_invalid
          else if \<not> distinct (map (\<lambda>alarm. json_find alarm ''id'') alarms) then MB_payload_semantic_error
          else MB_accepted
      | _ \<Rightarrow> MB_schema_invalid) \<and> result_ok (validate_schedule_body body)"
proof (cases "\<exists>alarms. json_find body ''alarms'' = Some (JArray alarms) \<and> length alarms \<le> 32")
  case True
  then obtain alarms where alarms: "json_find body ''alarms'' = Some (JArray alarms)" "\<not> 32 < length alarms" by auto
  show ?thesis
  proof (cases "validate_alarms 0 alarms")
    case None
    then have fit: "list_all (conforms alarm_schema) alarms" by (simp only: validate_alarms_iff)
    then have "list_all (\<lambda>alarm. \<exists>s. json_find alarm ''id'' = Some (JString s)) alarms"
      using alarm_schema_id by (auto simp only: list_all_iff)
    note same = find_duplicate_id_iff [OF this, of 0]
    show ?thesis
    proof (cases "find_duplicate_id 0 alarms")
      case None
      with same \<open>validate_alarms 0 alarms = None\<close> fit alarms show ?thesis
        by (simp add: validate_schedule_body_def result_ok_def)
    next
      case (Some second)
      with same \<open>validate_alarms 0 alarms = None\<close> fit alarms show ?thesis
        by (simp add: validate_schedule_body_def result_ok_def)
    qed
  next
    case (Some f)
    then have "\<not> list_all (conforms alarm_schema) alarms" by (metis validate_alarms_iff option.distinct(1))
    moreover have "result_ok f" "mb_code f = MB_schema_invalid"
      using validate_alarms_failure [OF Some] by (cases "mb_code f"; simp add: schema_result_def result_ok_def)+
    ultimately show ?thesis using Some alarms by (simp add: validate_schedule_body_def)
  qed
next
  case False
  then show ?thesis
    by (auto simp: validate_schedule_body_def result_ok_def split: option.split json_value.split)
qed

lemma error_field_iff: "validate_error_field body = None \<longleftrightarrow> allows body ''field'' (S_string 0 64)"
  by (auto simp: validate_error_field_def allows_def json_has_def require_string_def
      split: option.split json_value.split)

lemma error_revision_iff:
  "validate_error_revision body = None \<longleftrightarrow> allows body ''currentRevision'' (S_integer 0 9223372036854775807)"
  using sint_i64_le
  by (auto simp: validate_error_revision_def allows_def json_has_def require_integer_def sless_bounds
      split: option.split json_value.split)

lemma error_response_iff:
  assumes "is_object body"
  shows "mb_accepted (validate_error_response_body body) \<longleftrightarrow> conforms error_schema body"
proof -
  have codes: "needs body ''code'' (S_pattern is_valid_error_code) \<longleftrightarrow> needs body ''code'' (S_enum kErrorCodes)"
    by (simp only: needs_kinds is_valid_error_code_def)
  have "mb_accepted (validate_error_response_body body) \<longleftrightarrow>
    list_all (json_has body) [''code'', ''summary'', ''retryable''] \<and>
    fst ` set (json_members body) \<subseteq> set [''code'', ''summary'', ''field'', ''retryable'', ''currentRevision''] \<and>
    needs body ''code'' (S_enum kErrorCodes) \<and> needs body ''summary'' (S_string 1 160) \<and>
    allows body ''field'' (S_string 0 64) \<and> needs body ''retryable'' S_boolean \<and>
    allows body ''currentRevision'' (S_integer 0 9223372036854775807)"
    unfolding validate_error_response_body_def accepted_checks accepted_members codes error_field_iff error_revision_iff
    by (simp only: accepted_simps simp_thms)
  then show ?thesis
    using assms unfolding error_schema_def conforms_object kErrorCodes_def list.pred_inject prod.case if_True if_False
      list.set image_insert image_empty fst_conv by (auto intro: needs_has)
qed

lemma missing_failure:
  "\<not> list_all (json_has v) required \<Longrightarrow> schema_failure (unless_failed (check_missing_required v p required) r)"
  using check_failures(1) [of v p required] check_missing_required_iff [of v p required]
  by (cases "check_missing_required v p required") (simp_all add: unless_failed_def)

lemma missing_passed:
  "list_all (json_has v) required \<Longrightarrow> unless_failed (check_missing_required v p required) r = r"
  using check_missing_required_iff [of v p required] by (simp add: unless_failed_def)

lemma with_integer:
  "with_value (require_integer v key p) r =
     (case json_find v key of Some (JInteger n) \<Rightarrow> r n | _ \<Rightarrow> reject_body MB_schema_invalid (child_path p key))"
  by (simp add: with_value_def require_integer_def split: option.split json_value.split)

lemma with_string:
  "with_value (require_string v key p) r =
     (case json_find v key of Some (JString s) \<Rightarrow> r s | _ \<Rightarrow> reject_body MB_schema_invalid (child_path p key))"
  by (simp add: with_value_def require_string_def split: option.split json_value.split)

lemma nonneg_failure:
  assumes "\<not> needs v key (S_integer 0 9223372036854775807)"
  shows "schema_failure (with_value (require_integer v key p)
    (\<lambda>n. if n <s 0 then reject_body MB_schema_invalid q else r n))"
proof (cases "\<exists>n. json_find v key = Some (JInteger n)")
  case True
  then obtain n where n: "json_find v key = Some (JInteger n)" by blast
  with assms have "n <s 0" using sint_i64_le [of n] by (auto simp: needs_kinds sless_bounds)
  with n show ?thesis by (simp add: with_integer)
next
  case False
  then show ?thesis by (simp add: with_integer split: option.split json_value.split)
qed

lemma nonneg_passed:
  "json_find v key = Some (JInteger n) \<Longrightarrow> 0 \<le> sint n \<Longrightarrow>
     with_value (require_integer v key p) (\<lambda>n. if n <s 0 then reject_body MB_schema_invalid q else r n) = r n"
  by (simp add: with_integer sless_bounds)

lemma receipt_schemas:
  assumes "is_object body"
  shows "conforms receipt_members body \<longleftrightarrow>
      list_all (json_has body) [''appliedRevision'', ''alarmCount'', ''nextAlarmUtc''] \<and>
      needs body ''appliedRevision'' (S_integer 0 9223372036854775807) \<and>
      needs body ''alarmCount'' (S_integer 0 9223372036854775807)"
    and "conforms receipt_count body \<longleftrightarrow> needs body ''alarmCount'' (S_integer 0 32)"
    and "conforms receipt_instant body \<longleftrightarrow> needs body ''nextAlarmUtc'' (S_pattern is_valid_protocol_utc_instant)"
proof -
  have "needs body key S_any \<longleftrightarrow> json_has body key" for key by (simp add: needs_def json_has_def)
  then show "conforms receipt_members body \<longleftrightarrow>
      list_all (json_has body) [''appliedRevision'', ''alarmCount'', ''nextAlarmUtc''] \<and>
      needs body ''appliedRevision'' (S_integer 0 9223372036854775807) \<and>
      needs body ''alarmCount'' (S_integer 0 9223372036854775807)"
    using assms unfolding receipt_members_def conforms_object list.pred_inject prod.case if_True
    by (auto intro: needs_has)
qed (use assms in \<open>simp_all only: receipt_count_def receipt_instant_def conforms_object list.pred_inject prod.case if_True simp_thms\<close>)

lemma sync_receipt_code:
  assumes "is_object body"
  shows "mb_code (validate_sync_receipt_body body) =
      (if \<not> conforms receipt_members body then MB_schema_invalid
       else if \<not> conforms receipt_count body then MB_payload_semantic_error
       else if \<not> conforms receipt_instant body then MB_schema_invalid
       else MB_accepted) \<and> result_ok (validate_sync_receipt_body body)"
proof (cases "list_all (json_has body) [''appliedRevision'', ''alarmCount'', ''nextAlarmUtc'']")
  case False
  have "schema_failure (validate_sync_receipt_body body)"
    unfolding validate_sync_receipt_body_def by (rule missing_failure [OF False])
  moreover have "\<not> conforms receipt_members body" unfolding receipt_schemas [OF assms] using False by blast
  ultimately show ?thesis by (auto simp: schema_failure_def result_ok_def simp del: conforms_by.simps)
next
  case True
  define rest where "rest n =
      (if kBodyMaximumAlarms < unat n then reject_body MB_payload_semantic_error ''/alarmCount''
       else with_value (require_string body ''nextAlarmUtc'' []) (\<lambda>text.
         if \<not> is_valid_protocol_utc_instant text then reject_body MB_schema_invalid ''/nextAlarmUtc'' else accept_body))"
    for n :: i64
  have run: "validate_sync_receipt_body body =
      with_value (require_integer body ''appliedRevision'' []) (\<lambda>n.
        if n <s 0 then reject_body MB_schema_invalid ''/appliedRevision'' else
        with_value (require_integer body ''alarmCount'' []) (\<lambda>n.
          if n <s 0 then reject_body MB_schema_invalid ''/alarmCount'' else rest n))"
    unfolding validate_sync_receipt_body_def missing_passed [OF True] rest_def ..
  have failure: ?thesis
    if "schema_failure (validate_sync_receipt_body body)" "\<not> conforms receipt_members body"
    using that by (auto simp: schema_failure_def result_ok_def simp del: conforms_by.simps)
  show ?thesis
  proof (cases "needs body ''appliedRevision'' (S_integer 0 9223372036854775807)")
    case False
    show ?thesis
      by (rule failure) (use False nonneg_failure [OF False] in \<open>simp_all only: run receipt_schemas [OF assms] simp_thms\<close>)
  next
    case fits: True
    then obtain a where a: "json_find body ''appliedRevision'' = Some (JInteger a)" "0 \<le> sint a"
      unfolding needs_kinds by blast
    note run_a = run [unfolded nonneg_passed [OF a]]
    show ?thesis
    proof (cases "needs body ''alarmCount'' (S_integer 0 9223372036854775807)")
      case False
      show ?thesis
        by (rule failure) (use False nonneg_failure [OF False] in \<open>simp_all only: run_a receipt_schemas [OF assms] simp_thms\<close>)
    next
      case fits_b: True
      then obtain b where b: "json_find body ''alarmCount'' = Some (JInteger b)" "0 \<le> sint b"
        unfolding needs_kinds by blast
      note run_b = run_a [unfolded nonneg_passed [OF b]]
      from unat_nonneg [OF b(2)] have "32 < unat b \<longleftrightarrow> \<not> sint b \<le> 32" by linarith
      then have bound: "32 < unat b \<longleftrightarrow> \<not> conforms receipt_count body" using b
        by (simp add: receipt_schemas [OF assms] needs_kinds)
      have members: "conforms receipt_members body" using True fits fits_b by (simp only: receipt_schemas [OF assms] simp_thms)
      show ?thesis
      proof (cases "\<exists>s. json_find body ''nextAlarmUtc'' = Some (JString s) \<and> is_valid_protocol_utc_instant s")
        case instant: True
        with bound members show ?thesis
          by (auto simp: run_b rest_def with_string result_ok_def receipt_schemas(3) [OF assms] needs_kinds(3))
      next
        case False
        then have "schema_failure (with_value (require_string body ''nextAlarmUtc'' []) (\<lambda>text.
            if \<not> is_valid_protocol_utc_instant text then reject_body MB_schema_invalid ''/nextAlarmUtc'' else accept_body))"
          by (auto simp: with_string split: option.split json_value.split)
        with False bound members show ?thesis
          by (auto simp: run_b rest_def schema_failure_def result_ok_def receipt_schemas(3) [OF assms] needs_kinds(3))
      qed
    qed
  qed
qed

section \<open>Properties\<close>

lemma open_object: "conforms (S_object False []) body \<longleftrightarrow> is_object body"
  by (simp only: conforms_object list.pred_inject simp_thms)

lemma body_verdict_correct:
  "mb_code (validate_protocol_message_body body type) = body_verdict body type \<and>
     result_ok (validate_protocol_message_body body type)"
proof (cases "is_object body")
  case False
  then show ?thesis
    by (simp add: validate_protocol_message_body_def verdict_by_def open_object result_ok_def del: conforms_by.simps)
next
  case True
  have "schema_result (validate_error_response_body body)" by (rule schema_error_response)
  then have error: "mb_code (validate_error_response_body body) =
      (if conforms error_schema body then MB_accepted else MB_schema_invalid)" "result_ok (validate_error_response_body body)"
    using error_response_iff [OF True]
    by (cases "mb_code (validate_error_response_body body)"; simp add: schema_result_def result_ok_def)+
  show ?thesis
    unfolding validate_protocol_message_body_def verdict_by_def open_object
    using True error schedule_body_code [of body] sync_receipt_code [OF True]
    by (simp add: result_ok_def del: conforms_by.simps)
qed

text \<open>Bodies whose strings are ASCII, where bytes and characters agree.\<close>

primrec ascii_strings :: "json_value \<Rightarrow> bool"
  and ascii_members :: "(string \<times> json_value) list \<Rightarrow> bool"
  and ascii_member :: "string \<times> json_value \<Rightarrow> bool"
  and ascii_elements :: "json_value list \<Rightarrow> bool" where
  "ascii_strings (JObject ms) \<longleftrightarrow> ascii_members ms"
| "ascii_strings (JArray vs) \<longleftrightarrow> ascii_elements vs"
| "ascii_strings (JString s) \<longleftrightarrow> list_all (\<lambda>c. byte_val c < 128) s"
| "ascii_strings (JInteger n) \<longleftrightarrow> True"
| "ascii_strings (JBoolean b) \<longleftrightarrow> True"
| "ascii_strings JNull \<longleftrightarrow> True"
| "ascii_members [] \<longleftrightarrow> True"
| "ascii_members (m # ms) \<longleftrightarrow> ascii_member m \<and> ascii_members ms"
| "ascii_member (k, v) \<longleftrightarrow> ascii_strings v"
| "ascii_elements [] \<longleftrightarrow> True"
| "ascii_elements (v # vs) \<longleftrightarrow> ascii_strings v \<and> ascii_elements vs"

lemma ascii_elements_iff: "ascii_elements vs \<longleftrightarrow> list_all ascii_strings vs"
  by (induction vs) simp_all

lemma ascii_members_find: "ascii_members ms \<Longrightarrow> map_of ms key = Some v \<Longrightarrow> ascii_strings v"
  by (induction ms) (auto split: if_splits)

lemma ascii_find: "ascii_strings v \<Longrightarrow> json_find v key = Some x \<Longrightarrow> ascii_strings x"
  by (cases v) (auto simp: json_find_def intro: ascii_members_find)

lemma char_count_ascii: "list_all (\<lambda>c. byte_val c < 128) s \<Longrightarrow> char_count s = length s"
  by (induction s) (simp_all add: char_count_def)

lemma conforms_ascii: "ascii_strings v \<Longrightarrow> conforms_by char_count s v \<longleftrightarrow> conforms s v"
proof (induction s arbitrary: v rule: schema.induct)
  case (S_unique_array lo hi item)
  then show ?case
    by (cases v) (auto simp: ascii_elements_iff list_all_iff)
next
  case (S_object closed props)
  have "(case map_of ms key of None \<Rightarrow> \<not> required | Some v \<Rightarrow> conforms_by char_count s v) \<longleftrightarrow>
      (case map_of ms key of None \<Rightarrow> \<not> required | Some v \<Rightarrow> conforms s v)"
    if "(key, required, s) \<in> set props" "v = JObject ms" for key required s ms
    using S_object that ascii_members_find [of ms key] by (auto split: option.split)
  then show ?case by (cases v) (auto simp: list_all_iff)
qed (auto simp: char_count_ascii split: json_value.split)

lemma verdict_ascii:
  assumes "ascii_strings body"
  shows "verdict_by char_count body type = body_verdict body type"
proof -
  have "list_all (conforms_by char_count alarm_schema) alarms \<longleftrightarrow> list_all (conforms alarm_schema) alarms"
    if "json_find body ''alarms'' = Some (JArray alarms)" for alarms
  proof -
    from ascii_find [OF assms that] have "list_all ascii_strings alarms" by (simp add: ascii_elements_iff)
    then show ?thesis using conforms_ascii by (auto simp: list_all_iff)
  qed
  then show ?thesis
    unfolding verdict_by_def conforms_ascii [OF assms] by (auto split: option.split json_value.split)
qed

text \<open>C38: the verdict on a body, for every body and every message type, is the one that the
  checked-in JSON schemas and the documented conflicts prescribe when the lengths of strings are
  counted in bytes: a schedule is accepted exactly when it lists at most 32 alarms that conform to
  the alarm schema and have different identifiers, too many alarms or a repeated identifier are
  conflicts and everything else is malformed; likewise an error body and a sync receipt. The
  schemas count characters, so this is their own verdict whenever every string of the body is
  ASCII. The verdict and the flag agree and no refusal is retryable.\<close>

theorem body_validator_gives_the_schema_verdict:
  "mb_code (validate_protocol_message_body body type) = body_verdict body type \<and>
   (mb_accepted (validate_protocol_message_body body type) \<longleftrightarrow> body_verdict body type = MB_accepted) \<and>
   \<not> mb_retryable (validate_protocol_message_body body type) \<and>
   (ascii_strings body \<longrightarrow>
      mb_code (validate_protocol_message_body body type) = verdict_by char_count body type)"
  using body_verdict_correct [of body type] verdict_ascii [of body type] by (simp add: result_ok_def)

text \<open>A schedule of one alarm with a given label.\<close>

definition labelled_schedule :: "string \<Rightarrow> json_value" where
  "labelled_schedule label = JObject [(''alarms'', JArray [JObject
     [(''id'', JString ''wake''), (''label'', JString label), (''enabled'', JBoolean True),
      (''localTime'', JString ''06:30''), (''days'', JArray [JInteger 1, JInteger 5]),
      (''timezone'', JString ''Europe/Berlin''), (''snoozeMinutes'', JInteger 9), (''volume'', JInteger 40),
      (''sound'', JString ''chime''), (''source'', JString ''manual''), (''sourceEventId'', JNull)]])]"

theorem body_validator_gives_the_schema_verdict_witness:
  "verdict_by char_count (labelled_schedule ''Up'') ''schedule.apply'' = MB_accepted"
proof -
  have "ascii_strings (labelled_schedule ''Up'')" by code_simp
  moreover have "mb_code (validate_protocol_message_body (labelled_schedule ''Up'') ''schedule.apply'') = MB_accepted"
    by code_simp
  ultimately show ?thesis
    using body_validator_gives_the_schema_verdict [of "labelled_schedule ''Up''" "''schedule.apply''"]
    by (metis (no_types))
qed

text \<open>
  Outside ASCII the verdicts differ: a label of 25 letters a-umlaut is within the 48 characters
  of the schema, but its 50 bytes are refused.
\<close>

definition wide_label :: string where
  "wide_label = concat (replicate 25 [CHR 0xC3, CHR 0xA4])"

lemma pattern_code [code]: "id_pattern s = is_valid_alarm_id s" "local_time_pattern t = is_valid_local_time t"
  by (simp_all add: is_valid_alarm_id_iff is_valid_local_time_iff)

lemma wide_label_refused:
  "verdict_by char_count (labelled_schedule wide_label) ''schedule.apply'' = MB_accepted \<and>
   mb_code (validate_protocol_message_body (labelled_schedule wide_label) ''schedule.apply'') = MB_schema_invalid"
  by code_simp

text \<open>The whole gate: it always answers, and the window changes exactly on acceptance.\<close>

lemma parse_json_ends: "\<exists>result. parse_json text = Some result"
  using parse_value_ends [of kJsonMaximumDepth "[]" "skip_ws text" 0]
  by (cases "parse_value kJsonMaximumDepth [] (skip_ws text) 0")
    (simp_all add: parse_json_def del: parse_value.simps)

lemma message_gate:
  "\<exists>r. validate_protocol_message envelope body_json window =
       Some (r, if pm_accepted r then map_option (replay_remember (pe_message_id envelope)) window else window) \<and>
     (pm_accepted r \<longleftrightarrow>
        pv_accepted (fst (validate_protocol_envelope envelope window False)) \<and>
        (\<exists>parsed. parse_json body_json = Some parsed \<and> jr_ok parsed \<and>
           mb_accepted (validate_protocol_message_body (jr_value parsed) (pe_type envelope))))"
proof -
  obtain parsed where parsed: "parse_json body_json = Some parsed" using parse_json_ends by blast
  have "snd (validate_protocol_envelope envelope window False) = window"
    by (simp add: validate_protocol_envelope_def)
  then obtain er where er: "validate_protocol_envelope envelope window False = (er, window)"
    by (metis prod.collapse)
  show ?thesis
    unfolding validate_protocol_message_def er parsed
    by (simp add: refuse_message_def Let_def)
qed

lemma parse_json_accepted:
  "(\<exists>parsed. parse_json body_json = Some parsed \<and> jr_ok parsed \<and> P (jr_value parsed)) \<longleftrightarrow>
     (\<exists>v. json_document v body_json \<and> P v)"
proof -
  have "parsed = \<lparr>jr_ok = True, jr_value = jr_value parsed, jr_error = \<lparr>je_code = JP_ok, je_path = []\<rparr>\<rparr>"
    if "parse_json body_json = Some parsed" "jr_ok parsed" for parsed
    using that by (auto simp: parse_json_def json_failure_def split: if_splits json_step.splits)
  then show ?thesis unfolding parse_json_document [symmetric] by fastforce
qed

text \<open>C39: the whole gate. It always answers, and it accepts a message exactly when the envelope
  satisfies every documented condition, its identifier is not in the replay window, and the body
  is a JSON document within the limits on which the schemas, with lengths in bytes, give the verdict
  accepted for the type.
  An accepted message enters its identifier into the window, a refused one changes nothing.\<close>

theorem message_accepted_exactly:
  "\<exists>r. validate_protocol_message envelope body_json window =
       Some (r, if pm_accepted r then map_option (replay_remember (pe_message_id envelope)) window else window) \<and>
     (pm_accepted r \<longleftrightarrow>
        pe_protocol envelope = ''dawn-dock/1'' \<and> pe_type envelope \<in> set kKnownTypes \<and>
        is_valid_message_id (pe_message_id envelope) \<and>
        \<not> (\<exists>w. window = Some w \<and> replay_contains w (pe_message_id envelope)) \<and>
        is_valid_protocol_utc_instant (pe_sent_at_utc envelope) \<and>
        \<not> (requires_expected_revision (pe_type envelope) \<and> pe_expected_revision envelope = None) \<and>
        pe_serialized_size_bytes envelope \<le> 65536 \<and>
        (\<exists>v. json_document v body_json \<and> body_verdict v (pe_type envelope) = MB_accepted))"
proof -
  have verdict: "mb_accepted (validate_protocol_message_body v type) \<longleftrightarrow> body_verdict v type = MB_accepted" for v type
    using body_verdict_correct [of v type] by (simp add: result_ok_def)
  have preflight: "pv_accepted (fst (validate_protocol_envelope envelope window False)) \<longleftrightarrow>
      pe_protocol envelope = ''dawn-dock/1'' \<and> pe_type envelope \<in> set kKnownTypes \<and>
      is_valid_message_id (pe_message_id envelope) \<and>
      \<not> (\<exists>w. window = Some w \<and> replay_contains w (pe_message_id envelope)) \<and>
      is_valid_protocol_utc_instant (pe_sent_at_utc envelope) \<and>
      \<not> (requires_expected_revision (pe_type envelope) \<and> pe_expected_revision envelope = None) \<and>
      pe_serialized_size_bytes envelope \<le> 65536"
    using envelope_accepted_iff [of envelope window False] by (simp only: prod.case_eq_if)
  show ?thesis
    using message_gate [of envelope body_json window] unfolding verdict preflight conj_assoc
      parse_json_accepted [of body_json "\<lambda>v. body_verdict v (pe_type envelope) = MB_accepted"] .
qed

text \<open>A run of messages: the identifiers accepted, in order, and the window at the end.\<close>

fun serve :: "replay_window \<Rightarrow> (protocol_envelope \<times> string) list \<Rightarrow> string list \<times> replay_window" where
  "serve w [] = ([], w)"
| "serve w ((envelope, body_json) # messages) =
     (case validate_protocol_message envelope body_json (Some w) of
        Some (r, Some w') \<Rightarrow>
          (case serve w' messages of (ids, w'') \<Rightarrow>
             (if pm_accepted r then pe_message_id envelope # ids else ids, w''))
      | _ \<Rightarrow> ([], w))"

lemma serve_remembers: "serve w messages = (ids, w') \<Longrightarrow> w' = fold replay_remember ids w"
proof (induction w messages arbitrary: ids rule: serve.induct)
  case (2 w envelope body_json messages)
  from message_gate [of envelope body_json "Some w"] obtain r where
    r: "validate_protocol_message envelope body_json (Some w) =
      Some (r, Some (if pm_accepted r then replay_remember (pe_message_id envelope) w else w))"
    by (auto split: if_splits)
  with 2 show ?case by (auto split: prod.splits if_splits)
qed simp

lemma accepted_fresh:
  assumes "validate_protocol_message envelope body_json (Some w) = Some (r, window)" "pm_accepted r"
  shows "\<not> replay_contains w (pe_message_id envelope)" "window = Some (replay_remember (pe_message_id envelope) w)"
proof -
  from message_gate [of envelope body_json "Some w"] assms
  have accepted: "pv_accepted (fst (validate_protocol_envelope envelope (Some w) False))"
    and window: "window = Some (replay_remember (pe_message_id envelope) w)" by auto
  from accepted show "\<not> replay_contains w (pe_message_id envelope)"
    by (auto simp: validate_protocol_envelope_def refuse_envelope_def split: if_splits)
  show "window = Some (replay_remember (pe_message_id envelope) w)" by (rule window)
qed

text \<open>C40: an accepted message cannot be replayed. After it, and after any further messages of
  which fewer than the capacity of the window are accepted, every message with its identifier is
  refused, whatever its body, and leaves the window as it is. Refused messages do not count: they
  use up no room in the window.\<close>

theorem accepted_message_is_not_replayed:
  assumes "replay_ok w" and "rw_capacity w \<noteq> 0"
    and "validate_protocol_message envelope body_json (Some w) = Some (r, Some w1)" and "pm_accepted r"
    and "serve w1 messages = (ids, w2)" and "length ids < rw_capacity w"
    and "pe_message_id envelope' = pe_message_id envelope"
  shows "\<exists>r'. validate_protocol_message envelope' body_json' (Some w2) = Some (r', Some w2) \<and> \<not> pm_accepted r'"
proof -
  have "w2 = fold replay_remember ids (replay_remember (pe_message_id envelope) w)"
    using serve_remembers [OF assms(5)] accepted_fresh(2) [OF assms(3,4)] by simp
  then have known: "replay_contains w2 (pe_message_id envelope')"
    unfolding assms(7) using replay.note_then_fold_known assms(1,2,6) accepted_fresh(1) [OF assms(3,4)] by simp
  from message_gate [of envelope' body_json' "Some w2"] obtain r' where
    r': "validate_protocol_message envelope' body_json' (Some w2) =
      Some (r', Some (if pm_accepted r' then replay_remember (pe_message_id envelope') w2 else w2))"
    by (auto split: if_splits)
  with accepted_fresh(1) known have "\<not> pm_accepted r'" by blast
  with r' show ?thesis by simp
qed

definition sample_envelope :: protocol_envelope where
  "sample_envelope = \<lparr>pe_protocol = ''dawn-dock/1'', pe_message_id = ''m-1'', pe_sent_at_utc = ''2026-03-01T06:30:00Z'',
     pe_type = ''schedule.get'', pe_expected_revision = None, pe_serialized_size_bytes = 120\<rparr>"

lemma sample_accepted:
  "validate_protocol_message sample_envelope ''{}'' (Some (new_replay_window 1)) =
     Some (\<lparr>pm_accepted = True, pm_retryable = False, pm_code = ''accepted'', pm_field_path = []\<rparr>,
       Some (replay_remember ''m-1'' (new_replay_window 1)))"
proof -
  have "validate_protocol_envelope sample_envelope (Some (new_replay_window 1)) False =
      (\<lparr>pv_code = PV_accepted, pv_accepted = True, pv_retryable = False\<rparr>, Some (new_replay_window 1))"
    unfolding sample_envelope_def new_replay_window_def by code_simp
  moreover have "parse_json ''{}'' =
      Some \<lparr>jr_ok = True, jr_value = JObject [], jr_error = \<lparr>je_code = JP_ok, je_path = []\<rparr>\<rparr>"
    by code_simp
  moreover have "validate_protocol_message_body (JObject []) ''schedule.get'' = accept_body" by code_simp
  ultimately show ?thesis
    by (simp add: validate_protocol_message_def sample_envelope_def)
qed

theorem accepted_message_is_not_replayed_witness:
  "\<exists>r'. validate_protocol_message sample_envelope ''[]'' (Some (replay_remember ''m-1'' (new_replay_window 1))) =
     Some (r', Some (replay_remember ''m-1'' (new_replay_window 1))) \<and> \<not> pm_accepted r'"
proof (rule accepted_message_is_not_replayed)
  show "replay_ok (new_replay_window 1)" by (rule replay_ok_new)
  show "rw_capacity (new_replay_window 1) \<noteq> 0" by (simp add: new_replay_window_def)
  show "validate_protocol_message sample_envelope ''{}'' (Some (new_replay_window 1)) =
     Some (\<lparr>pm_accepted = True, pm_retryable = False, pm_code = ''accepted'', pm_field_path = []\<rparr>,
       Some (replay_remember ''m-1'' (new_replay_window 1)))" by (rule sample_accepted)
  have "validate_protocol_message (sample_envelope\<lparr>pe_protocol := ''dawn-dock/2''\<rparr>) [] (Some w) =
      Some (refuse_message False ''invalid_protocol'' [], Some w)" for w
    by (simp add: validate_protocol_message_def validate_protocol_envelope_def sample_envelope_def refuse_envelope_def)
  then show "serve (replay_remember ''m-1'' (new_replay_window 1))
      [(sample_envelope\<lparr>pe_protocol := ''dawn-dock/2''\<rparr>, [])] = ([], replay_remember ''m-1'' (new_replay_window 1))"
    by (simp add: refuse_message_def)
qed (simp_all add: new_replay_window_def)

end
