(* ===== verification/Startup.thy ===== *)
theory Startup
  imports Nvs_Properties
begin

text \<open>
  The firmware entry point, \<open>main.cpp\<close>: it initialises the storage, loads the snapshot and
  reports what it found. The log line is the result of the model.
\<close>

datatype startup_log =
    Storage_unavailable esp_err
  | Storage_fault load_status
  | Storage_report load_status u64 bool

definition app_main ::
    "'f nvs_api \<Rightarrow> nat \<Rightarrow> nat \<Rightarrow> 'f nvs_state \<Rightarrow> startup_log \<times> 'f nvs_state" where
  "app_main api task self st =
     (case nvs_initialize api task st of (error, st) \<Rightarrow>
        if error \<noteq> ESP_OK then (Storage_unavailable error, st)
        else case load (nvs_backend api task self) st of (loaded, st) \<Rightarrow>
          if lr_status loaded \<noteq> LS_loaded \<and> lr_status loaded \<noteq> LS_empty
          then (Storage_fault (lr_status loaded), st)
          else (Storage_report (lr_status loaded) (ss_revision (lr_snapshot loaded))
                  (lr_corruption_detected loaded), st))"

text \<open>
  The entry point preserves the partition whatever it finds, and what it reports is the snapshot
  that the two records hold, given a library whose initialisation keeps the records.
\<close>

lemma app_main_preserves_records:
  assumes "nvs_library api blob pending opened"
    and init: "\<And>f e f'. nvs_flash_init_partition api f = (e, f') \<Longrightarrow> blob f' = blob f"
    and run: "app_main api task self st = (log, st')"
  shows "nvs_contents blob st' = nvs_contents blob st"
    and "log = Storage_report status revision corrupt \<Longrightarrow>
      status = lr_status (view (nvs_contents blob st)) \<and>
      revision = ss_revision (lr_snapshot (view (nvs_contents blob st))) \<and>
      corrupt = lr_corruption_detected (view (nvs_contents blob st))"
proof -
  obtain e st1 where i: "nvs_initialize api task st = (e, st1)" by fastforce
  obtain r st2 where l: "load (nvs_backend api task self) st1 = (r, st2)" by fastforce
  have same: "nvs_contents blob st1 = nvs_contents blob st"
    using i by (auto simp: nvs_initialize_def nvs_contents_def fun_eq_iff dest!: init split: if_splits prod.splits)
  note loaded = quiet_backend.load_view [OF nvs_library.adapter_contract [OF assms(1)] l]
  show "nvs_contents blob st' = nvs_contents blob st"
    using run i l same loaded(1) by (auto simp: app_main_def split: if_splits)
  show "status = lr_status (view (nvs_contents blob st)) \<and>
      revision = ss_revision (lr_snapshot (view (nvs_contents blob st))) \<and>
      corrupt = lr_corruption_detected (view (nvs_contents blob st))"
    if "log = Storage_report status revision corrupt"
    using that run i l same loaded(2) by (auto simp: app_main_def split: if_splits)
qed

end
