(* ===== verification/Spec2Isabelle.thy ===== *)
theory Spec2Isabelle
  imports
    Coordinator_Properties
    Control_Debounce
    Quadrature_Encoder
    Schedule_Materializer
    Tzif_Properties
    Body_Properties
    Startup
begin

text \<open>
  A verification development of the dawn-dock alarm firmware, the C++ code under
  \<open>src/firmware/components\<close> and \<open>src/firmware/main\<close>. Every source file of the firmware is
  modelled; the definitions carry the names of the C++ functions, and the manifest of the
  development lists the lines that each one translates.

  \<^bold>\<open>The program.\<close> The firmware keeps one schedule of alarms in two slots of a flash
  partition, and decides from the wall clock, the monotonic clock and that schedule which alarm
  rings. Messages of the companion application arrive as an envelope with a JSON body. Zone data
  turn weekly alarms into dated ones. Two input drivers serve the button and the knob. The layers
  call each other in this order, with the theories that model them:

  \<^item> \<open>alarm_engine\<close>: the life of one occurrence. \<open>Alarm_Engine\<close> has the operations on the
    persistent state, \<open>Alarm_Lifecycle\<close> their properties: the invariant of the journal under every
    sequence of steps, at most one ring per instant, the classification of a due time, the exact
    conditions of snooze, timeout and reboot recovery, and the refinement of the documented
    lifecycle. \<open>Journal_Provenance\<close> has the journals that the steps of the device produce, in which
    every terminal record is covered by a watermark.
  \<^item> \<open>schedule_store\<close>: \<open>Storage_Crc\<close> (the checksum and the errors it detects), \<open>Wire_Format\<close>
    (the little-endian reader and writer), \<open>Schedule_Record\<close> (the snapshot and its validation),
    \<open>Record_Codec\<close> (encoding, decoding and their round trip, the refusal of damaged records),
    \<open>Schedule_Store\<close> (load, save, journal save and migration over the two slots). The locale
    \<open>quiet_backend\<close> of \<open>Store_Contract\<close> states what the store expects of its backend, and
    \<open>Store_Properties\<close> shows on it that loads select the newest record, that what is reported as
    stored is durable, that an interrupted commit leaves the old or the new snapshot, and that
    saves compare and set. \<open>Store_Session\<close> is the view that the callers of the store share.
  \<^item> \<open>nvs_slot_storage\<close>: \<open>Nvs_Storage\<close> has the adapter over the flash library of the vendor. The
    library is a parameter, the record \<open>nvs_api\<close>, and its documented promises are the locale
    \<open>nvs_library\<close>; a sublocale shows that the adapter is a \<open>quiet_backend\<close>, and an interpretation
    runs it on a plain map. \<open>Nvs_Properties\<close> states the refinement and the latch after an uncertain
    write. \<open>Startup\<close> has the entry point \<open>main.cpp\<close>.
  \<^item> \<open>committed_alarm_disable\<close>, \<open>committed_schedule_evaluator\<close>, \<open>invalid_time_recovery\<close>,
    \<open>runtime_coordinator\<close>: the steps that combine engine and store, in \<open>Alarm_Disable\<close>,
    \<open>Committed_Evaluator\<close>, \<open>Invalid_Time_Recovery\<close> and \<open>Runtime_Coordinator\<close>, with
    \<open>Evaluator_Properties\<close>, \<open>Recovery_Properties\<close> and \<open>Coordinator_Properties\<close>: nothing sounds before
    the journal is durable, one tick starts at most one alert, the latch of an invalid time is
    cleared only by a reconciliation that accounts for every alarm that was crossed.
  \<^item> \<open>recurrence_resolver\<close>, \<open>schedule_materializer\<close>, \<open>tzif_rules\<close>: \<open>Recurrence_Resolver\<close> and
    \<open>Recurrence_Properties\<close> (the next date of a weekly alarm, exact on gaps and folds, and always
    found), \<open>Civil_Calendar\<close> (the calendar is the Gregorian one), \<open>Schedule_Materializer\<close> (all or
    nothing), \<open>Tzif_Rules\<close> and \<open>Tzif_Properties\<close> (the offsets are the ones of the
    record's transition table, which RFC 8536 follows up to its last transition; the footer, which it
    follows from there on, is never read; and the exact condition for a read outside the data).
  \<^item> \<open>protocol_service\<close>, \<open>json_parser\<close>, \<open>message_body_validator\<close>: \<open>Protocol_Service\<close> (the
    envelope and the replay window, whose contract is the locale \<open>duplicate_detector\<close>),
    \<open>Json_Parser\<close>, \<open>Json_Grammar\<close> and \<open>Json_Properties\<close> (the parser accepts exactly what the grammar
    derives within the limits, and always ends), \<open>Body_Validator\<close> and \<open>Body_Properties\<close> (the verdict is
    the one of the JSON schemas with string lengths in bytes, hence their own on ASCII, and an accepted
    message cannot be replayed).
  \<^item> \<open>control_debounce\<close> and \<open>quadrature_encoder\<close>: \<open>Control_Debounce\<close> and \<open>Quadrature_Encoder\<close>, each
    against a specification over the whole history of samples.

  \<open>Dawn_Prelude\<close> holds what they share: the machine integers, decimal rendering, and lemmas on
  lists.

  \<^bold>\<open>How the code is rendered.\<close> Integers of 32 and 64 bits are words where their width matters,
  with the guards of the code; sums that the code leaves unguarded and that stay in range are
  integers, and lemmas show the range. The two signed differences of \<open>translate_anchor\<close>, which the
  code leaves unguarded and which can leave the range, wrap in the model; in C++ they are undefined then. The TZif parser takes the width of \<open>size_t\<close> as a parameter,
  because the ESP32-S3 has 32 bits and the host tests have 64; a read outside the data is an
  outcome of its own. Objects with state are records that every operation returns updated; a
  status enum is a datatype; \<open>std::optional\<close> is an option. Errors are values of the results. In
  the JSON parser the position is the list of the characters that are left.

  \<^bold>\<open>Bounds and fuel.\<close> Recursion is structural or has a measure, except in the loops of the JSON
  parser over members and elements, whose fuel is one more than the length of the text; each round
  consumes a character, and \<open>parse_value_ends\<close> shows that the fuel never runs out. The nesting of
  the parser is bounded by the sixteen levels of the code. The search of the resolver takes the
  fifteen days of the code.

  \<^bold>\<open>Not modelled.\<close> The companion application (Dart), the host tests and their fakes, build and
  deployment files, and the hardware are outside the model. So are the texts of log lines, the
  allocation of memory except where the code tests it, and the unused \<open>BigEndianReader::skip\<close>.
  The stability of equal entries under \<open>std::sort\<close> is taken as given where entries can compare
  equal. The flash library is known only by its promises.
\<close>

end
